(* ===== verification/Prelude.thy ===== *)
theory Prelude
  imports Main "HOL-Library.Word" "HOL-Library.Monad_Syntax"
begin

text \<open>
  Shared vocabulary of the development: machine integers, the error numbers the program
  returns, C strings with the number printing of the \<open>printf\<close> family, allocation
  outcomes, the chaining of calls that return an error number, and the list facts the
  components share.  Named collections: \<open>errno_defs\<close> unfolds the error numbers,
  \<open>keeps_intros\<close> derives that a chain of calls keeps an invariant.
\<close>

named_theorems errno_defs

type_synonym u8 = "8 word"
type_synonym u16 = "16 word"
type_synonym u32 = "32 word"
type_synonym u64 = "64 word"
type_synonym bytes = "8 word list"

section \<open>Error numbers\<close>

definition ENOENT :: int where [errno_defs]: "ENOENT = 2"
definition EINTR :: int where [errno_defs]: "EINTR = 4"
definition EAGAIN :: int where [errno_defs]: "EAGAIN = 11"
definition ENOMEM :: int where [errno_defs]: "ENOMEM = 12"
definition EINVAL :: int where [errno_defs]: "EINVAL = 22"
definition EPIPE :: int where [errno_defs]: "EPIPE = 32"
definition ERANGE :: int where [errno_defs]: "ERANGE = 34"
definition ETIME :: int where [errno_defs]: "ETIME = 62"
definition ETIMEDOUT :: int where [errno_defs]: "ETIMEDOUT = 110"

section \<open>C strings and number printing\<close>

text \<open>
  A C string is its characters before the terminating NUL.  \<open>snprintf (buf, n, ...)\<close>
  keeps at most \<open>n - 1\<close> of them.
\<close>

definition fit :: "nat \<Rightarrow> string \<Rightarrow> string" where
  "fit n s = take (n - 1) s"

lemma length_fit: "0 < n \<Longrightarrow> length (fit n s) < n"
  by (simp add: fit_def min_def) linarith

lemma fit_id: "length s < n \<Longrightarrow> fit n s = s"
  by (simp add: fit_def)

text \<open>The digit of a value below 16, as \<open>%d\<close>, \<open>%u\<close> and \<open>%x\<close> print it.\<close>

definition digit :: "nat \<Rightarrow> char" where
  "digit d = (if d < 10 then char_of (48 + d) else char_of (87 + d))"

fun radix :: "nat \<Rightarrow> nat \<Rightarrow> string" where
  "radix b n = (if b < 2 \<or> n < b then [digit (n mod 16)] else radix b (n div b) @ [digit (n mod b)])"

declare radix.simps [simp del]

text \<open>\<open>%u\<close>, \<open>%d\<close>, \<open>%x\<close> and \<open>%02x\<close>.\<close>

definition dec :: "nat \<Rightarrow> string" where
  "dec n = radix 10 n"

definition dec_int :: "int \<Rightarrow> string" where
  "dec_int i = (if i < 0 then CHR ''-'' # dec (nat (- i)) else dec (nat i))"

definition hex :: "nat \<Rightarrow> string" where
  "hex n = radix 16 n"

definition hex2 :: "u8 \<Rightarrow> string" where
  "hex2 b = [digit (unat b div 16), digit (unat b mod 16)]"

lemma radix_nonempty: "radix b n \<noteq> []"
  by (subst radix.simps) simp

lemma dec_nonempty [simp]: "dec n \<noteq> []"
  by (simp add: dec_def radix_nonempty)

text \<open>A value below \<open>10 ^ k\<close> prints in at most \<open>k\<close> digits.\<close>

lemma length_radix10: "0 < k \<Longrightarrow> n < 10 ^ k \<Longrightarrow> length (radix 10 n) \<le> k"
proof (induction k arbitrary: n)
  case 0
  then show ?case by simp
next
  case (Suc k)
  show ?case
  proof (cases "n < 10")
    case True
    then show ?thesis by (subst radix.simps) simp
  next
    case False
    with Suc.prems have "0 < k" by (cases k) auto
    moreover from Suc.prems have "n div 10 < 10 ^ k" by (simp add: less_mult_imp_div_less mult.commute)
    ultimately have "length (radix 10 (n div 10)) \<le> k" by (rule Suc.IH)
    with False show ?thesis by (subst radix.simps) simp
  qed
qed

lemma length_dec_u32: "length (dec (unat (x :: u32))) \<le> 10"
proof -
  have "unat x < 2 ^ 32" using unsigned_less [of x] by simp
  then have "unat x < 10 ^ 10" by simp
  then show ?thesis unfolding dec_def by (intro length_radix10) auto
qed

text \<open>The value of a decimal numeral, read left to right as \<open>strtol\<close> accumulates it.\<close>

definition is_digit :: "char \<Rightarrow> bool" where
  "is_digit c \<longleftrightarrow> 48 \<le> (of_char c :: nat) \<and> (of_char c :: nat) \<le> 57"

fun read_dec :: "nat \<Rightarrow> string \<Rightarrow> nat" where
  "read_dec acc [] = acc"
| "read_dec acc (c # cs) = read_dec (10 * acc + (of_char c - 48)) cs"

lemma read_dec_append: "read_dec acc (xs @ ys) = read_dec (read_dec acc xs) ys"
  by (induction xs arbitrary: acc) auto

lemma of_char_digit: "d < 10 \<Longrightarrow> (of_char (digit d) :: nat) = 48 + d"
  by (simp add: digit_def)

lemma is_digit_digit: "d < 10 \<Longrightarrow> is_digit (digit d)"
  by (simp add: is_digit_def of_char_digit)

lemma radix10_digits: "list_all is_digit (radix 10 n)"
proof (induction "10 :: nat" n rule: radix.induct)
  case (1 n)
  then show ?case
    by (subst radix.simps) (auto simp: is_digit_digit)
qed

lemma read_radix10: "read_dec 0 (radix 10 n) = n"
proof (induction "10 :: nat" n rule: radix.induct)
  case (1 n)
  show ?case
  proof (cases "n < 10")
    case True
    then show ?thesis by (subst radix.simps) (simp add: of_char_digit)
  next
    case False
    with 1 have "read_dec 0 (radix 10 (n div 10)) = n div 10" by simp
    with False show ?thesis
      by (subst radix.simps) (simp add: read_dec_append of_char_digit)
  qed
qed

lemma dec_inject: "dec m = dec n \<Longrightarrow> m = n"
  unfolding dec_def by (metis read_radix10)

section \<open>Calls that return an error number\<close>

text \<open>
  Most functions of the program return 0 or an error number and change a state.  Such a
  call has the type \<open>'s act\<close>; \<open>None\<close> is a call with no defined behaviour (a NULL or
  dangling pointer is dereferenced).  \<open>andthen\<close> is the C text
  \<open>if ((err = f ())) return err;\<close> followed by the rest of the function, \<open>each_act\<close> a loop
  that returns the first error, \<open>each_ignore\<close> a loop that ignores the results.
\<close>

type_synonym 's act = "'s \<Rightarrow> (int \<times> 's) option"

definition ok_act :: "'s act" where
  "ok_act s = Some (0, s)"

definition andthen :: "'s act \<Rightarrow> 's act \<Rightarrow> 's act" where
  "andthen f g s = (case f s of None \<Rightarrow> None | Some (e, s) \<Rightarrow> if e \<noteq> 0 then Some (e, s) else g s)"

fun each_act :: "('a \<Rightarrow> 's act) \<Rightarrow> 'a list \<Rightarrow> 's act" where
  "each_act f [] = ok_act"
| "each_act f (x # xs) = andthen (f x) (each_act f xs)"

fun each_ignore :: "('a \<Rightarrow> 's act) \<Rightarrow> 'a list \<Rightarrow> 's \<Rightarrow> 's option" where
  "each_ignore f [] s = Some s"
| "each_ignore f (x # xs) s = (case f x s of None \<Rightarrow> None | Some (_, s) \<Rightarrow> each_ignore f xs s)"

text \<open>
  Further shapes of C code: a call whose result is ignored, an assignment, an early return,
  a conditional, and code that reads the state.
\<close>

definition ignoring :: "'s act \<Rightarrow> 's act \<Rightarrow> 's act" where
  "ignoring f g s = (case f s of None \<Rightarrow> None | Some (_, s) \<Rightarrow> g s)"

definition assign :: "('s \<Rightarrow> 's) \<Rightarrow> 's act" where
  "assign f s = Some (0, f s)"

definition return_err :: "int \<Rightarrow> 's act" where
  "return_err e s = Some (e, s)"

definition crash :: "'s act" where
  "crash s = None"

definition branch :: "('s \<Rightarrow> bool) \<Rightarrow> 's act \<Rightarrow> 's act \<Rightarrow> 's act" where
  "branch c f g s = (if c s then f s else g s)"

definition reading :: "('s \<Rightarrow> 's act) \<Rightarrow> 's act" where
  "reading f s = f s s"

lemmas act_defs = ok_act_def andthen_def ignoring_def assign_def return_err_def crash_def branch_def reading_def

text \<open>\<open>keeps P f\<close>: wherever \<open>f\<close> returns, with or without an error, it keeps \<open>P\<close>.\<close>

definition keeps :: "('s \<Rightarrow> bool) \<Rightarrow> 's act \<Rightarrow> bool" where
  "keeps P f \<longleftrightarrow> (\<forall>s e s'. P s \<longrightarrow> f s = Some (e, s') \<longrightarrow> P s')"

named_theorems keeps_intros

lemma keepsI: "(\<And>s e s'. P s \<Longrightarrow> f s = Some (e, s') \<Longrightarrow> P s') \<Longrightarrow> keeps P f"
  by (auto simp: keeps_def)

lemma keepsD: "keeps P f \<Longrightarrow> P s \<Longrightarrow> f s = Some (e, s') \<Longrightarrow> P s'"
  by (auto simp: keeps_def)

lemma keeps_ok [keeps_intros]: "keeps P ok_act"
  by (auto simp: keeps_def ok_act_def)

lemma keeps_andthen [keeps_intros]: "keeps P f \<Longrightarrow> keeps P g \<Longrightarrow> keeps P (andthen f g)"
proof (rule keepsI)
  fix s e s'
  assume f: "keeps P f" and g: "keeps P g" and s: "P s" and r: "andthen f g s = Some (e, s')"
  from r obtain e1 s1 where f1: "f s = Some (e1, s1)" by (auto simp: andthen_def split: option.splits)
  from keepsD [OF f s f1] have "P s1" .
  with r f1 keepsD [OF g this] show "P s'" by (cases "e1 = 0") (auto simp: andthen_def)
qed

lemma keeps_ignoring [keeps_intros]: "keeps P f \<Longrightarrow> keeps P g \<Longrightarrow> keeps P (ignoring f g)"
proof (rule keepsI)
  fix s e s'
  assume f: "keeps P f" and g: "keeps P g" and s: "P s" and r: "ignoring f g s = Some (e, s')"
  from r obtain e1 s1 where f1: "f s = Some (e1, s1)" by (auto simp: ignoring_def split: option.splits)
  from keepsD [OF f s f1] have "P s1" .
  from g this show "P s'" by (rule keepsD) (use r f1 in \<open>simp add: ignoring_def\<close>)
qed

lemma keeps_assign: "(\<And>s. P s \<Longrightarrow> P (f s)) \<Longrightarrow> keeps P (assign f)"
  by (rule keepsI) (auto simp: assign_def)

lemma keeps_return_err [keeps_intros]: "keeps P (return_err e)"
  by (rule keepsI) (simp add: return_err_def)

lemma keeps_crash [keeps_intros]: "keeps P crash"
  by (rule keepsI) (simp add: crash_def)

lemma keeps_branch [keeps_intros]: "keeps P f \<Longrightarrow> keeps P g \<Longrightarrow> keeps P (branch c f g)"
  by (rule keepsI) (auto simp: branch_def dest: keepsD split: if_splits)

lemma keeps_reading: "(\<And>s. keeps P (f s)) \<Longrightarrow> keeps P (reading f)"
proof (rule keepsI)
  fix s e s'
  assume k: "\<And>s. keeps P (f s)" and s: "P s" and r: "reading f s = Some (e, s')"
  from k s show "P s'" by (rule keepsD) (use r in \<open>simp add: reading_def\<close>)
qed

lemma keeps_reading_in:
  assumes "\<And>s. P s \<Longrightarrow> keeps P (f s)"
  shows "keeps P (reading f)"
proof (rule keepsI)
  fix s e s'
  assume s: "P s" and r: "reading f s = Some (e, s')"
  from assms [OF s] s show "P s'" by (rule keepsD) (use r in \<open>simp add: reading_def\<close>)
qed

lemma keeps_if [keeps_intros]: "keeps P f \<Longrightarrow> keeps P g \<Longrightarrow> keeps P (if c then f else g)"
  by simp

lemma keeps_option [keeps_intros]: "keeps P f \<Longrightarrow> (\<And>x. keeps P (g x)) \<Longrightarrow> keeps P (case v of None \<Rightarrow> f | Some x \<Rightarrow> g x)"
  by (cases v) auto

lemma keeps_each [keeps_intros]: "(\<And>x. x \<in> set xs \<Longrightarrow> keeps P (f x)) \<Longrightarrow> keeps P (each_act f xs)"
  by (induction xs) (auto intro: keeps_ok keeps_andthen)

text \<open>\<open>keeps0 P f\<close>: where \<open>f\<close> returns 0 it keeps \<open>P\<close>.\<close>

definition keeps0 :: "('s \<Rightarrow> bool) \<Rightarrow> 's act \<Rightarrow> bool" where
  "keeps0 P f \<longleftrightarrow> (\<forall>s s'. P s \<longrightarrow> f s = Some (0, s') \<longrightarrow> P s')"

named_theorems keeps0_intros

lemma keeps0I: "(\<And>s s'. P s \<Longrightarrow> f s = Some (0, s') \<Longrightarrow> P s') \<Longrightarrow> keeps0 P f"
  by (auto simp: keeps0_def)

lemma keeps0D: "keeps0 P f \<Longrightarrow> P s \<Longrightarrow> f s = Some (0, s') \<Longrightarrow> P s'"
  by (auto simp: keeps0_def)

lemma keeps_keeps0: "keeps P f \<Longrightarrow> keeps0 P f"
  by (rule keeps0I) (rule keepsD)

lemma andthen_0: "andthen f g s = Some (0, s') \<longleftrightarrow> (\<exists>t. f s = Some (0, t) \<and> g t = Some (0, s'))"
  by (auto simp: andthen_def split: option.splits)

lemma keeps0_andthen [keeps0_intros]: "keeps0 P f \<Longrightarrow> keeps0 P g \<Longrightarrow> keeps0 P (andthen f g)"
  by (rule keeps0I) (auto simp: andthen_0 dest: keeps0D)

lemma keeps0_option [keeps0_intros]: "keeps0 P f \<Longrightarrow> (\<And>x. keeps0 P (g x)) \<Longrightarrow> keeps0 P (case v of None \<Rightarrow> f | Some x \<Rightarrow> g x)"
  by (cases v) auto

lemma keeps0_fails [keeps0_intros]: "err \<noteq> 0 \<Longrightarrow> keeps0 P (return_err err)"
  by (rule keeps0I) (simp add: return_err_def)

text \<open>\<open>makes0 P f\<close>: where \<open>f\<close> returns 0, \<open>P\<close> holds.\<close>

definition makes0 :: "('s \<Rightarrow> bool) \<Rightarrow> 's act \<Rightarrow> bool" where
  "makes0 P f \<longleftrightarrow> (\<forall>s s'. f s = Some (0, s') \<longrightarrow> P s')"

lemma makes0D: "makes0 P f \<Longrightarrow> f s = Some (0, s') \<Longrightarrow> P s'"
  by (auto simp: makes0_def)

lemma makes0_now: "makes0 P f \<Longrightarrow> keeps0 P g \<Longrightarrow> makes0 P (andthen f g)"
  unfolding makes0_def andthen_0 by (auto dest: keeps0D)

lemma makes0_later: "makes0 P g \<Longrightarrow> makes0 P (andthen f g)"
  unfolding makes0_def andthen_0 by auto

lemma each_ignore_keeps:
  "(\<And>x. x \<in> set xs \<Longrightarrow> keeps P (f x)) \<Longrightarrow> P s \<Longrightarrow> each_ignore f xs s = Some s' \<Longrightarrow> P s'"
proof (induction xs arbitrary: s)
  case (Cons x xs)
  from Cons.prems(3) obtain e s1 where f: "f x s = Some (e, s1)" "each_ignore f xs s1 = Some s'"
    by (auto split: option.splits)
  have "P s1" by (rule keepsD [OF Cons.prems(1) Cons.prems(2) f(1)]) simp
  with Cons.IH [OF Cons.prems(1) this f(2)] show ?case by simp
qed simp

lemma each_act_append: "each_act f (xs @ ys) = andthen (each_act f xs) (each_act f ys)"
  by (induction xs) (auto simp: andthen_def ok_act_def fun_eq_iff split: option.splits)

section \<open>Allocation\<close>

text \<open>
  The outcomes of the allocations (\<open>malloc\<close>, \<open>calloc\<close>, \<open>realloc\<close>, \<open>strdup\<close>,
  \<open>asprintf\<close>) to come: \<open>False\<close> is a failure; when the list is used up every further
  allocation succeeds.
\<close>

type_synonym mem = "bool list"

fun alloc :: "mem \<Rightarrow> bool \<times> mem" where
  "alloc [] = (True, [])"
| "alloc (b # m) = (b, m)"

text \<open>
  A C pointer to data: NULL, a pointer that must not be read (freed or never initialised
  memory), or a pointer to a live object.
\<close>

datatype 'a cptr = NullPtr | BadPtr | Ptr 'a

fun deref :: "'a cptr \<Rightarrow> 'a option" where
  "deref (Ptr x) = Some x"
| "deref _ = None"

text \<open>\<open>free\<close>: freeing NULL does nothing, freeing a dangling pointer has no defined behaviour.\<close>

fun free_ptr :: "'a cptr \<Rightarrow> 'a cptr option" where
  "free_ptr NullPtr = Some NullPtr"
| "free_ptr BadPtr = None"
| "free_ptr (Ptr x) = Some BadPtr"

section \<open>Lists\<close>

lemma remove1_append_notin: "x \<notin> set xs \<Longrightarrow> remove1 x (xs @ x # ys) = xs @ ys"
  by (simp add: remove1_append)

lemma filter_eq_Nil_iff: "filter P xs = [] \<longleftrightarrow> (\<forall>x \<in> set xs. \<not> P x)"
  by (simp add: filter_empty_conv)

lemma find_Some_in: "find P xs = Some x \<Longrightarrow> x \<in> set xs \<and> P x"
  by (auto simp: find_Some_iff in_set_conv_nth)

end
