(* ===== verification/Nlmsg.thy ===== *)
theory Nlmsg
  imports Prelude
begin

unbundle bit_operations_syntax

text \<open>
  Netlink messages of \<open>netlink.c\<close> and \<open>netlink.h\<close>: growing buffers, building messages
  and attributes, and walking the attributes of a received message.  A message is the bytes
  of its buffer up to \<open>len\<close>, its read position and its allocated size.  Multi-byte fields
  are in the byte order of a little-endian host.  An attribute is its type and its payload
  (\<open>nla_len - 4\<close> bytes); reading a fixed-size value from a payload that is too short
  reads zero bytes in the model.
\<close>

section \<open>Byte order\<close>

fun le_nat :: "bytes \<Rightarrow> nat" where
  "le_nat [] = 0"
| "le_nat (b # bs) = unat b + 256 * le_nat bs"

fun le_bytes :: "nat \<Rightarrow> nat \<Rightarrow> bytes" where
  "le_bytes 0 n = []"
| "le_bytes (Suc k) n = word_of_nat (n mod 256) # le_bytes k (n div 256)"

lemma length_le_bytes [simp]: "length (le_bytes k n) = k"
  by (induction k arbitrary: n) auto

lemma le_nat_le_bytes: "le_nat (le_bytes k n) = n mod 256 ^ k"
proof (induction k arbitrary: n)
  case (Suc k)
  have "unat (word_of_nat (n mod 256) :: u8) = n mod 256"
    by (simp add: unat_of_nat)
  with Suc show ?case by (simp add: mod_mult2_eq)
qed simp

lemma le_nat_bound: "le_nat bs < 256 ^ length bs"
proof (induction bs)
  case (Cons b bs)
  have "unat b < 256" using unsigned_less [of b] by simp
  with Cons show ?case by simp
qed simp

lemma le_bytes_le_nat: "le_bytes (length bs) (le_nat bs) = bs"
proof (induction bs)
  case (Cons b bs)
  have "unat b < 256" using unsigned_less [of b] by simp
  with Cons show ?case by simp
qed simp

lemma le_nat_append: "le_nat (xs @ ys) = le_nat xs + 256 ^ length xs * le_nat ys"
  by (induction xs) (auto simp: algebra_simps)

definition rd_u16 :: "bytes \<Rightarrow> nat" where
  "rd_u16 bs = le_nat (take 2 bs)"

definition rd_u32 :: "bytes \<Rightarrow> u32" where
  "rd_u32 bs = word_of_nat (le_nat (take 4 bs))"

text \<open>\<open>ntohs\<close> and \<open>ntohl\<close>: the bytes of the value reversed.\<close>

definition ntohs :: "u16 \<Rightarrow> u16" where
  "ntohs x = word_of_nat (le_nat (rev (le_bytes 2 (unat x))))"

definition ntohl :: "u32 \<Rightarrow> u32" where
  "ntohl x = word_of_nat (le_nat (rev (le_bytes 4 (unat x))))"

section \<open>Messages\<close>

record nlmsg =
  m_data :: bytes
  m_start :: nat
  m_alloc :: u32

definition NLMSG_BASIC_SIZE :: u32 where "NLMSG_BASIC_SIZE = 16384"
definition NLM_F_REQUEST :: nat where "NLM_F_REQUEST = 1"
definition NLM_F_DUMP_INTR :: nat where "NLM_F_DUMP_INTR = 16"
definition NLM_F_DUMP :: nat where "NLM_F_DUMP = 768"
definition NLMSG_ERROR :: nat where "NLMSG_ERROR = 2"
definition NLMSG_DONE :: nat where "NLMSG_DONE = 3"

text \<open>\<open>NLMSG_ALIGN\<close>.\<close>

definition align4 :: "nat \<Rightarrow> nat" where
  "align4 n = (n + 3) div 4 * 4"

lemma align4_ge: "n \<le> align4 n"
  unfolding align4_def by linarith

lemma align4_less: "align4 n < n + 4"
  unfolding align4_def by linarith

lemma align4_mod: "align4 n mod 4 = 0"
  by (simp add: align4_def)

lemma align4_add: "a mod 4 = 0 \<Longrightarrow> align4 (a + n) = a + align4 n"
proof -
  assume "a mod 4 = 0"
  then obtain k where "a = 4 * k" by (auto simp: mod_eq_0_iff_dvd elim!: dvdE)
  then show ?thesis using div_mult_self2 [of 4 "n + 3" k] by (simp add: align4_def algebra_simps)
qed

lemma align4_id: "n mod 4 = 0 \<Longrightarrow> align4 n = n"
  using align4_add [of n 0] by (simp add: align4_def)

text \<open>The header of a message: length, type, flags, sequence number and sender.\<close>

definition hdr_len :: "bytes \<Rightarrow> nat" where "hdr_len d = le_nat (take 4 d)"
definition hdr_type :: "bytes \<Rightarrow> nat" where "hdr_type d = rd_u16 (drop 4 d)"
definition hdr_flags :: "bytes \<Rightarrow> nat" where "hdr_flags d = rd_u16 (drop 6 d)"
definition hdr_seq :: "bytes \<Rightarrow> u32" where "hdr_seq d = rd_u32 (drop 8 d)"
definition hdr_pid :: "bytes \<Rightarrow> u32" where "hdr_pid d = rd_u32 (drop 12 d)"

definition nlmsghdr :: "nat \<Rightarrow> nat \<Rightarrow> bytes" where
  "nlmsghdr type flags = le_bytes 4 0 @ le_bytes 2 type @ le_bytes 2 flags @ le_bytes 4 0 @ le_bytes 4 0"

lemma length_nlmsghdr [simp]: "length (nlmsghdr t f) = 16"
  by (simp add: nlmsghdr_def)

definition nlmsg_alloc :: "u32 \<Rightarrow> mem \<Rightarrow> nlmsg option \<times> mem" where
  "nlmsg_alloc sz m =
     (let (ok, m) = alloc m in
      if \<not> ok then (None, m)
      else let (ok, m) = alloc m in
        if \<not> ok then (None, m)
        else (Some \<lparr>m_data = [], m_start = 0, m_alloc = sz\<rparr>, m))"

text \<open>
  The doubling loop of \<open>nlmsg_realloc\<close> on \<open>unsigned int\<close>; \<open>None\<close> is a loop that does not
  end.
\<close>

partial_function (option) grow :: "u32 \<Rightarrow> u32 \<Rightarrow> u32 option" where
  "grow new_alloc min_len = (if new_alloc < min_len then grow (new_alloc * 2) min_len else Some new_alloc)"

definition nlmsg_realloc :: "nlmsg \<Rightarrow> u32 \<Rightarrow> mem \<Rightarrow> (int \<times> nlmsg \<times> mem) option" where
  "nlmsg_realloc msg min_len m =
     (if m_alloc msg \<ge> min_len then Some (0, msg, m)
      else do {
        new_alloc \<leftarrow> grow (m_alloc msg) min_len;
        let (ok, m) = alloc m;
        if \<not> ok then Some (ENOMEM, msg, m) else Some (0, msg\<lparr>m_alloc := new_alloc\<rparr>, m) })"

definition nlmsg_put_raw :: "nlmsg \<Rightarrow> bytes \<Rightarrow> nat \<Rightarrow> mem \<Rightarrow> (int \<times> nlmsg \<times> mem) option" where
  "nlmsg_put_raw msg data padding m = do {
     let len = length (m_data msg);
     let new_len = align4 len + length data + padding;
     (err, msg, m) \<leftarrow> nlmsg_realloc msg (word_of_nat new_len) m;
     if err \<noteq> 0 then Some (err, msg, m)
     else Some (0, msg\<lparr>m_data := m_data msg @ replicate (align4 len - len) 0 @ data @ replicate padding 0\<rparr>, m) }"

text \<open>\<open>nlmsg_get_hdr(msg)->nlmsg_len = msg->len\<close>.\<close>

definition set_hdr_len :: "nlmsg \<Rightarrow> nlmsg" where
  "set_hdr_len msg = msg\<lparr>m_data := le_bytes 4 (length (m_data msg)) @ drop 4 (m_data msg)\<rparr>"

definition nlmsg_put :: "nlmsg \<Rightarrow> bytes \<Rightarrow> mem \<Rightarrow> (int \<times> nlmsg \<times> mem) option" where
  "nlmsg_put msg data m = do {
     (err, msg, m) \<leftarrow> nlmsg_put_raw msg data 0 m;
     if err \<noteq> 0 then Some (err, msg, m) else Some (0, set_hdr_len msg, m) }"

definition nlmsg_put_padded :: "nlmsg \<Rightarrow> bytes \<Rightarrow> nat \<Rightarrow> mem \<Rightarrow> (int \<times> nlmsg \<times> mem) option" where
  "nlmsg_put_padded msg data sz m = do {
     (err, msg, m) \<leftarrow> nlmsg_put_raw msg data (sz - length data) m;
     if err \<noteq> 0 then Some (err, msg, m) else Some (0, set_hdr_len msg, m) }"

text \<open>\<open>nlmsg_get\<close> returns the bytes from the read position, or NULL when too few are left.\<close>

definition nlmsg_get :: "nlmsg \<Rightarrow> nat \<Rightarrow> bytes option \<times> nlmsg" where
  "nlmsg_get msg len =
     (if int (length (m_data msg)) - int (m_start msg) < int len then (None, msg)
      else (Some (drop (m_start msg) (m_data msg)), msg\<lparr>m_start := m_start msg + align4 len\<rparr>))"

text \<open>\<open>nlmsg_unget\<close>; \<open>None\<close> is the failed assertion.\<close>

definition nlmsg_unget :: "nlmsg \<Rightarrow> nat \<Rightarrow> nlmsg option" where
  "nlmsg_unget msg len =
     (if m_start msg \<ge> align4 len then Some (msg\<lparr>m_start := m_start msg - align4 len\<rparr>) else None)"

definition nlmsg_new :: "nat \<Rightarrow> nat \<Rightarrow> mem \<Rightarrow> (nlmsg option \<times> mem) option" where
  "nlmsg_new type flags m = do {
     let hdr = nlmsghdr type (flags OR NLM_F_REQUEST);
     case nlmsg_alloc NLMSG_BASIC_SIZE m of
       (None, m) \<Rightarrow> Some (None, m)
     | (Some msg, m) \<Rightarrow> do {
         (err, msg, m) \<leftarrow> nlmsg_put msg hdr m;
         if err \<noteq> 0 then Some (None, m) else Some (Some msg, m) } }"

definition nlmsg_reset_start :: "nlmsg \<Rightarrow> nlmsg" where
  "nlmsg_reset_start msg = msg\<lparr>m_start := align4 16\<rparr>"

section \<open>Attributes\<close>

record nlattr =
  a_type :: nat
  a_data :: bytes

text \<open>\<open>nla_len\<close> of \<open>netlink.h\<close> is the length of the payload.\<close>

definition nla_len :: "nlattr \<Rightarrow> nat" where
  "nla_len a = length (a_data a)"

definition nla_read :: "nlattr \<Rightarrow> bytes" where
  "nla_read a = a_data a"

definition nla_read_u8 :: "nlattr \<Rightarrow> u8" where
  "nla_read_u8 a = word_of_nat (le_nat (take 1 (a_data a)))"

definition nla_read_u16 :: "nlattr \<Rightarrow> u16" where
  "nla_read_u16 a = word_of_nat (le_nat (take 2 (a_data a)))"

definition nla_read_u32 :: "nlattr \<Rightarrow> u32" where
  "nla_read_u32 a = word_of_nat (le_nat (take 4 (a_data a)))"

definition nla_read_be16 :: "nlattr \<Rightarrow> u16" where
  "nla_read_be16 a = ntohs (word_of_nat (le_nat (take 2 (a_data a))))"

definition nla_read_be32 :: "nlattr \<Rightarrow> u32" where
  "nla_read_be32 a = ntohl (word_of_nat (le_nat (take 4 (a_data a))))"

text \<open>The \<open>ntohll\<close> macro on a little-endian host, on the two halves as the code swaps them.\<close>

definition ntohll :: "u64 \<Rightarrow> u64" where
  "ntohll x = push_bit 32 (ucast (ntohl (ucast (x AND 0xFFFFFFFF)))) OR ucast (ntohl (ucast (drop_bit 32 x)))"

definition nla_read_be64 :: "nlattr \<Rightarrow> u64" where
  "nla_read_be64 a = ntohll (word_of_nat (le_nat (take 8 (a_data a))))"

definition nla_read_s32 :: "nlattr \<Rightarrow> int" where
  "nla_read_s32 a = sint (nla_read_u32 a)"

definition cstr :: "bytes \<Rightarrow> string" where
  "cstr bs = map (char_of \<circ> unat) (takeWhile (\<lambda>b. b \<noteq> 0) bs)"

definition nla_read_str :: "nlattr \<Rightarrow> string" where
  "nla_read_str a = cstr (a_data a)"

text \<open>
  The loop \<open>for_each_nla_buf\<close> over the bytes left in the buffer: it goes on while an
  attribute header fits and its length is at least the header and at most what is left.
\<close>

function for_each_nla_buf :: "bytes \<Rightarrow> nlattr list" where
  "for_each_nla_buf bs =
     (if length bs \<ge> 4 \<and> rd_u16 bs \<ge> 4 \<and> rd_u16 bs \<le> length bs
      then \<lparr>a_type = rd_u16 (drop 2 bs), a_data = take (rd_u16 bs - 4) (drop 4 bs)\<rparr>
           # for_each_nla_buf (drop (align4 (rd_u16 bs)) bs)
      else [])"
  by pat_completeness auto
termination
proof (relation "measure length")
  fix bs :: bytes
  assume a: "4 \<le> length bs \<and> 4 \<le> rd_u16 bs \<and> rd_u16 bs \<le> length bs"
  then have "0 < align4 (rd_u16 bs)" using align4_ge [of "rd_u16 bs"] by linarith
  with a show "(drop (align4 (rd_u16 bs)) bs, bs) \<in> measure length" by auto
qed simp

declare for_each_nla_buf.simps [simp del]

definition for_each_nla :: "nlmsg \<Rightarrow> nlattr list" where
  "for_each_nla msg = for_each_nla_buf (drop (m_start msg) (m_data msg))"

definition for_each_nla_nested :: "nlattr \<Rightarrow> nlattr list" where
  "for_each_nla_nested a = for_each_nla_buf (nla_read a)"

text \<open>The attribute table \<open>tb\<close>: per type up to \<open>max\<close> the last attribute of that type.\<close>

type_synonym attrs = "nat \<Rightarrow> nlattr option"

definition attr_table :: "nat \<Rightarrow> nlattr list \<Rightarrow> attrs" where
  "attr_table mx as = foldl (\<lambda>tb a. if a_type a \<le> mx then tb(a_type a \<mapsto> a) else tb) Map.empty as"

definition nlmsg_attrs :: "nlmsg \<Rightarrow> nat \<Rightarrow> mem \<Rightarrow> attrs option \<times> mem" where
  "nlmsg_attrs msg mx m =
     (let (ok, m) = alloc m in if ok then (Some (attr_table mx (for_each_nla msg)), m) else (None, m))"

definition nla_nested_attrs :: "nlattr \<Rightarrow> nat \<Rightarrow> mem \<Rightarrow> attrs option \<times> mem" where
  "nla_nested_attrs a mx m =
     (let (ok, m) = alloc m in if ok then (Some (attr_table mx (for_each_nla_nested a)), m) else (None, m))"

definition nla_put :: "nlmsg \<Rightarrow> nat \<Rightarrow> bytes \<Rightarrow> mem \<Rightarrow> (int \<times> nlmsg \<times> mem) option" where
  "nla_put msg type data m = do {
     (err, msg, m) \<leftarrow> nlmsg_put msg (le_bytes 2 (length data + 4) @ le_bytes 2 type) m;
     if err \<noteq> 0 then Some (ENOMEM, msg, m)
     else do {
       (err, msg, m) \<leftarrow> nlmsg_put msg data m;
       if err \<noteq> 0 then Some (ENOMEM, msg, m) else Some (0, msg, m) } }"

definition nla_put_u8 :: "nlmsg \<Rightarrow> nat \<Rightarrow> u8 \<Rightarrow> mem \<Rightarrow> (int \<times> nlmsg \<times> mem) option" where
  "nla_put_u8 msg type v = nla_put msg type (le_bytes 1 (unat v))"

definition nla_put_u16 :: "nlmsg \<Rightarrow> nat \<Rightarrow> u16 \<Rightarrow> mem \<Rightarrow> (int \<times> nlmsg \<times> mem) option" where
  "nla_put_u16 msg type v = nla_put msg type (le_bytes 2 (unat v))"

definition nla_put_u32 :: "nlmsg \<Rightarrow> nat \<Rightarrow> u32 \<Rightarrow> mem \<Rightarrow> (int \<times> nlmsg \<times> mem) option" where
  "nla_put_u32 msg type v = nla_put msg type (le_bytes 4 (unat v))"

definition nla_put_s32 :: "nlmsg \<Rightarrow> nat \<Rightarrow> int \<Rightarrow> mem \<Rightarrow> (int \<times> nlmsg \<times> mem) option" where
  "nla_put_s32 msg type v = nla_put msg type (le_bytes 4 (unat (word_of_int v :: u32)))"

definition c_bytes :: "string \<Rightarrow> bytes" where
  "c_bytes s = map (word_of_nat \<circ> of_char) s @ [0]"

definition nla_put_str :: "nlmsg \<Rightarrow> nat \<Rightarrow> string \<Rightarrow> mem \<Rightarrow> (int \<times> nlmsg \<times> mem) option" where
  "nla_put_str msg type s = nla_put msg type (c_bytes s)"

section \<open>Growing the buffer\<close>

lemma unat_double: "unat (a :: u32) < 2 ^ 31 \<Longrightarrow> unat (a * 2) = 2 * unat a"
  by (simp add: unat_word_ariths)

lemma grow_step: "a < m \<Longrightarrow> grow a m = grow (a * 2) m"
  by (subst grow.simps) simp

lemma grow_done: "\<not> a < m \<Longrightarrow> grow a m = Some a"
  by (subst grow.simps) simp

lemma grow_returns:
  assumes "0 < unat a" and "unat m \<le> 2 ^ 31"
  shows "\<exists>r. grow a m = Some r \<and> m \<le> r \<and> (a < m \<longrightarrow> unat r < 2 * unat m)"
  using assms
proof (induction "unat m - unat a" arbitrary: a rule: less_induct)
  case less
  show ?case
  proof (cases "a < m")
    case True
    then have lt: "unat a < unat m" by (simp add: word_less_nat_alt)
    with less.prems have d: "unat (a * 2) = 2 * unat a" by (intro unat_double) simp
    have "unat m - unat (a * 2) < unat m - unat a" "0 < unat (a * 2)" using d lt less.prems by linarith+
    from less.hyps [OF this less.prems(2)] obtain r where
      r: "grow (a * 2) m = Some r" "m \<le> r" "a * 2 < m \<longrightarrow> unat r < 2 * unat m" by blast
    have "unat r < 2 * unat m"
    proof (cases "a * 2 < m")
      case False
      with r(1) have "r = a * 2" by (simp add: grow_done)
      with d lt show ?thesis by simp
    qed (use r in simp)
    with r True show ?thesis by (simp add: grow_step)
  qed (use less.prems in \<open>auto simp: grow_done\<close>)
qed

lemma double_powers:
  assumes "a = 0 \<or> (\<exists>k < 32. a = (2 :: u32) ^ k)"
  shows "a * 2 = 0 \<or> (\<exists>k < 32. a * 2 = (2 :: u32) ^ k)"
proof (cases "a = 0")
  case False
  with assms obtain k where k: "k < 32" "a = 2 ^ k" by blast
  show ?thesis
  proof (cases "Suc k < 32")
    case True
    with k show ?thesis by (metis power_Suc2)
  next
    case False
    with k have "k = 31" by simp
    with k show ?thesis by simp
  qed
qed simp

text \<open>From a power of two, no result is ever reached when more than half the range is asked for.\<close>

lemma power_le_half: "k < 32 \<Longrightarrow> unat ((2 :: u32) ^ k) \<le> 2 ^ 31"
proof -
  assume k: "k < 32"
  have "(2 :: u32) ^ k = word_of_nat (2 ^ k)" by simp
  then have "unat ((2 :: u32) ^ k) = 2 ^ k mod 2 ^ 32" by (simp only: unat_of_nat) simp
  also have "\<dots> \<le> 2 ^ k" by simp
  also have "(2 :: nat) ^ k \<le> 2 ^ 31" using k by (intro power_increasing) auto
  finally show ?thesis .
qed

lemma grow_never:
  assumes "grow a m = Some r"
  shows "2 ^ 31 < unat m \<longrightarrow> \<not> (a = 0 \<or> (\<exists>k < 32. a = (2 :: u32) ^ k))"
proof (rule grow.raw_induct [OF _ assms])
  fix f :: "u32 \<Rightarrow> u32 \<Rightarrow> u32 option" and a m r :: u32
  assume IH: "\<And>a m r. f a m = Some r \<Longrightarrow> 2 ^ 31 < unat m \<longrightarrow> \<not> (a = 0 \<or> (\<exists>k < 32. a = (2 :: u32) ^ k))"
    and r: "(if a < m then f (a * 2) m else Some a) = Some r"
  show "2 ^ 31 < unat m \<longrightarrow> \<not> (a = 0 \<or> (\<exists>k < 32. a = (2 :: u32) ^ k))"
  proof (intro impI notI)
    assume m: "2 ^ 31 < unat m" and a: "a = 0 \<or> (\<exists>k < 32. a = (2 :: u32) ^ k)"
    then have "unat a \<le> 2 ^ 31" using power_le_half by auto
    with m have "a < m" by (simp add: word_less_nat_alt)
    with r IH [of "a * 2" m r] m double_powers [OF a] show False by simp
  qed
qed

section \<open>Reading attributes\<close>

lemma rd_u16_bound: "rd_u16 bs < 65536"
proof -
  have "le_nat (take 2 bs) < 256 ^ length (take 2 bs)" by (rule le_nat_bound)
  also have "(256 :: nat) ^ length (take 2 bs) \<le> 256 ^ 2" by (intro power_increasing) auto
  finally show ?thesis by (simp add: rd_u16_def)
qed

lemma rd_u16_le_bytes: "rd_u16 (le_bytes 2 n @ bs) = n mod 65536"
  by (simp add: rd_u16_def le_nat_le_bytes)

text \<open>Every attribute the loop visits is a slice of the bytes it was given.\<close>

definition attr_at :: "bytes \<Rightarrow> nat \<Rightarrow> nlattr \<Rightarrow> bool" where
  "attr_at bs off a \<longleftrightarrow> off + 4 + length (a_data a) \<le> length bs \<and>
     a_data a = take (length (a_data a)) (drop (off + 4) bs) \<and> a_type a = rd_u16 (drop (off + 2) bs) \<and>
     rd_u16 (drop off bs) = length (a_data a) + 4"

lemma for_each_nla_buf_slices:
  "a \<in> set (for_each_nla_buf bs) \<Longrightarrow> \<exists>off. attr_at bs off a"
proof (induction bs rule: for_each_nla_buf.induct)
  case (1 bs)
  let ?l = "rd_u16 bs"
  show ?case
  proof (cases "4 \<le> length bs \<and> 4 \<le> ?l \<and> ?l \<le> length bs")
    case True
    with "1.prems" have "a = \<lparr>a_type = rd_u16 (drop 2 bs), a_data = take (?l - 4) (drop 4 bs)\<rparr> \<or>
        a \<in> set (for_each_nla_buf (drop (align4 ?l) bs))"
      by (subst (asm) for_each_nla_buf.simps) simp
    then show ?thesis
    proof
      assume "a = \<lparr>a_type = rd_u16 (drop 2 bs), a_data = take (?l - 4) (drop 4 bs)\<rparr>"
      with True have "attr_at bs 0 a" by (auto simp: attr_at_def min_def numeral_2_eq_2)
      then show ?thesis ..
    next
      assume "a \<in> set (for_each_nla_buf (drop (align4 ?l) bs))"
      with "1.IH" [OF True] obtain off where off: "attr_at (drop (align4 ?l) bs) off a" by blast
      then have "attr_at bs (align4 ?l + off) a"
        by (simp add: attr_at_def add_ac) linarith
      then show ?thesis ..
    qed
  next
    case False
    with "1.prems" show ?thesis by (subst (asm) for_each_nla_buf.simps) auto
  qed
qed

lemma attr_table_find: "attr_table mx as t = (if t \<le> mx then find (\<lambda>a. a_type a = t) (rev as) else None)"
  unfolding attr_table_def
  by (induction as rule: rev_induct) auto

text \<open>The bytes of one attribute, and of a sequence of attributes as \<open>nla_put\<close> lays them out.\<close>

definition attr_bytes :: "nlattr \<Rightarrow> bytes" where
  "attr_bytes a = le_bytes 2 (length (a_data a) + 4) @ le_bytes 2 (a_type a) @ a_data a"

definition pad4 :: "bytes \<Rightarrow> bytes" where
  "pad4 bs = bs @ replicate (align4 (length bs) - length bs) 0"

definition attr_wf :: "nlattr \<Rightarrow> bool" where
  "attr_wf a \<longleftrightarrow> length (a_data a) + 4 < 65536 \<and> a_type a < 65536"

fun attrs_bytes :: "nlattr list \<Rightarrow> bytes" where
  "attrs_bytes [] = []"
| "attrs_bytes [a] = attr_bytes a"
| "attrs_bytes (a # as) = pad4 (attr_bytes a) @ attrs_bytes as"

lemma length_attr_bytes [simp]: "length (attr_bytes a) = length (a_data a) + 4"
  by (simp add: attr_bytes_def)

lemma length_pad4 [simp]: "length (pad4 bs) = align4 (length bs)"
  using align4_ge [of "length bs"] by (simp add: pad4_def)

lemma walk_attr:
  assumes "attr_wf a"
  shows "for_each_nla_buf (attr_bytes a @ zs) = a # for_each_nla_buf (drop (align4 (length (attr_bytes a))) (attr_bytes a @ zs))"
proof -
  obtain bs where bs: "bs = attr_bytes a @ zs" by blast
  have l: "rd_u16 bs = length (a_data a) + 4"
    using assms rd_u16_le_bytes [of "length (a_data a) + 4"] by (simp add: attr_bytes_def attr_wf_def bs)
  have t: "rd_u16 (drop 2 bs) = a_type a"
    using assms rd_u16_le_bytes [of "a_type a"] by (simp add: attr_bytes_def attr_wf_def bs)
  have d: "take (length (a_data a)) (drop 4 bs) = a_data a"
    by (simp add: attr_bytes_def bs)
  have n: "length (a_data a) + 4 \<le> length bs" by (simp add: bs)
  show ?thesis unfolding bs [symmetric]
    by (subst for_each_nla_buf.simps) (use n in \<open>simp add: l t d\<close>)
qed

lemma walk_attrs: "list_all attr_wf as \<Longrightarrow> for_each_nla_buf (attrs_bytes as) = as"
proof (induction as rule: attrs_bytes.induct)
  case 1
  then show ?case by (simp add: for_each_nla_buf.simps)
next
  case (2 a)
  then show ?case using walk_attr [of a "[]"] align4_ge [of "length (attr_bytes a)"]
    by (simp add: for_each_nla_buf.simps [of "[]"])
next
  case (3 a b as)
  have "drop (align4 (length (attr_bytes a))) (pad4 (attr_bytes a) @ attrs_bytes (b # as)) = attrs_bytes (b # as)"
    by simp
  with 3 walk_attr [of a "replicate (align4 (length (attr_bytes a)) - length (attr_bytes a)) 0 @ attrs_bytes (b # as)"]
  show ?case by (simp add: pad4_def del: length_attr_bytes)
qed

lemma pad4_append: "length xs mod 4 = 0 \<Longrightarrow> pad4 (xs @ ys) = xs @ pad4 ys"
  by (simp add: pad4_def align4_add)

lemma pad4_pad4_append: "pad4 (pad4 xs @ ys) = pad4 xs @ pad4 ys"
  by (rule pad4_append) (simp add: align4_mod)

lemma attrs_bytes_snoc: "as \<noteq> [] \<Longrightarrow> attrs_bytes (as @ [a]) = pad4 (attrs_bytes as) @ attr_bytes a"
proof (induction as rule: attrs_bytes.induct)
  case (3 a' b as)
  then show ?case by (cases as) (auto simp: pad4_pad4_append)
qed auto

lemma attrs_bytes_snoc': "attrs_bytes (as @ [a]) = pad4 (attrs_bytes as) @ attr_bytes a"
  by (cases "as = []") (auto simp: attrs_bytes_snoc pad4_def align4_def)

section \<open>Building a message\<close>

lemma nlmsg_realloc_ok:
  assumes "0 < unat (m_alloc msg)" and "unat n \<le> 2 ^ 31"
  shows "\<exists>al. nlmsg_realloc msg n [] = Some (0, msg\<lparr>m_alloc := al\<rparr>, []) \<and> 0 < unat al \<and> n \<le> al"
proof (cases "m_alloc msg \<ge> n")
  case True
  with assms show ?thesis by (intro exI [of _ "m_alloc msg"]) (simp add: nlmsg_realloc_def)
next
  case False
  with grow_returns [OF assms] obtain al where al: "grow (m_alloc msg) n = Some al" "n \<le> al" by blast
  with False assms have "0 < unat al" by (auto simp: word_le_nat_alt)
  with al False show ?thesis by (intro exI [of _ al]) (simp add: nlmsg_realloc_def)
qed

lemma nlmsg_put_raw_ok:
  assumes "0 < unat (m_alloc msg)" and "align4 (length (m_data msg)) + length d + k \<le> 2 ^ 31"
  shows "\<exists>al. nlmsg_put_raw msg d k [] = Some (0, msg\<lparr>m_alloc := al, m_data := pad4 (m_data msg) @ d @ replicate k 0\<rparr>, [])
    \<and> 0 < unat al"
proof -
  let ?n = "align4 (length (m_data msg)) + length d + k"
  have "unat (word_of_nat ?n :: u32) = ?n mod 2 ^ 32" by (simp only: unat_of_nat) simp
  also have "\<dots> \<le> ?n" by simp
  finally have "unat (word_of_nat ?n :: u32) \<le> 2 ^ 31" using assms(2) by linarith
  from nlmsg_realloc_ok [OF assms(1) this] show ?thesis
    by (auto simp: nlmsg_put_raw_def pad4_def Let_def)
qed

lemma nlmsg_put_ok:
  assumes "0 < unat (m_alloc msg)" and "align4 (length (m_data msg)) + length d \<le> 2 ^ 31"
  shows "\<exists>al. nlmsg_put msg d [] = Some (0, set_hdr_len (msg\<lparr>m_alloc := al, m_data := pad4 (m_data msg) @ d\<rparr>), [])
    \<and> 0 < unat al"
  using nlmsg_put_raw_ok [of msg d 0] assms by (fastforce simp: nlmsg_put_def)

text \<open>What the bytes after the header are, and that the header holds the length of the message.\<close>

definition body :: "nlmsg \<Rightarrow> bytes" where
  "body msg = drop 16 (m_data msg)"

definition msg_ok :: "nlmsg \<Rightarrow> bool" where
  "msg_ok msg \<longleftrightarrow> 16 \<le> length (m_data msg) \<and> 0 < unat (m_alloc msg) \<and>
     (length (m_data msg) < 2 ^ 32 \<longrightarrow> hdr_len (m_data msg) = length (m_data msg))"

lemma hdr_len_set: "length (m_data msg) < 2 ^ 32 \<Longrightarrow> hdr_len (m_data (set_hdr_len msg)) = length (m_data msg)"
  by (simp add: hdr_len_def set_hdr_len_def le_nat_le_bytes)

lemma length_set_hdr: "16 \<le> length (m_data msg) \<Longrightarrow> length (m_data (set_hdr_len msg)) = length (m_data msg)"
  by (simp add: set_hdr_len_def)

lemma drop_set_hdr: "4 \<le> k \<Longrightarrow> drop k (m_data (set_hdr_len msg)) = drop k (m_data msg)"
  by (simp add: set_hdr_len_def)

lemma pad4_drop16: "16 \<le> length bs \<Longrightarrow> drop 16 (pad4 bs) = pad4 (drop 16 bs)"
proof -
  assume l: "16 \<le> length bs"
  have "pad4 (take 16 bs @ drop 16 bs) = take 16 bs @ pad4 (drop 16 bs)"
    by (rule pad4_append) (use l in simp)
  with l show ?thesis by simp
qed

lemma align4_mono16: "16 \<le> n \<Longrightarrow> align4 n = 16 + align4 (n - 16)"
  using align4_add [of 16 "n - 16"] by simp

lemma nla_put_ok:
  assumes m: "msg_ok msg" and w: "attr_wf a" and b: "align4 (length (m_data msg)) + 4 + length (a_data a) \<le> 2 ^ 31"
  shows "\<exists>msg'. nla_put msg (a_type a) (a_data a) [] = Some (0, msg', []) \<and> msg_ok msg' \<and>
    body msg' = pad4 (body msg) @ attr_bytes a \<and> take 12 (drop 4 (m_data msg')) = take 12 (drop 4 (m_data msg)) \<and>
    m_start msg' = m_start msg"
proof -
  let ?h = "le_bytes 2 (length (a_data a) + 4) @ le_bytes 2 (a_type a)"
  let ?p = "pad4 (m_data msg)"
  from m have l16: "16 \<le> length (m_data msg)" and al: "0 < unat (m_alloc msg)" by (auto simp: msg_ok_def)
  have lp: "16 \<le> length ?p" using l16 align4_ge [of "length (m_data msg)"] by simp
  from nlmsg_put_ok [OF al, of ?h] b obtain al1 where
    p1: "nlmsg_put msg ?h [] = Some (0, set_hdr_len (msg\<lparr>m_alloc := al1, m_data := ?p @ ?h\<rparr>), [])" "0 < unat al1"
    by auto
  let ?m1 = "set_hdr_len (msg\<lparr>m_alloc := al1, m_data := ?p @ ?h\<rparr>)"
  have l1: "length (m_data ?m1) = align4 (length (m_data msg)) + 4"
    by (subst length_set_hdr) (use lp in simp_all)
  have a1: "align4 (length (m_data ?m1)) = length (m_data ?m1)"
    unfolding l1 by (rule align4_id) (simp add: align4_mod)
  then have pm1: "pad4 (m_data ?m1) = m_data ?m1" by (simp add: pad4_def)
  have alm1: "0 < unat (m_alloc ?m1)" using p1 by (simp add: set_hdr_len_def)
  have "align4 (length (m_data ?m1)) + length (a_data a) \<le> 2 ^ 31" unfolding a1 unfolding l1 using b by simp
  from nlmsg_put_ok [OF alm1 this] obtain al2 where
    p2: "nlmsg_put ?m1 (a_data a) [] = Some (0, set_hdr_len (?m1\<lparr>m_alloc := al2, m_data := m_data ?m1 @ a_data a\<rparr>), [])"
      "0 < unat al2" unfolding pm1 by blast
  let ?m2 = "set_hdr_len (?m1\<lparr>m_alloc := al2, m_data := m_data ?m1 @ a_data a\<rparr>)"
  have put: "nla_put msg (a_type a) (a_data a) [] = Some (0, ?m2, [])"
    using p1 p2 by (simp add: nla_put_def)
  have l2: "length (m_data ?m2) = align4 (length (m_data msg)) + 4 + length (a_data a)"
    by (subst length_set_hdr) (use l1 lp in simp_all)
  have body2: "body ?m2 = pad4 (body msg) @ attr_bytes a"
    unfolding body_def using lp l16
    by (simp add: drop_set_hdr pad4_drop16 attr_bytes_def)
       (simp add: set_hdr_len_def pad4_drop16 attr_bytes_def)
  have hd2: "take 12 (drop 4 (m_data ?m2)) = take 12 (drop 4 (m_data msg))"
    using lp l16 by (simp add: set_hdr_len_def pad4_def)
  have "hdr_len (m_data ?m2) = length (m_data ?m2)"
    using l2 b l1 by (subst hdr_len_set) simp_all
  then have ok2: "msg_ok ?m2"
    using l2 lp p2 by (simp add: msg_ok_def) (simp add: set_hdr_len_def)
  have "m_start ?m2 = m_start msg" by (simp add: set_hdr_len_def)
  with put ok2 body2 hd2 show ?thesis by blast
qed

text \<open>Several attributes put one after another, stopping at the first error.\<close>

fun put_attrs :: "nlmsg \<Rightarrow> nlattr list \<Rightarrow> mem \<Rightarrow> (int \<times> nlmsg \<times> mem) option" where
  "put_attrs msg [] m = Some (0, msg, m)"
| "put_attrs msg (a # as) m = do {
     (err, msg, m) \<leftarrow> nla_put msg (a_type a) (a_data a) m;
     if err \<noteq> 0 then Some (err, msg, m) else put_attrs msg as m }"

lemma put_attrs_ok:
  assumes "msg_ok msg" "list_all attr_wf as" "body msg = attrs_bytes done"
    and "length (m_data msg) + (\<Sum>a\<leftarrow>as. length (a_data a) + 8) \<le> 2 ^ 31"
  shows "\<exists>msg'. put_attrs msg as [] = Some (0, msg', []) \<and> msg_ok msg' \<and> body msg' = attrs_bytes (done @ as) \<and>
    take 12 (drop 4 (m_data msg')) = take 12 (drop 4 (m_data msg)) \<and> length (m_data msg') < 2 ^ 32"
  using assms
proof (induction as arbitrary: msg "done")
  case (Cons a as)
  let ?l = "length (m_data msg)"
  have al: "align4 ?l < ?l + 4" by (rule align4_less)
  with Cons.prems have "align4 ?l + 4 + length (a_data a) \<le> 2 ^ 31" by simp
  with nla_put_ok [of msg a] Cons.prems obtain msg1 where
    m1: "nla_put msg (a_type a) (a_data a) [] = Some (0, msg1, [])" "msg_ok msg1"
      "body msg1 = pad4 (body msg) @ attr_bytes a" "take 12 (drop 4 (m_data msg1)) = take 12 (drop 4 (m_data msg))"
    by auto
  have b1: "body msg1 = attrs_bytes (done @ [a])"
    using m1 Cons.prems(3) by (simp add: attrs_bytes_snoc')
  have "16 \<le> ?l" "16 \<le> length (m_data msg1)" using m1 Cons.prems(1) by (auto simp: msg_ok_def)
  then have "length (m_data msg1) = align4 ?l + 4 + length (a_data a)"
    using arg_cong [OF m1(3), of length] align4_mono16 [of ?l] by (simp add: body_def)
  with al Cons.prems(4) have "length (m_data msg1) + (\<Sum>a\<leftarrow>as. length (a_data a) + 8) \<le> 2 ^ 31" by simp
  from Cons.IH [OF m1(2) _ b1 this] Cons.prems(2) m1 show ?case by auto
qed auto

lemma nlmsg_new_ok:
  "\<exists>msg. nlmsg_new ty fl [] = Some (Some msg, []) \<and> msg_ok msg \<and> body msg = [] \<and> length (m_data msg) = 16 \<and>
    take 12 (drop 4 (m_data msg)) = take 12 (drop 4 (nlmsghdr ty (fl OR NLM_F_REQUEST)))"
proof -
  let ?m = "\<lparr>m_data = [], m_start = 0, m_alloc = NLMSG_BASIC_SIZE\<rparr>"
  have "0 < unat (m_alloc ?m)" "align4 (length (m_data ?m)) + length (nlmsghdr ty (fl OR NLM_F_REQUEST)) \<le> 2 ^ 31"
    by (simp_all add: NLMSG_BASIC_SIZE_def align4_def)
  from nlmsg_put_ok [OF this] show ?thesis
    by (fastforce simp: nlmsg_new_def nlmsg_alloc_def Let_def msg_ok_def body_def set_hdr_len_def pad4_def
        align4_def hdr_len_def le_nat_le_bytes)
qed

section \<open>Properties\<close>

text \<open>
  C17: A request built with \<open>nlmsg_new\<close> and any sequence of \<open>nla_put\<close> calls whose payloads
  fit the 16-bit attribute length reads back, through the attribute loop, as exactly those
  attributes; its header carries the message type and, after every call, the length of the
  whole message, alignment padding included.
\<close>

theorem nla_put_roundtrip:
  assumes "list_all attr_wf as" and "16 + (\<Sum>a\<leftarrow>as. length (a_data a) + 8) \<le> 2 ^ 31" and "ty < 65536"
  shows "\<exists>msg msg'. nlmsg_new ty fl [] = Some (Some msg, []) \<and> put_attrs msg as [] = Some (0, msg', []) \<and>
    for_each_nla (nlmsg_reset_start msg') = as \<and>
    hdr_len (m_data msg') = length (m_data msg') \<and> hdr_type (m_data msg') = ty"
proof -
  obtain msg where m: "nlmsg_new ty fl [] = Some (Some msg, [])" "msg_ok msg" "body msg = []"
    "length (m_data msg) = 16"
    "take 12 (drop 4 (m_data msg)) = take 12 (drop 4 (nlmsghdr ty (fl OR NLM_F_REQUEST)))"
    using nlmsg_new_ok by blast
  have "body msg = attrs_bytes []" using m by simp
  from put_attrs_ok [OF m(2) assms(1) this] assms(2) m obtain msg' where
    m': "put_attrs msg as [] = Some (0, msg', [])" "msg_ok msg'" "body msg' = attrs_bytes as"
      "take 12 (drop 4 (m_data msg')) = take 12 (drop 4 (nlmsghdr ty (fl OR NLM_F_REQUEST)))"
      "length (m_data msg') < 2 ^ 32" by auto
  have "for_each_nla (nlmsg_reset_start msg') = as"
    using m'(3) walk_attrs [OF assms(1)]
    by (simp add: for_each_nla_def nlmsg_reset_start_def body_def align4_def)
  moreover have "hdr_type (m_data msg') = ty"
  proof -
    have "take 2 (take 12 (drop 4 (m_data msg'))) = le_bytes 2 ty"
      unfolding m'(4) by (simp add: nlmsghdr_def)
    then have "take 2 (drop 4 (m_data msg')) = le_bytes 2 ty" by simp
    with assms(3) show ?thesis by (simp add: hdr_type_def rd_u16_def le_nat_le_bytes)
  qed
  ultimately show ?thesis using m m' by (auto simp: msg_ok_def)
qed

definition ex_attrs :: "nlattr list" where
  "ex_attrs = [\<lparr>a_type = 3, a_data = [101, 116, 104, 48, 0]\<rparr>, \<lparr>a_type = 5, a_data = [1, 2, 3, 4]\<rparr>]"

theorem nla_put_roundtrip_witness:
  "\<exists>msg msg'. nlmsg_new 18 0 [] = Some (Some msg, []) \<and> put_attrs msg ex_attrs [] = Some (0, msg', []) \<and>
    for_each_nla (nlmsg_reset_start msg') = ex_attrs \<and> hdr_len (m_data msg') = length (m_data msg') \<and>
    hdr_type (m_data msg') = 18"
  by (rule nla_put_roundtrip) (simp_all add: ex_attrs_def attr_wf_def)

text \<open>
  C22: On any bytes at all, however malformed, the attribute loop terminates and every
  attribute it visits lies completely inside the message: its header and its payload are a
  slice of the received bytes, and its payload has the length its header announces.
\<close>

theorem for_each_nla_in_bounds:
  assumes "a \<in> set (for_each_nla msg)"
  shows "\<exists>off. m_start msg \<le> off \<and> off + 4 + nla_len a \<le> length (m_data msg) \<and>
    nla_read a = take (nla_len a) (drop (off + 4) (m_data msg)) \<and>
    rd_u16 (drop off (m_data msg)) = nla_len a + 4"
proof -
  from assms obtain off where "attr_at (drop (m_start msg) (m_data msg)) off a"
    using for_each_nla_buf_slices unfolding for_each_nla_def by blast
  then show ?thesis
    by (intro exI [of _ "m_start msg + off"]) (auto simp: attr_at_def nla_len_def nla_read_def add_ac)
qed

definition ex_bytes :: bytes where
  "ex_bytes = [5, 0, 7, 0, 9, 0, 0, 0, 200, 0, 1, 0]"

theorem for_each_nla_in_bounds_witness:
  "\<lparr>a_type = 7, a_data = [9]\<rparr> \<in> set (for_each_nla \<lparr>m_data = ex_bytes, m_start = 0, m_alloc = 12\<rparr>) \<and>
   (\<exists>off. off + 4 + 1 \<le> length ex_bytes \<and> take 1 (drop (off + 4) ex_bytes) = [9])"
proof -
  have m: "\<lparr>a_type = 7, a_data = [9]\<rparr> \<in> set (for_each_nla \<lparr>m_data = ex_bytes, m_start = 0, m_alloc = 12\<rparr>)"
    by (simp add: for_each_nla_def ex_bytes_def for_each_nla_buf.simps rd_u16_def align4_def)
  from for_each_nla_in_bounds [OF m] m show ?thesis
    by (fastforce simp: nla_len_def nla_read_def)
qed

text \<open>
  The table \<open>nla_nested_attrs\<close> and \<open>nlmsg_attrs\<close> build holds, for every type up to the
  bound, the last attribute of that type (later attributes overwrite earlier ones) and
  nothing for a larger type, whatever the message contains; a failed allocation gives no table.
\<close>

lemma nla_nested_attrs_last:
  "nla_nested_attrs a mx (False # m) = (None, m) \<and>
   fst (nla_nested_attrs a mx []) = Some (\<lambda>t. if t \<le> mx then find (\<lambda>b. a_type b = t) (rev (for_each_nla_nested a)) else None) \<and>
   fst (nlmsg_attrs msg mx []) = Some (\<lambda>t. if t \<le> mx then find (\<lambda>b. a_type b = t) (rev (for_each_nla msg)) else None)"
  by (simp_all add: nla_nested_attrs_def nlmsg_attrs_def attr_table_find fun_eq_iff)

text \<open>
  Asking for at most \<open>2 ^ 31\<close> bytes, the doubling loop of \<open>nlmsg_realloc\<close> ends, and the
  new size is large enough and less than twice what was asked for.
\<close>

lemma nlmsg_realloc_terminates:
  assumes "0 < unat (m_alloc msg)" and "unat min_len \<le> 2 ^ 31"
  shows "\<exists>msg'. nlmsg_realloc msg min_len [] = Some (0, msg', []) \<and> min_len \<le> m_alloc msg' \<and>
    m_data msg' = m_data msg \<and> (m_alloc msg < min_len \<longrightarrow> unat (m_alloc msg') < 2 * unat min_len)"
proof (cases "m_alloc msg < min_len")
  case True
  with grow_returns [OF assms] show ?thesis by (auto simp: nlmsg_realloc_def)
next
  case False
  then show ?thesis by (auto simp: nlmsg_realloc_def)
qed

text \<open>
  C29: For a message allocated by \<open>nlmsg_new\<close>, asking for more than \<open>2 ^ 31\<close> bytes makes the
  doubling wrap around to 0 and the loop never ends.
\<close>

theorem nlmsg_realloc_diverges:
  assumes "2 ^ 31 < unat min_len"
  shows "nlmsg_realloc \<lparr>m_data = d, m_start = s, m_alloc = NLMSG_BASIC_SIZE\<rparr> min_len m = None"
proof -
  have "NLMSG_BASIC_SIZE = 2 ^ 14" by (simp add: NLMSG_BASIC_SIZE_def)
  then have "\<exists>k < 32. NLMSG_BASIC_SIZE = 2 ^ k" by (intro exI [of _ 14]) simp
  with assms grow_never have "grow NLMSG_BASIC_SIZE min_len = None"
    by (metis not_None_eq)
  moreover have "NLMSG_BASIC_SIZE < min_len"
    using assms by (simp add: word_less_nat_alt NLMSG_BASIC_SIZE_def)
  ultimately show ?thesis by (simp add: nlmsg_realloc_def)
qed

theorem nlmsg_realloc_diverges_witness:
  "nlmsg_realloc \<lparr>m_data = [], m_start = 0, m_alloc = NLMSG_BASIC_SIZE\<rparr> 0x80000001 [] = None"
  by (rule nlmsg_realloc_diverges) simp

text \<open>
  \<open>nlmsg_unget\<close> undoes \<open>nlmsg_get\<close>: after a successful read of \<open>len\<close> bytes it never
  fails its assertion and puts the read position back; a read that does not fit returns NULL
  and leaves the message alone.
\<close>

lemma nlmsg_get_unget:
  "case nlmsg_get msg len of
     (Some bs, msg') \<Rightarrow> (len \<le> length bs \<or> len = 0) \<and> nlmsg_unget msg' len = Some msg
   | (None, msg') \<Rightarrow> msg' = msg \<and> int (length (m_data msg)) < int (m_start msg) + int len"
  by (auto simp: nlmsg_get_def nlmsg_unget_def split: if_splits)

lemma le_nat_rev4: "le_nat (rev (le_bytes 4 n)) < 2 ^ 32"
  using le_nat_bound [of "rev (le_bytes 4 n)"] by simp

lemma ntohl_bytes: "length bs = 4 \<Longrightarrow> ntohl (word_of_nat (le_nat bs)) = word_of_nat (le_nat (rev bs))"
proof -
  assume l: "length bs = 4"
  then have "le_nat bs < 2 ^ 32" using le_nat_bound [of bs] by simp
  then have "unat (word_of_nat (le_nat bs) :: u32) = le_nat bs" by (simp add: unat_of_nat)
  with l le_bytes_le_nat [of bs] show ?thesis by (simp add: ntohl_def)
qed

lemma split64:
  assumes "lo < 2 ^ 32" and "hi < 2 ^ 32"
  shows "ucast ((word_of_nat (lo + 2 ^ 32 * hi) :: u64) AND 0xFFFFFFFF) = (word_of_nat lo :: u32)"
    and "ucast (drop_bit 32 (word_of_nat (lo + 2 ^ 32 * hi) :: u64)) = (word_of_nat hi :: u32)"
proof -
  let ?n = "lo + 2 ^ 32 * hi"
  have "hi + 1 \<le> 2 ^ 32" using assms(2) by simp
  then have "2 ^ 32 * (hi + 1) \<le> 2 ^ 32 * (2 ^ 32 :: nat)" by (rule mult_le_mono2)
  then have n: "?n < 2 ^ 64" using assms(1) by simp
  have u: "unat (word_of_nat ?n :: u64) = ?n"
    using n by (simp only: unat_of_nat) simp
  have "(0xFFFFFFFF :: u64) = mask 32" by (simp add: mask_eq_exp_minus_1)
  then have "(word_of_nat ?n :: u64) AND 0xFFFFFFFF = take_bit 32 (word_of_nat ?n)"
    by (simp only: take_bit_eq_mask)
  then have "unat ((word_of_nat ?n :: u64) AND 0xFFFFFFFF) = ?n mod 2 ^ 32"
    by (simp only: unsigned_take_bit_eq u) (simp only: take_bit_eq_mod)
  also have "\<dots> = lo" using assms(1) by simp
  finally show "ucast ((word_of_nat ?n :: u64) AND 0xFFFFFFFF) = (word_of_nat lo :: u32)"
    by (metis of_nat_unat)
  have "unat (drop_bit 32 (word_of_nat ?n :: u64)) = ?n div 2 ^ 32"
    unfolding unsigned_drop_bit_eq u using n by (simp add: drop_bit_eq_div take_bit_nat_eq_self)
  also have "\<dots> = hi" using assms(1) by simp
  finally show "ucast (drop_bit 32 (word_of_nat ?n :: u64)) = (word_of_nat hi :: u32)"
    by (metis of_nat_unat)
qed

lemma wnu: "w = word_of_nat (unat (w :: 'a :: len word))"
  by simp

lemma join64:
  assumes "hi < 2 ^ 32" and "lo < 2 ^ 32"
  shows "push_bit 32 (ucast (word_of_nat hi :: u32)) OR ucast (word_of_nat lo :: u32) = (word_of_nat (hi * 2 ^ 32 + lo) :: u64)"
proof -
  let ?h = "ucast (word_of_nat hi :: u32) :: u64" and ?l = "ucast (word_of_nat lo :: u32) :: u64"
  have u: "unat ?h = hi" "unat ?l = lo"
    using assms by (simp_all add: unsigned_ucast_eq unat_of_nat take_bit_nat_eq_self)
  have h: "?h = word_of_nat hi" and l: "?l = word_of_nat lo" using u by (metis wnu)+
  have ph: "push_bit 32 ?h = word_of_nat (hi * 2 ^ 32)"
    unfolding h by (simp add: push_bit_eq_mult)
  have "push_bit 32 ?h AND ?l = 0"
  proof (rule bit_eqI)
    fix n
    show "bit (push_bit 32 ?h AND ?l) n = bit (0 :: u64) n"
      by (auto simp: bit_and_iff bit_push_bit_iff bit_ucast_iff dest: bit_imp_le_length)
  qed
  then have "push_bit 32 ?h OR ?l = push_bit 32 ?h + ?l"
    by (simp only: disjunctive_add_eq_or)
  also have "\<dots> = word_of_nat (hi * 2 ^ 32) + word_of_nat lo" by (simp only: ph l)
  also have "\<dots> = word_of_nat (hi * 2 ^ 32 + lo)" by (simp only: of_nat_add)
  finally show ?thesis .
qed

text \<open>
  The \<open>ntohll\<close> macro of a little-endian host, two 32-bit swaps and an exchange of the
  halves, reads the eight bytes of the attribute as one big-endian number.
\<close>

lemma nla_read_be64_big_endian:
  assumes "8 \<le> length (a_data a)"
  shows "nla_read_be64 a = word_of_nat (le_nat (rev (take 8 (a_data a))))"
proof -
  obtain xs ys where b: "take 8 (a_data a) = xs @ ys" and l: "length xs = 4" "length ys = 4"
    using assms that [of "take 4 (a_data a)" "take 4 (drop 4 (a_data a))"]
    by (simp add: take_add [symmetric])
  have bd: "le_nat xs < 2 ^ 32" "le_nat ys < 2 ^ 32" "le_nat (rev xs) < 2 ^ 32" "le_nat (rev ys) < 2 ^ 32"
    using le_nat_bound [of xs] le_nat_bound [of ys] le_nat_bound [of "rev xs"] le_nat_bound [of "rev ys"] l by simp_all
  have n: "le_nat (xs @ ys) = le_nat xs + 2 ^ 32 * le_nat ys" by (simp add: le_nat_append l)
  have "nla_read_be64 a = push_bit 32 (ucast (ntohl (word_of_nat (le_nat xs)))) OR ucast (ntohl (word_of_nat (le_nat ys)))"
    unfolding nla_read_be64_def ntohll_def b n split64 [OF bd(1,2)] ..
  also have "\<dots> = word_of_nat (le_nat (rev xs) * 2 ^ 32 + le_nat (rev ys))"
    unfolding ntohl_bytes [OF l(1)] ntohl_bytes [OF l(2)] by (rule join64 [OF bd(3,4)])
  finally show ?thesis by (simp add: b le_nat_append l add.commute)
qed

end
