(* ===== verification/Nlsock.thy ===== *)
theory Nlsock
  imports Nlmsg
begin

unbundle bit_operations_syntax

text \<open>
  The netlink socket of \<open>netlink.c\<close>: opening, sending a request, collecting the answer,
  retrying, and the requests of the rtnetlink and genetlink families.  The kernel's side is
  an environment: what \<open>poll\<close> and \<open>recvmsg\<close> return, one entry per turn of the receive loop
  (when it is used up, \<open>poll\<close> times out), and the error number of each \<open>sendmsg\<close> (0 when
  used up).  A result \<open>None\<close> is a run with no defined behaviour: the buffer loop that never
  ends, or a NULL dereference of an absent answer.
\<close>

section \<open>State\<close>

record nl_handle =
  nl_pid :: u32
  nl_seq :: u32

datatype rx = PollErr int | PollNothing | RecvErr int | RecvEmpty | Datagram u32 bytes

record nlenv =
  e_rx :: "rx list"
  e_tx :: "int list"
  e_mem :: mem

text \<open>
  \<open>nl_open\<close>: the error numbers of \<open>socket\<close>, the two \<open>setsockopt\<close>, \<open>bind\<close> and
  \<open>getsockname\<close>, in this order, 0 for success, and the port the kernel assigned.
\<close>

fun nl_open :: "int list \<Rightarrow> u32 \<Rightarrow> int \<times> nl_handle" where
  "nl_open [] pid = (0, \<lparr>nl_pid = pid, nl_seq = 0\<rparr>)"
| "nl_open (e # es) pid = (if e \<noteq> 0 then (- e, \<lparr>nl_pid = 0, nl_seq = 0\<rparr>) else nl_open es pid)"

definition set_seq :: "u32 \<Rightarrow> nlmsg \<Rightarrow> nlmsg" where
  "set_seq sq msg = msg\<lparr>m_data := take 8 (m_data msg) @ le_bytes 4 (unat sq) @ drop 12 (m_data msg)\<rparr>"

definition nl_send :: "nl_handle \<Rightarrow> nlmsg \<Rightarrow> nlenv \<Rightarrow> int \<times> nl_handle \<times> nlmsg \<times> nlenv" where
  "nl_send hnd src env =
     (let hnd = hnd\<lparr>nl_seq := nl_seq hnd + 1\<rparr>; src = set_seq (nl_seq hnd) src in
      case e_tx env of
        [] \<Rightarrow> (0, hnd, src, env)
      | e # es \<Rightarrow> (e, hnd, src, env\<lparr>e_tx := es\<rparr>))"

section \<open>Receiving\<close>

text \<open>What the walk over one datagram ends with: go on receiving, or return.\<close>

datatype scan = Again "nlmsg list" | Ret int "nlmsg list"

lemma align4_dec: "16 \<le> k \<Longrightarrow> k \<le> n \<Longrightarrow> n - align4 k < n"
  using align4_ge [of k] by linarith

function nl_scan :: "nl_handle \<Rightarrow> bool \<Rightarrow> bytes \<Rightarrow> nlmsg list \<Rightarrow> mem \<Rightarrow> (scan \<times> mem) option" where
  "nl_scan hnd is_dump bs dest m =
     (if length bs \<ge> 16 \<and> hdr_len bs \<ge> 16 \<and> hdr_len bs \<le> length bs then
        let n = take (hdr_len bs) bs; rest = drop (align4 (hdr_len bs)) bs in
        if hdr_pid n \<noteq> nl_pid hnd \<or> hdr_seq n \<noteq> nl_seq hnd then nl_scan hnd is_dump rest dest m
        else if is_dump \<and> hdr_type n = NLMSG_DONE then Some (Ret 0 dest, m)
        else if hdr_type n = NLMSG_ERROR then Some (Ret (- sint (rd_u32 (drop 16 bs))) [], m)
        else case nlmsg_alloc (word_of_nat (hdr_len bs)) m of
            (None, m) \<Rightarrow> Some (Ret ENOMEM [], m)
          | (Some entry, m) \<Rightarrow>
             (case nlmsg_put_raw entry n 0 m of
                None \<Rightarrow> None
              | Some (err, entry, m) \<Rightarrow>
                  if err \<noteq> 0 then Some (Ret err [], m)
                  else let dest = dest @ [nlmsg_reset_start entry] in
                    if \<not> is_dump then Some (Ret 0 dest, m) else nl_scan hnd is_dump rest dest m)
      else Some (Again dest, m))"
  by pat_completeness auto
termination
  by (relation "measure (\<lambda>(hnd, is_dump, bs, dest, m). length bs)") (auto simp: align4_dec)

declare nl_scan.simps [simp del]

text \<open>The receive loop of \<open>nl_recv\<close>: error number, answer, and what is left of the environment.\<close>

fun nl_recv_loop :: "nl_handle \<Rightarrow> bool \<Rightarrow> nlmsg list \<Rightarrow> rx list \<Rightarrow> mem \<Rightarrow> (int \<times> nlmsg list \<times> rx list \<times> mem) option" where
  "nl_recv_loop hnd is_dump dest [] m = Some (ETIME, [], [], m)"
| "nl_recv_loop hnd is_dump dest (PollErr e # evs) m = Some (e, [], evs, m)"
| "nl_recv_loop hnd is_dump dest (PollNothing # evs) m = Some (ETIME, [], evs, m)"
| "nl_recv_loop hnd is_dump dest (RecvErr e # evs) m = Some (e, [], evs, m)"
| "nl_recv_loop hnd is_dump dest (RecvEmpty # evs) m = Some (EPIPE, [], evs, m)"
| "nl_recv_loop hnd is_dump dest (Datagram src bs # evs) m =
     (if src \<noteq> 0 then nl_recv_loop hnd is_dump dest evs m
      else case nl_scan hnd is_dump (take 16384 bs) dest m of
          None \<Rightarrow> None
        | Some (Again dest, m) \<Rightarrow> nl_recv_loop hnd is_dump dest evs m
        | Some (Ret err dest, m) \<Rightarrow> Some (err, dest, evs, m))"

definition nl_recv :: "nl_handle \<Rightarrow> bool \<Rightarrow> nlenv \<Rightarrow> (int \<times> nlmsg list \<times> nlenv) option" where
  "nl_recv hnd is_dump env = do {
     (err, dest, evs, m) \<leftarrow> nl_recv_loop hnd is_dump [] (e_rx env) (e_mem env);
     Some (err, dest, env\<lparr>e_rx := evs, e_mem := m\<rparr>) }"

definition nl_check_interrupted_dump :: "nlmsg list \<Rightarrow> bool" where
  "nl_check_interrupted_dump entries \<longleftrightarrow> (\<exists>e \<in> set entries. hdr_flags (m_data e) AND NLM_F_DUMP_INTR \<noteq> 0)"

text \<open>
  The retry loop of \<open>nl_exchange\<close>; the first argument is \<open>retry\<close>.  The request travels along
  because every send writes its sequence number.
\<close>

fun nl_exchange_loop :: "nat \<Rightarrow> bool \<Rightarrow> nl_handle \<Rightarrow> nlmsg \<Rightarrow> nlenv \<Rightarrow> (int \<times> nlmsg list \<times> nl_handle \<times> nlenv) option" where
  "nl_exchange_loop 0 is_dump hnd src env = Some (EINTR, [], hnd, env)"
| "nl_exchange_loop (Suc retry) is_dump hnd src env =
     (let (err, hnd, src, env) = nl_send hnd src env in
      if err \<noteq> 0 then Some (err, [], hnd, env)
      else case nl_recv hnd is_dump env of
          None \<Rightarrow> None
        | Some (err, dest, env) \<Rightarrow>
            if err = ETIME \<or> err = EAGAIN \<or> err = EINTR then nl_exchange_loop retry is_dump hnd src env
            else if err \<noteq> 0 then Some (err, dest, hnd, env)
            else if is_dump \<and> nl_check_interrupted_dump dest then nl_exchange_loop retry is_dump hnd src env
            else Some (0, dest, hnd, env))"

definition NL_RETRY_COUNT :: nat where "NL_RETRY_COUNT = 16"

definition nl_exchange :: "nl_handle \<Rightarrow> nlmsg \<Rightarrow> nlenv \<Rightarrow> (int \<times> nlmsg list \<times> nl_handle \<times> nlenv) option" where
  "nl_exchange hnd src env =
     nl_exchange_loop NL_RETRY_COUNT (hdr_flags (m_data src) AND NLM_F_DUMP \<noteq> 0) hnd src env"

section \<open>Requests\<close>

definition rtnlmsg_new :: "nat \<Rightarrow> nat \<Rightarrow> nat \<Rightarrow> nat \<Rightarrow> mem \<Rightarrow> (nlmsg option \<times> mem) option" where
  "rtnlmsg_new type family flags sz m = do {
     (res, m) \<leftarrow> nlmsg_new type flags m;
     case res of
       None \<Rightarrow> Some (None, m)
     | Some res \<Rightarrow> do {
         (err, res, m) \<leftarrow> nlmsg_put_padded res [word_of_nat family] sz m;
         if err \<noteq> 0 then Some (None, m) else Some (Some res, m) } }"

definition ifinfomsg_size :: nat where "ifinfomsg_size = 16"

definition rtnl_ifi_dump :: "nl_handle \<Rightarrow> nat \<Rightarrow> nat \<Rightarrow> nlenv \<Rightarrow> (int \<times> nlmsg list \<times> nl_handle \<times> nlenv) option" where
  "rtnl_ifi_dump hnd type family env = do {
     (req, m) \<leftarrow> rtnlmsg_new type family NLM_F_DUMP ifinfomsg_size (e_mem env);
     let env = env\<lparr>e_mem := m\<rparr>;
     case req of None \<Rightarrow> Some (ENOMEM, [], hnd, env) | Some req \<Rightarrow> nl_exchange hnd req env }"

definition genlmsg_new :: "nat \<Rightarrow> u8 \<Rightarrow> nat \<Rightarrow> mem \<Rightarrow> (nlmsg option \<times> mem) option" where
  "genlmsg_new type cmd flags m = do {
     (res, m) \<leftarrow> nlmsg_new type flags m;
     case res of
       None \<Rightarrow> Some (None, m)
     | Some res \<Rightarrow> do {
         (err, res, m) \<leftarrow> nlmsg_put res [cmd, 1, 0, 0] m;
         if err \<noteq> 0 then Some (None, m) else Some (Some res, m) } }"

definition GENL_ID_CTRL :: nat where "GENL_ID_CTRL = 16"
definition CTRL_CMD_GETFAMILY :: u8 where "CTRL_CMD_GETFAMILY = 3"
definition CTRL_ATTR_FAMILY_ID :: nat where "CTRL_ATTR_FAMILY_ID = 1"
definition CTRL_ATTR_FAMILY_NAME :: nat where "CTRL_ATTR_FAMILY_NAME = 2"

definition genl_family_id :: "nl_handle \<Rightarrow> string \<Rightarrow> nlenv \<Rightarrow> (u32 \<times> nl_handle \<times> nlenv) option" where
  "genl_family_id hnd name env = do {
     (req, m) \<leftarrow> genlmsg_new GENL_ID_CTRL CTRL_CMD_GETFAMILY 0 (e_mem env);
     let env = env\<lparr>e_mem := m\<rparr>;
     case req of
       None \<Rightarrow> Some (0, hnd, env)
     | Some req \<Rightarrow> do {
         (err, req, m) \<leftarrow> nla_put_str req CTRL_ATTR_FAMILY_NAME name (e_mem env);
         let env = env\<lparr>e_mem := m\<rparr>;
         if err \<noteq> 0 then Some (0, hnd, env)
         else do {
           (err, resp, hnd, env) \<leftarrow> nl_exchange hnd req env;
           if err \<noteq> 0 then Some (0, hnd, env)
           else case resp of
               [] \<Rightarrow> None
             | r # _ \<Rightarrow>
                 (case nlmsg_get r 4 of
                    (None, r) \<Rightarrow> Some (0, hnd, env)
                  | (Some _, r) \<Rightarrow>
                      Some (case find (\<lambda>a. a_type a = CTRL_ATTR_FAMILY_ID) (for_each_nla r) of
                              None \<Rightarrow> 0 | Some a \<Rightarrow> ucast (nla_read_u16 a), hnd, env)) } } }"

section \<open>What an answer consists of\<close>

text \<open>
  The messages of a datagram, each as the rest of the datagram from its header on, and what
  a receive does with a sequence of messages: those of other senders or of earlier requests
  are skipped, an error or the end of a dump finishes it.
\<close>

function nlmsgs :: "bytes \<Rightarrow> bytes list" where
  "nlmsgs bs =
     (if length bs \<ge> 16 \<and> hdr_len bs \<ge> 16 \<and> hdr_len bs \<le> length bs
      then bs # nlmsgs (drop (align4 (hdr_len bs)) bs) else [])"
  by pat_completeness auto
termination by (relation "measure length") (auto simp: align4_dec)

declare nlmsgs.simps [simp del]

lemma nlmsgs_more: "16 \<le> length bs \<Longrightarrow> 16 \<le> hdr_len bs \<Longrightarrow> hdr_len bs \<le> length bs \<Longrightarrow>
    nlmsgs bs = bs # nlmsgs (drop (align4 (hdr_len bs)) bs)"
  by (subst nlmsgs.simps) simp

lemma nlmsgs_short: "length bs < 16 \<Longrightarrow> nlmsgs bs = []"
  by (subst nlmsgs.simps) simp

definition msg_of :: "bytes \<Rightarrow> bytes" where
  "msg_of b = take (hdr_len b) b"

definition for_us :: "nl_handle \<Rightarrow> bytes \<Rightarrow> bool" where
  "for_us hnd b \<longleftrightarrow> hdr_pid (msg_of b) = nl_pid hnd \<and> hdr_seq (msg_of b) = nl_seq hnd"

definition entry_of :: "bytes \<Rightarrow> nlmsg" where
  "entry_of b = \<lparr>m_data = msg_of b, m_start = 16, m_alloc = word_of_nat (hdr_len b)\<rparr>"

fun collect :: "nl_handle \<Rightarrow> bool \<Rightarrow> bytes list \<Rightarrow> nlmsg list \<Rightarrow> scan" where
  "collect hnd is_dump [] dest = Again dest"
| "collect hnd is_dump (b # bs) dest =
     (if \<not> for_us hnd b then collect hnd is_dump bs dest
      else if is_dump \<and> hdr_type (msg_of b) = NLMSG_DONE then Ret 0 dest
      else if hdr_type (msg_of b) = NLMSG_ERROR then Ret (- sint (rd_u32 (drop 16 b))) []
      else if \<not> is_dump then Ret 0 (dest @ [entry_of b])
      else collect hnd is_dump bs (dest @ [entry_of b]))"

lemma put_raw_exact:
  assumes "length d < 2 ^ 32"
  shows "nlmsg_put_raw \<lparr>m_data = [], m_start = s, m_alloc = word_of_nat (length d)\<rparr> d 0 m =
     Some (0, \<lparr>m_data = d, m_start = s, m_alloc = word_of_nat (length d)\<rparr>, m)"
  by (simp add: nlmsg_put_raw_def nlmsg_realloc_def align4_def)

lemma hdr_len_bound: "hdr_len b < 2 ^ 32"
proof -
  have "le_nat (take 4 b) < 256 ^ length (take 4 b)" by (rule le_nat_bound)
  also have "(256 :: nat) ^ length (take 4 b) \<le> 256 ^ 4" by (intro power_increasing) auto
  finally show ?thesis by (simp add: hdr_len_def)
qed

lemma nl_scan_collect: "nl_scan hnd is_dump bs dest [] = Some (collect hnd is_dump (nlmsgs bs) dest, [])"
proof (induction hnd is_dump bs dest "[] :: mem" rule: nl_scan.induct)
  case (1 hnd is_dump bs dest)
  show ?case
  proof (cases "length bs \<ge> 16 \<and> hdr_len bs \<ge> 16 \<and> hdr_len bs \<le> length bs")
    case True
    then have ns: "nlmsgs bs = bs # nlmsgs (drop (align4 (hdr_len bs)) bs)" by (subst nlmsgs.simps) simp
    have lm: "length (msg_of bs) = hdr_len bs" using True by (simp add: msg_of_def)
    have put: "nlmsg_put_raw \<lparr>m_data = [], m_start = 0, m_alloc = word_of_nat (hdr_len bs)\<rparr> (msg_of bs) 0 [] =
        Some (0, \<lparr>m_data = msg_of bs, m_start = 0, m_alloc = word_of_nat (hdr_len bs)\<rparr>, [])"
      using put_raw_exact [of "msg_of bs" 0 "[]"] hdr_len_bound [of bs] by (simp add: lm)
    show ?thesis
    proof (cases "for_us hnd bs")
      case False
      with True "1.hyps"(1) [OF True refl refl] show ?thesis
        by (subst nl_scan.simps) (auto simp: ns for_us_def msg_of_def)
    next
      case us: True
      show ?thesis
      proof (cases "hdr_type (msg_of bs) = NLMSG_ERROR \<or> is_dump \<and> hdr_type (msg_of bs) = NLMSG_DONE \<or> \<not> is_dump")
        case True
        with us \<open>length bs \<ge> 16 \<and> hdr_len bs \<ge> 16 \<and> hdr_len bs \<le> length bs\<close> put show ?thesis
          by (subst nl_scan.simps)
             (auto simp: ns for_us_def msg_of_def nlmsg_alloc_def entry_of_def nlmsg_reset_start_def align4_def Let_def)
      next
        case False
        have "nl_scan hnd is_dump (drop (align4 (hdr_len bs)) bs) (dest @ [entry_of bs]) [] =
            Some (collect hnd is_dump (nlmsgs (drop (align4 (hdr_len bs)) bs)) (dest @ [entry_of bs]), [])"
          by (rule "1.hyps"(2) [OF True refl refl, where y = "[]"])
             (use us False put in \<open>auto simp: for_us_def msg_of_def nlmsg_alloc_def entry_of_def
                nlmsg_reset_start_def align4_def Let_def\<close>)
        with us False True put show ?thesis
          by (subst nl_scan.simps)
             (auto simp: ns for_us_def msg_of_def nlmsg_alloc_def entry_of_def nlmsg_reset_start_def align4_def Let_def)
      qed
    qed
  next
    case False
    then show ?thesis by (subst nl_scan.simps, subst nlmsgs.simps) auto
  qed
qed

lemma collect_append:
  "collect hnd is_dump (xs @ ys) dest =
     (case collect hnd is_dump xs dest of Again d \<Rightarrow> collect hnd is_dump ys d | Ret e d \<Rightarrow> Ret e d)"
  by (induction xs arbitrary: dest) auto

text \<open>A run of datagrams as the messages the kernel (port 0) sent in them.\<close>

definition kernel_msgs :: "(u32 \<times> bytes) list \<Rightarrow> bytes list" where
  "kernel_msgs ds = concat (map (\<lambda>(src, b). if src = 0 then nlmsgs (take 16384 b) else []) ds)"

definition dgrams :: "(u32 \<times> bytes) list \<Rightarrow> rx list" where
  "dgrams ds = map (\<lambda>(src, b). Datagram src b) ds"

definition outcome :: "scan \<Rightarrow> int \<times> nlmsg list" where
  "outcome r = (case r of Again _ \<Rightarrow> (ETIME, []) | Ret e d \<Rightarrow> (e, d))"

lemma nl_recv_loop_collect:
  "map_option (\<lambda>(e, d, _). (e, d)) (nl_recv_loop hnd is_dump dest (dgrams ds) []) =
     Some (outcome (collect hnd is_dump (kernel_msgs ds) dest))"
proof (induction ds arbitrary: dest)
  case Nil
  then show ?case by (simp add: dgrams_def kernel_msgs_def outcome_def)
next
  case (Cons d ds)
  obtain src b where d: "d = (src, b)" by (cases d)
  show ?case
  proof (cases "src = 0")
    case True
    with Cons.IH d show ?thesis
      by (cases "collect hnd is_dump (nlmsgs (take 16384 b)) dest")
         (simp_all add: dgrams_def kernel_msgs_def nl_scan_collect collect_append outcome_def)
  next
    case False
    with Cons.IH d show ?thesis by (simp add: dgrams_def kernel_msgs_def)
  qed
qed

text \<open>With memory and a complete dump in the first datagram, an exchange succeeds at the first try.\<close>

lemma dump_exchange:
  assumes "collect (hnd\<lparr>nl_seq := nl_seq hnd + 1\<rparr>) True (nlmsgs (take 16384 b)) [] = Ret 0 d"
    and "hdr_flags (m_data src) AND NLM_F_DUMP \<noteq> 0" and "\<not> nl_check_interrupted_dump d"
  shows "nl_exchange hnd src \<lparr>e_rx = Datagram 0 b # evs, e_tx = [], e_mem = []\<rparr> =
    Some (0, d, hnd\<lparr>nl_seq := nl_seq hnd + 1\<rparr>, \<lparr>e_rx = evs, e_tx = [], e_mem = []\<rparr>)"
  using assms
  by (simp add: nl_exchange_def NL_RETRY_COUNT_def numeral_eq_Suc nl_send_def nl_recv_def Let_def nl_scan_collect
      ETIME_def EAGAIN_def EINTR_def)

definition special :: "bytes \<Rightarrow> bool" where
  "special b \<longleftrightarrow> hdr_type (msg_of b) = NLMSG_DONE \<or> hdr_type (msg_of b) = NLMSG_ERROR"

lemma collect_dump_prefix:
  assumes "\<forall>b \<in> set pre. for_us hnd b \<longrightarrow> \<not> special b"
  shows "collect hnd True (pre @ bs) dest = collect hnd True bs (dest @ map entry_of (filter (for_us hnd) pre))"
  using assms by (induction pre arbitrary: dest) (auto simp: special_def)

text \<open>What every collected message is, whatever the allocations do.\<close>

definition accepted :: "nl_handle \<Rightarrow> nlmsg \<Rightarrow> bool" where
  "accepted hnd e \<longleftrightarrow> hdr_pid (m_data e) = nl_pid hnd \<and> hdr_seq (m_data e) = nl_seq hnd \<and>
     hdr_type (m_data e) \<noteq> NLMSG_ERROR \<and> m_start e = 16"

definition scan_msgs :: "scan \<Rightarrow> nlmsg list" where
  "scan_msgs r = (case r of Again d \<Rightarrow> d | Ret _ d \<Rightarrow> d)"

lemma nlmsg_alloc_Some: "nlmsg_alloc s m = (Some e, m') \<Longrightarrow> e = \<lparr>m_data = [], m_start = 0, m_alloc = s\<rparr>"
  by (auto simp: nlmsg_alloc_def split: prod.splits if_splits)

lemma nl_scan_accepted:
  assumes "nl_scan hnd is_dump bs dest m = Some (r, m')" and "\<forall>e \<in> set dest. accepted hnd e"
  shows "\<forall>e \<in> set (scan_msgs r). accepted hnd e"
  using assms
proof (induction hnd is_dump bs dest m arbitrary: r m' rule: nl_scan.induct)
  case (1 hnd is_dump bs dest m)
  show ?case
  proof (cases "length bs \<ge> 16 \<and> hdr_len bs \<ge> 16 \<and> hdr_len bs \<le> length bs")
    case True
    let ?n = "take (hdr_len bs) bs" and ?rest = "drop (align4 (hdr_len bs)) bs"
    consider (skip) "\<not> for_us hnd bs" | (special) "for_us hnd bs" "is_dump \<and> hdr_type ?n = NLMSG_DONE \<or> hdr_type ?n = NLMSG_ERROR"
      | (plain) "for_us hnd bs" "\<not> (is_dump \<and> hdr_type ?n = NLMSG_DONE)" "hdr_type ?n \<noteq> NLMSG_ERROR" by blast
    then show ?thesis
    proof cases
      case skip
      with "1.prems"(1) True have "nl_scan hnd is_dump ?rest dest m = Some (r, m')"
        by (subst (asm) nl_scan.simps) (auto simp: for_us_def msg_of_def)
      with "1.IH"(1) [OF True refl refl _ this] "1.prems"(2) skip show ?thesis
        by (auto simp: for_us_def msg_of_def)
    next
      case special
      with "1.prems" True show ?thesis
        by (subst (asm) nl_scan.simps) (auto simp: for_us_def msg_of_def scan_msgs_def Let_def split: if_splits)
    next
      case plain
      then have us: "\<not> (hdr_pid ?n \<noteq> nl_pid hnd \<or> hdr_seq ?n \<noteq> nl_seq hnd)" by (simp add: for_us_def msg_of_def)
      obtain ent m1 where al: "nlmsg_alloc (word_of_nat (hdr_len bs)) m = (ent, m1)" by (metis surj_pair)
      show ?thesis
      proof (cases ent)
        case None
        with "1.prems"(1) True us plain al show ?thesis
          by (subst (asm) nl_scan.simps) (auto simp: scan_msgs_def)
      next
        case (Some e0)
        have lm: "length ?n = hdr_len bs" using True by simp
        have put: "nlmsg_put_raw e0 ?n 0 m1 = Some (0, e0\<lparr>m_data := ?n\<rparr>, m1)"
          using put_raw_exact [of ?n 0 m1] hdr_len_bound [of bs] al Some lm by (auto dest!: nlmsg_alloc_Some)
        let ?e = "nlmsg_reset_start (e0\<lparr>m_data := ?n\<rparr>)"
        have acc: "\<forall>e \<in> set (dest @ [?e]). accepted hnd e"
          using "1.prems"(2) us plain by (auto simp: accepted_def nlmsg_reset_start_def align4_def)
        show ?thesis
        proof (cases is_dump)
          case False
          with "1.prems"(1) True us plain al Some put have "r = Ret 0 (dest @ [?e])"
            by (subst (asm) nl_scan.simps) auto
          with acc show ?thesis by (simp add: scan_msgs_def)
        next
          case dump: True
          with "1.prems"(1) True us plain al Some put
          have "nl_scan hnd is_dump ?rest (dest @ [?e]) m1 = Some (r, m')"
            by (subst (asm) nl_scan.simps) auto
          with "1.IH"(2) [OF True refl refl us plain(2,3) al [symmetric] Some put refl refl] acc dump
          show ?thesis by auto
        qed
      qed
    qed
  next
    case False
    with "1.prems" show ?thesis by (subst (asm) nl_scan.simps) (auto simp: scan_msgs_def)
  qed
qed

lemma nl_recv_loop_accepted:
  assumes "nl_recv_loop hnd is_dump dest evs m = Some (e, d, evs', m')" and "\<forall>x \<in> set dest. accepted hnd x"
  shows "\<forall>x \<in> set d. accepted hnd x"
  using assms
proof (induction hnd is_dump dest evs m arbitrary: e d evs' m' rule: nl_recv_loop.induct)
  case (6 hnd is_dump dest src bs evs m)
  show ?case
  proof (cases "src = 0")
    case True
    with "6.prems" obtain r m1 where r: "nl_scan hnd is_dump (take 16384 bs) dest m = Some (r, m1)"
      by (auto split: option.splits)
    then have acc: "\<forall>x \<in> set (scan_msgs r). accepted hnd x" using "6.prems"(2) by (rule nl_scan_accepted)
    show ?thesis
    proof (cases r)
      case (Again d1)
      with True r "6.prems"(1) have "nl_recv_loop hnd is_dump d1 evs m1 = Some (e, d, evs', m')" by simp
      with "6.IH"(2) [OF _ r _ Again] True acc Again show ?thesis by (auto simp: scan_msgs_def)
    next
      case (Ret e1 d1)
      with True r "6.prems"(1) acc show ?thesis by (auto simp: scan_msgs_def)
    qed
  qed (use 6 in auto)
qed auto

lemma nl_exchange_loop_inv:
  assumes "nl_exchange_loop n is_dump hnd src env = Some (e, d, hnd', env')"
  shows "\<exists>k \<le> n. nl_seq hnd' = nl_seq hnd + word_of_nat k \<and> nl_pid hnd' = nl_pid hnd \<and>
    (e = 0 \<longrightarrow> 0 < k \<and> (\<forall>x \<in> set d. accepted hnd' x) \<and> (is_dump \<longrightarrow> \<not> nl_check_interrupted_dump d))"
  using assms
proof (induction n arbitrary: hnd src env)
  case 0
  then show ?case by (auto simp: EINTR_def)
next
  case (Suc n)
  obtain err hnd1 src1 env1 where s: "nl_send hnd src env = (err, hnd1, src1, env1)" by (metis prod_cases4)
  then have h1: "nl_seq hnd1 = nl_seq hnd + 1" "nl_pid hnd1 = nl_pid hnd"
    by (auto simp: nl_send_def Let_def split: list.splits)
  have step: ?case if "nl_exchange_loop n is_dump hnd1 src1 env2 = Some (e, d, hnd', env')" for env2
  proof -
    from Suc.IH [OF that] obtain k where "k \<le> n" "nl_seq hnd' = nl_seq hnd1 + word_of_nat k"
      "nl_pid hnd' = nl_pid hnd1"
      "e = 0 \<longrightarrow> 0 < k \<and> (\<forall>x \<in> set d. accepted hnd' x) \<and> (is_dump \<longrightarrow> \<not> nl_check_interrupted_dump d)"
      by blast
    with h1 show ?thesis by (intro exI [of _ "Suc k"]) (auto simp: add_ac)
  qed
  show ?case
  proof (cases "err = 0")
    case False
    with Suc.prems s h1 show ?thesis by (auto intro!: exI [of _ "Suc 0"])
  next
    case True
    with Suc.prems s obtain err2 d2 env2 where r: "nl_recv hnd1 is_dump env1 = Some (err2, d2, env2)"
      by (auto split: option.splits)
    then have acc: "\<forall>x \<in> set d2. accepted hnd1 x"
      by (auto simp: nl_recv_def dest!: nl_recv_loop_accepted split: Option.bind_splits)
    from Suc.prems s True r step acc h1 show ?thesis
      by (auto intro!: exI [of _ "Suc 0"] split: if_splits)
  qed
qed

section \<open>Properties\<close>

text \<open>
  C16: Receiving the answer to a dump: when every datagram of the socket before the kernel's
  \<open>NLMSG_DONE\<close> carries no error for this request, the result is exactly the kernel's
  messages that carry this socket's port and the current sequence number, in the order they
  came, whole, and positioned after their headers; messages of other senders and answers to
  earlier requests are skipped, however the messages are packed into datagrams.
\<close>

theorem nl_recv_dump_complete:
  assumes "kernel_msgs ds = pre @ fin # post"
    and "\<forall>b \<in> set pre. for_us hnd b \<longrightarrow> \<not> special b"
    and "for_us hnd fin" and "hdr_type (msg_of fin) = NLMSG_DONE"
  shows "map_option (\<lambda>(e, d, _). (e, d)) (nl_recv hnd True \<lparr>e_rx = dgrams ds, e_tx = tx, e_mem = []\<rparr>) =
    Some (0, map entry_of (filter (for_us hnd) pre))"
proof -
  have "collect hnd True (kernel_msgs ds) [] = Ret 0 (map entry_of (filter (for_us hnd) pre))"
    unfolding assms(1) using collect_dump_prefix [OF assms(2)] assms(3,4) by simp
  with nl_recv_loop_collect [of hnd True "[]" ds] show ?thesis
    by (auto simp: nl_recv_def outcome_def)
qed

definition ex_hnd :: nl_handle where
  "ex_hnd = \<lparr>nl_pid = 7, nl_seq = 3\<rparr>"

definition ex_msg :: "nat \<Rightarrow> nat \<Rightarrow> u32 \<Rightarrow> bytes" where
  "ex_msg ty fl sq = le_bytes 4 16 @ le_bytes 2 ty @ le_bytes 2 fl @ le_bytes 4 (unat sq) @ le_bytes 4 7"

lemma le_bytes_numeral: "le_bytes 2 n = [word_of_nat (n mod 256), word_of_nat (n div 256 mod 256)]"
  "le_bytes 4 n = [word_of_nat (n mod 256), word_of_nat (n div 256 mod 256),
     word_of_nat (n div 256 div 256 mod 256), word_of_nat (n div 256 div 256 div 256 mod 256)]"
  by (simp_all only: numeral_eq_Suc le_bytes.simps) (simp_all only: pred_numeral_simps BitM.simps le_bytes.simps numeral_eq_Suc)

lemma ex_msg_eval: "ex_msg 16 2 3 = [16,0,0,0,16,0,2,0,3,0,0,0,7,0,0,0]" "ex_msg 16 2 2 = [16,0,0,0,16,0,2,0,2,0,0,0,7,0,0,0]"
  "ex_msg 3 2 3 = [16,0,0,0,3,0,2,0,3,0,0,0,7,0,0,0]" "ex_msg 3 18 3 = [16,0,0,0,3,0,18,0,3,0,0,0,7,0,0,0]"
  by (simp_all add: ex_msg_def le_bytes_numeral)

lemmas hdr_defs = hdr_len_def hdr_type_def hdr_flags_def hdr_seq_def hdr_pid_def rd_u16_def rd_u32_def

lemma nlmsgs_ex:
  "nlmsgs (ex_msg 16 2 2 @ ex_msg 16 2 3) = [ex_msg 16 2 2 @ ex_msg 16 2 3, ex_msg 16 2 3]"
  "nlmsgs (ex_msg 3 2 3) = [ex_msg 3 2 3]" "nlmsgs (ex_msg 3 18 3) = [ex_msg 3 18 3]" "nlmsgs (ex_msg 16 2 3) = [ex_msg 16 2 3]"
  by (simp_all add: nlmsgs_more nlmsgs_short ex_msg_eval hdr_defs align4_def)

lemma ex_for_us:
  "for_us ex_hnd (ex_msg 16 2 3)" "for_us ex_hnd (ex_msg 3 2 3)" "for_us ex_hnd (ex_msg 3 18 3)"
  "\<not> for_us ex_hnd (ex_msg 16 2 2 @ ex_msg 16 2 3)" "\<not> special (ex_msg 16 2 3)"
  "hdr_type (msg_of (ex_msg 3 2 3)) = NLMSG_DONE" "hdr_type (msg_of (ex_msg 3 18 3)) = NLMSG_DONE"
  by (simp_all add: for_us_def msg_of_def ex_msg_eval ex_hnd_def hdr_defs special_def NLMSG_DONE_def NLMSG_ERROR_def)

theorem nl_recv_dump_complete_witness:
  "map_option (\<lambda>(e, d, _). (e, d)) (nl_recv ex_hnd True
      \<lparr>e_rx = dgrams [(5, []), (0, ex_msg 16 2 2 @ ex_msg 16 2 3), (0, ex_msg 3 2 3)], e_tx = [], e_mem = []\<rparr>) =
    Some (0, [entry_of (ex_msg 16 2 3)])"
proof -
  have "kernel_msgs [(5, []), (0, ex_msg 16 2 2 @ ex_msg 16 2 3), (0, ex_msg 3 2 3)] =
      [ex_msg 16 2 2 @ ex_msg 16 2 3, ex_msg 16 2 3] @ ex_msg 3 2 3 # []"
    using nlmsgs_ex by (simp add: kernel_msgs_def ex_msg_def)
  from nl_recv_dump_complete [OF this, of ex_hnd "[]"] ex_for_us show ?thesis by simp
qed

text \<open>
  C24: An exchange sends the request at most \<open>NL_RETRY_COUNT\<close> (16) times, whatever the kernel
  answers.  When it reports success, every message of the answer belongs to this socket and
  to the last request sent, is no error message, and no message of a dump is marked as
  interrupted.
\<close>

theorem nl_exchange_bounded_retries:
  assumes "nl_exchange hnd src env = Some (e, d, hnd', env')"
  shows "\<exists>k \<le> 16. nl_seq hnd' = nl_seq hnd + word_of_nat k \<and> nl_pid hnd' = nl_pid hnd \<and>
    (e = 0 \<longrightarrow> 0 < k \<and> (\<forall>x \<in> set d. accepted hnd' x) \<and>
       (hdr_flags (m_data src) AND NLM_F_DUMP \<noteq> 0 \<longrightarrow> (\<forall>x \<in> set d. hdr_flags (m_data x) AND NLM_F_DUMP_INTR = 0)))"
  using nl_exchange_loop_inv [OF assms [unfolded nl_exchange_def]]
  by (auto simp: NL_RETRY_COUNT_def nl_check_interrupted_dump_def)

definition ex_req :: nlmsg where
  "ex_req = \<lparr>m_data = [16,0,0,0, 18,0, 1,3, 0,0,0,0, 0,0,0,0], m_start = 0, m_alloc = 16384\<rparr>"

definition ex_hnd2 :: nl_handle where
  "ex_hnd2 = \<lparr>nl_pid = 7, nl_seq = 2\<rparr>"

lemma ex_req_dump: "hdr_flags (m_data ex_req) AND NLM_F_DUMP \<noteq> 0"
  by (simp add: ex_req_def hdr_defs NLM_F_DUMP_def)

lemma nl_exchange_first_try:
  assumes "hdr_flags (m_data src) AND NLM_F_DUMP \<noteq> 0"
    and "map_option (\<lambda>(e, d, _). (e, d)) (nl_recv (hnd\<lparr>nl_seq := nl_seq hnd + 1\<rparr>) True env) = Some (0, d)"
    and "e_tx env = []" and "\<not> nl_check_interrupted_dump d"
  shows "map_option (\<lambda>(e, d, h, _). (e, d, h)) (nl_exchange hnd src env) = Some (0, d, hnd\<lparr>nl_seq := nl_seq hnd + 1\<rparr>)"
  using assms
  by (auto simp: nl_exchange_def NL_RETRY_COUNT_def numeral_eq_Suc nl_send_def Let_def
      ETIME_def EAGAIN_def EINTR_def)

text \<open>
  C35: A dump the kernel marks as interrupted only in its final \<open>NLMSG_DONE\<close> message is
  reported as complete: \<open>nl_recv\<close> does not keep that message, so the check for
  \<open>NLM_F_DUMP_INTR\<close> never sees it and the exchange succeeds on the first try instead of
  being repeated.
\<close>

theorem nl_exchange_misses_done_intr:
  assumes "kernel_msgs ds = pre @ fin # post" and "hnd1 = hnd\<lparr>nl_seq := nl_seq hnd + 1\<rparr>"
    and "\<forall>b \<in> set pre. for_us hnd1 b \<longrightarrow> \<not> special b \<and> hdr_flags (msg_of b) AND NLM_F_DUMP_INTR = 0"
    and "for_us hnd1 fin" and "hdr_type (msg_of fin) = NLMSG_DONE"
    and "hdr_flags (msg_of fin) AND NLM_F_DUMP_INTR \<noteq> 0"
    and "hdr_flags (m_data src) AND NLM_F_DUMP \<noteq> 0"
  shows "map_option (\<lambda>(e, d, h, _). (e, d, h)) (nl_exchange hnd src \<lparr>e_rx = dgrams ds, e_tx = [], e_mem = []\<rparr>) =
    Some (0, map entry_of (filter (for_us hnd1) pre), hnd1)"
proof -
  have "collect hnd1 True (kernel_msgs ds) [] = Ret 0 (map entry_of (filter (for_us hnd1) pre))"
    unfolding assms(1) using collect_dump_prefix [of pre hnd1] assms(3-5) by simp
  with nl_recv_loop_collect [of hnd1 True "[]" ds]
  have "map_option (\<lambda>(e, d, _). (e, d)) (nl_recv hnd1 True \<lparr>e_rx = dgrams ds, e_tx = [], e_mem = []\<rparr>) =
      Some (0, map entry_of (filter (for_us hnd1) pre))"
    by (auto simp: nl_recv_def outcome_def)
  moreover have "\<not> nl_check_interrupted_dump (map entry_of (filter (for_us hnd1) pre))"
    using assms(3) by (auto simp: nl_check_interrupted_dump_def entry_of_def)
  ultimately show ?thesis
    using nl_exchange_first_try [OF assms(7), of hnd "\<lparr>e_rx = dgrams ds, e_tx = [], e_mem = []\<rparr>"]
    unfolding assms(2) by simp
qed

lemma ex_hnd2_seq: "ex_hnd2\<lparr>nl_seq := nl_seq ex_hnd2 + 1\<rparr> = ex_hnd"
  by (simp add: ex_hnd2_def ex_hnd_def)

theorem nl_exchange_misses_done_intr_witness:
  "map_option (\<lambda>(e, d, h, _). (e, d, h)) (nl_exchange ex_hnd2 ex_req
      \<lparr>e_rx = dgrams [(0, ex_msg 16 2 3), (0, ex_msg 3 18 3)], e_tx = [], e_mem = []\<rparr>) =
    Some (0, [entry_of (ex_msg 16 2 3)], ex_hnd) \<and>
   hdr_flags (ex_msg 3 18 3) AND NLM_F_DUMP_INTR \<noteq> 0"
proof -
  have k: "kernel_msgs [(0, ex_msg 16 2 3), (0, ex_msg 3 18 3)] = [ex_msg 16 2 3] @ ex_msg 3 18 3 # []"
    using nlmsgs_ex by (simp add: kernel_msgs_def ex_msg_def)
  have f: "hdr_flags (msg_of (ex_msg 16 2 3)) AND NLM_F_DUMP_INTR = 0"
    "hdr_flags (msg_of (ex_msg 3 18 3)) AND NLM_F_DUMP_INTR \<noteq> 0" "hdr_flags (ex_msg 3 18 3) AND NLM_F_DUMP_INTR \<noteq> 0"
    by (simp_all add: ex_msg_eval msg_of_def hdr_defs NLM_F_DUMP_INTR_def)
  from nl_exchange_misses_done_intr [OF k ex_hnd2_seq [symmetric], of ex_req] ex_for_us ex_req_dump f
  show ?thesis by simp
qed

theorem nl_exchange_bounded_retries_witness:
  "\<exists>d hnd' env'. nl_exchange ex_hnd2 ex_req \<lparr>e_rx = [], e_tx = [], e_mem = []\<rparr> = Some (EINTR, d, hnd', env') \<and>
    (\<exists>k \<le> 16. nl_seq hnd' = 2 + word_of_nat k)"
proof -
  have "\<exists>d hnd' env'. nl_exchange ex_hnd2 ex_req \<lparr>e_rx = [], e_tx = [], e_mem = []\<rparr> = Some (EINTR, d, hnd', env')"
    by (simp add: nl_exchange_def NL_RETRY_COUNT_def numeral_eq_Suc nl_send_def nl_recv_def Let_def errno_defs)
  then obtain d hnd' env' where
    x: "nl_exchange ex_hnd2 ex_req \<lparr>e_rx = [], e_tx = [], e_mem = []\<rparr> = Some (EINTR, d, hnd', env')" by blast
  from nl_exchange_bounded_retries [OF x] x show ?thesis by (auto simp: ex_hnd2_def)
qed

text \<open>
  The link and address dumps ask for what they should: \<open>rtnlmsg_new\<close> builds a message of
  the requested type, flagged as a request and with the caller's flags, whose payload is the
  address family padded with zero bytes to the size of the family's header.
\<close>

lemma rtnlmsg_new_request:
  assumes "0 < sz" and "sz < 1000" and "ty < 65536" and "fl < 32768" and "family < 256"
  shows "\<exists>msg. rtnlmsg_new ty family fl sz [] = Some (Some msg, []) \<and>
    hdr_type (m_data msg) = ty \<and> hdr_flags (m_data msg) = (fl OR NLM_F_REQUEST) \<and>
    hdr_len (m_data msg) = 16 + sz \<and> drop 16 (m_data msg) = word_of_nat family # replicate (sz - 1) 0"
proof -
  obtain msg where m: "nlmsg_new ty fl [] = Some (Some msg, [])" "msg_ok msg" "length (m_data msg) = 16"
    "take 12 (drop 4 (m_data msg)) = take 12 (drop 4 (nlmsghdr ty (fl OR NLM_F_REQUEST)))"
    using nlmsg_new_ok by blast
  let ?d = "[word_of_nat family :: u8]"
  have p: "pad4 (m_data msg) = m_data msg" by (simp add: pad4_def m(3) align4_def)
  have "0 < unat (m_alloc msg)" "align4 (length (m_data msg)) + length ?d + (sz - 1) \<le> 2 ^ 31"
    using m assms(1,2) by (auto simp: msg_ok_def align4_def)
  from nlmsg_put_raw_ok [OF this] obtain al where
    "nlmsg_put_raw msg ?d (sz - 1) [] = Some (0, msg\<lparr>m_alloc := al, m_data := m_data msg @ ?d @ replicate (sz - 1) 0\<rparr>, [])"
    unfolding p by blast
  then have r: "rtnlmsg_new ty family fl sz [] =
      Some (Some (set_hdr_len (msg\<lparr>m_alloc := al, m_data := m_data msg @ ?d @ replicate (sz - 1) 0\<rparr>)), [])"
    using m(1) by (simp add: rtnlmsg_new_def nlmsg_put_padded_def)
  have f: "fl OR NLM_F_REQUEST < 65536" using assms(4) using or_one_eq [of fl] by (simp add: NLM_F_REQUEST_def)
  have t: "take 4 (drop 4 (m_data msg)) = le_bytes 2 ty @ le_bytes 2 (fl OR NLM_F_REQUEST)"
    using arg_cong [OF m(4), of "take 4"] by (simp add: nlmsghdr_def)
  have "take 2 (drop 4 (m_data msg)) = le_bytes 2 ty"
    using arg_cong [OF t, of "take 2"] by simp
  moreover have "take 2 (drop 6 (m_data msg)) = le_bytes 2 (fl OR NLM_F_REQUEST)"
    using arg_cong [OF t, of "drop 2"] by (simp add: drop_take)
  ultimately show ?thesis
    unfolding r using m(3) assms f
    by (auto simp: set_hdr_len_def hdr_type_def hdr_flags_def hdr_len_def rd_u16_def le_nat_le_bytes)
qed

end
