(* ===== verification/NlRetry.thy ===== *)
theory NlRetry
  imports Nlsock
begin

text \<open>
  Progress of \<open>nl_exchange\<close>: attempts that the kernel or a signal spoils are repeated, and
  answers to earlier requests that arrive late do not disturb later attempts.
\<close>

section \<open>Attempts\<close>

text \<open>
  What arrives during one attempt: some datagrams and then an event that ends the wait, or
  datagrams up to the one that holds the end of the dump.
\<close>

datatype attempt =
    CutShort "(u32 \<times> bytes) list" rx
  | Finished "(u32 \<times> bytes) list" bytes

fun events_of :: "attempt \<Rightarrow> rx list" where
  "events_of (CutShort ds ev) = dgrams ds @ [ev]"
| "events_of (Finished ds b) = dgrams ds @ [Datagram 0 b]"

definition ends_wait :: "rx \<Rightarrow> bool" where
  "ends_wait ev \<longleftrightarrow> ev \<in> {PollNothing, PollErr EINTR, PollErr EAGAIN, RecvErr EINTR, RecvErr EAGAIN}"

text \<open>Messages for this request among which the dump does not end.\<close>

definition running :: "nl_handle \<Rightarrow> bytes list \<Rightarrow> bool" where
  "running hnd bs \<longleftrightarrow> (\<forall>b \<in> set bs. for_us hnd b \<longrightarrow> \<not> special b)"

text \<open>The messages before the end of the dump.\<close>

definition dump_ends :: "nl_handle \<Rightarrow> (u32 \<times> bytes) list \<Rightarrow> bytes \<Rightarrow> bytes list \<Rightarrow> bool" where
  "dump_ends hnd ds b msgs \<longleftrightarrow> running hnd msgs \<and>
     (\<exists>pre fin post. nlmsgs (take 16384 b) = pre @ fin # post \<and> msgs = kernel_msgs ds @ pre \<and>
        for_us hnd fin \<and> hdr_type (msg_of fin) = NLMSG_DONE)"

definition interrupted :: "nl_handle \<Rightarrow> bytes list \<Rightarrow> bool" where
  "interrupted hnd msgs \<longleftrightarrow> (\<exists>b \<in> set msgs. for_us hnd b \<and> hdr_flags (msg_of b) AND NLM_F_DUMP_INTR \<noteq> 0)"

fun spoiled :: "nl_handle \<Rightarrow> attempt \<Rightarrow> bool" where
  "spoiled hnd (CutShort ds ev) \<longleftrightarrow> running hnd (kernel_msgs ds) \<and> ends_wait ev"
| "spoiled hnd (Finished ds b) \<longleftrightarrow> (\<exists>msgs. dump_ends hnd ds b msgs \<and> interrupted hnd msgs)"

text \<open>The handle in the \<open>k\<close>-th attempt.\<close>

definition nth_try :: "nat \<Rightarrow> nl_handle \<Rightarrow> nl_handle" where
  "nth_try k hnd = hnd\<lparr>nl_seq := nl_seq hnd + word_of_nat k\<rparr>"

lemma nth_try_Suc: "nth_try (Suc k) hnd = nth_try k (hnd\<lparr>nl_seq := nl_seq hnd + 1\<rparr>)"
  by (simp add: nth_try_def add.assoc)

section \<open>One attempt\<close>

lemma recv_running:
  "running hnd (kernel_msgs ds) \<Longrightarrow>
    nl_recv_loop hnd True dest (dgrams ds @ evs) [] =
    nl_recv_loop hnd True (dest @ map entry_of (filter (for_us hnd) (kernel_msgs ds))) evs []"
proof (induction ds arbitrary: dest)
  case Nil
  then show ?case by (simp add: dgrams_def kernel_msgs_def)
next
  case (Cons d ds)
  obtain src b where d: "d = (src, b)" by (cases d)
  show ?case
  proof (cases "src = 0")
    case True
    have r: "\<forall>b \<in> set (nlmsgs (take 16384 b)). for_us hnd b \<longrightarrow> \<not> special b" "running hnd (kernel_msgs ds)"
      using Cons.prems d True by (auto simp: running_def kernel_msgs_def)
    have "collect hnd True (nlmsgs (take 16384 b)) dest = Again (dest @ map entry_of (filter (for_us hnd) (nlmsgs (take 16384 b))))"
      using collect_dump_prefix [OF r(1), of "[]" dest] by simp
    with Cons.IH [OF r(2)] d True show ?thesis by (simp add: dgrams_def kernel_msgs_def nl_scan_collect)
  next
    case False
    with Cons d show ?thesis by (simp add: dgrams_def kernel_msgs_def)
  qed
qed

lemma recv_cut_short:
  assumes "running hnd (kernel_msgs ds)" and "ends_wait ev"
  shows "\<exists>e. nl_recv hnd True \<lparr>e_rx = dgrams ds @ ev # rest, e_tx = tx, e_mem = []\<rparr> = Some (e, [], \<lparr>e_rx = rest, e_tx = tx, e_mem = []\<rparr>) \<and>
    (e = ETIME \<or> e = EAGAIN \<or> e = EINTR)"
  using assms(2) recv_running [OF assms(1), of "[]" "ev # rest"]
  by (auto simp: nl_recv_def ends_wait_def)

lemma recv_dump_ends:
  assumes "dump_ends hnd ds b msgs"
  shows "nl_recv hnd True \<lparr>e_rx = dgrams ds @ Datagram 0 b # rest, e_tx = tx, e_mem = []\<rparr> =
    Some (0, map entry_of (filter (for_us hnd) msgs), \<lparr>e_rx = rest, e_tx = tx, e_mem = []\<rparr>)"
proof -
  from assms obtain pre fin post where p: "nlmsgs (take 16384 b) = pre @ fin # post" "msgs = kernel_msgs ds @ pre"
    "for_us hnd fin" "hdr_type (msg_of fin) = NLMSG_DONE" and r: "running hnd msgs" by (auto simp: dump_ends_def)
  then have r1: "running hnd (kernel_msgs ds)" and r2: "\<forall>b \<in> set pre. for_us hnd b \<longrightarrow> \<not> special b" by (auto simp: running_def)
  have "collect hnd True (nlmsgs (take 16384 b)) dest = Ret 0 (dest @ map entry_of (filter (for_us hnd) pre))" for dest
    unfolding p(1) using collect_dump_prefix [OF r2, of "fin # post"] p(3,4) by simp
  with recv_running [OF r1, of "[]" "Datagram 0 b # rest"] p(2) show ?thesis
    by (simp add: nl_recv_def nl_scan_collect)
qed

lemma interrupted_check: "nl_check_interrupted_dump (map entry_of (filter (for_us hnd) msgs)) = interrupted hnd msgs"
  by (auto simp: nl_check_interrupted_dump_def interrupted_def entry_of_def)

section \<open>Progress\<close>

lemma exchange_retries:
  assumes "\<forall>i < length as. spoiled (nth_try (Suc i) hnd) (as ! i)"
    and "dump_ends (nth_try (Suc (length as)) hnd) ds b msgs" and "\<not> interrupted (nth_try (Suc (length as)) hnd) msgs"
  shows "nl_exchange_loop (Suc (length as) + k) True hnd src
      \<lparr>e_rx = concat (map events_of as) @ dgrams ds @ Datagram 0 b # rest, e_tx = [], e_mem = []\<rparr> =
    Some (0, map entry_of (filter (for_us (nth_try (Suc (length as)) hnd)) msgs), nth_try (Suc (length as)) hnd,
      \<lparr>e_rx = rest, e_tx = [], e_mem = []\<rparr>)"
  using assms
proof (induction as arbitrary: hnd src)
  case Nil
  let ?h = "hnd\<lparr>nl_seq := nl_seq hnd + 1\<rparr>"
  have h: "nth_try (Suc 0) hnd = ?h" by (simp add: nth_try_def)
  from Nil.prems(2,3) recv_dump_ends [of ?h ds b msgs rest "[]"] interrupted_check [of ?h msgs] show ?case
    by (simp add: h nl_send_def Let_def ETIME_def EAGAIN_def EINTR_def)
next
  case (Cons a as)
  let ?h = "hnd\<lparr>nl_seq := nl_seq hnd + 1\<rparr>" and ?rx = "concat (map events_of as) @ dgrams ds @ Datagram 0 b # rest"
  have h: "nth_try (Suc 0) hnd = ?h" by (simp add: nth_try_def)
  have s: "spoiled ?h a" using Cons.prems(1) h by auto
  have "\<forall>i < length as. spoiled (nth_try (Suc i) ?h) (as ! i)"
    using Cons.prems(1) by (auto simp: nth_try_Suc [of "Suc _" hnd])
  from Cons.IH [OF this] Cons.prems(2,3) have IH: "nl_exchange_loop (Suc (length as) + k) True ?h src
      \<lparr>e_rx = ?rx, e_tx = [], e_mem = []\<rparr> =
    Some (0, map entry_of (filter (for_us (nth_try (Suc (Suc (length as))) hnd)) msgs), nth_try (Suc (Suc (length as))) hnd,
      \<lparr>e_rx = rest, e_tx = [], e_mem = []\<rparr>)" for src
    by (simp add: nth_try_Suc [of "Suc _" hnd])
  show ?case
  proof (cases a)
    case (CutShort ds' ev)
    with s recv_cut_short [of ?h ds' ev ?rx "[]"] obtain e where
      "nl_recv ?h True \<lparr>e_rx = dgrams ds' @ ev # ?rx, e_tx = [], e_mem = []\<rparr> = Some (e, [], \<lparr>e_rx = ?rx, e_tx = [], e_mem = []\<rparr>)"
      "e = ETIME \<or> e = EAGAIN \<or> e = EINTR" by auto
    with CutShort IH show ?thesis by (simp add: nl_send_def Let_def)
  next
    case (Finished ds' b')
    with s obtain ms where "dump_ends ?h ds' b' ms" "interrupted ?h ms" by auto
    with recv_dump_ends [OF this(1), of ?rx "[]"] interrupted_check [of ?h ms] Finished IH show ?thesis
      by (simp add: nl_send_def Let_def ETIME_def EAGAIN_def EINTR_def)
  qed
qed

text \<open>
  C23: Transient failures are survived: when fewer than 16 attempts at a dump are cut short (the
  wait times out or is interrupted by a signal) or end in a dump marked as interrupted, and
  the next one is complete, the exchange succeeds with exactly the messages of that attempt,
  also when answers to the earlier requests arrive late.
\<close>

theorem nl_exchange_progress:
  assumes "length as < NL_RETRY_COUNT" and "hdr_flags (m_data src) AND NLM_F_DUMP \<noteq> 0"
    and "\<forall>i < length as. spoiled (nth_try (Suc i) hnd) (as ! i)"
    and "hnd' = nth_try (Suc (length as)) hnd" and "dump_ends hnd' ds b msgs" and "\<not> interrupted hnd' msgs"
  shows "nl_exchange hnd src \<lparr>e_rx = concat (map events_of as) @ dgrams ds @ Datagram 0 b # rest, e_tx = [], e_mem = []\<rparr> =
    Some (0, map entry_of (filter (for_us hnd') msgs), hnd', \<lparr>e_rx = rest, e_tx = [], e_mem = []\<rparr>)"
proof -
  have "NL_RETRY_COUNT = Suc (length as) + (NL_RETRY_COUNT - Suc (length as))" using assms(1) by simp
  with exchange_retries [OF assms(3) assms(5,6) [unfolded assms(4)], of "NL_RETRY_COUNT - Suc (length as)" src rest] assms(2,4)
  show ?thesis unfolding nl_exchange_def by simp
qed

text \<open>A first attempt that times out; its answer arrives in the second one, before the new answer.\<close>

theorem nl_exchange_progress_witness:
  "nl_exchange \<lparr>nl_pid = 7, nl_seq = 1\<rparr> ex_req
     \<lparr>e_rx = [PollNothing, Datagram 0 (ex_msg 16 2 2 @ ex_msg 16 2 3), Datagram 0 (ex_msg 3 2 3)], e_tx = [], e_mem = []\<rparr> =
   Some (0, [entry_of (ex_msg 16 2 3)], ex_hnd, \<lparr>e_rx = [], e_tx = [], e_mem = []\<rparr>)"
proof -
  let ?as = "[CutShort [] PollNothing]" and ?hnd = "\<lparr>nl_pid = 7, nl_seq = 1\<rparr>"
  have h: "ex_hnd = nth_try (Suc (length ?as)) ?hnd" by (simp add: ex_hnd_def nth_try_def)
  have k: "kernel_msgs [(0, ex_msg 16 2 2 @ ex_msg 16 2 3)] = [ex_msg 16 2 2 @ ex_msg 16 2 3, ex_msg 16 2 3]"
    using nlmsgs_ex by (simp add: kernel_msgs_def ex_msg_def)
  have n: "nlmsgs (take 16384 (ex_msg 3 2 3)) = [] @ ex_msg 3 2 3 # []" using nlmsgs_ex by (simp add: ex_msg_def)
  have d: "dump_ends ex_hnd [(0, ex_msg 16 2 2 @ ex_msg 16 2 3)] (ex_msg 3 2 3) [ex_msg 16 2 2 @ ex_msg 16 2 3, ex_msg 16 2 3]"
    using n k ex_for_us by (auto simp: dump_ends_def running_def)
  have i: "\<not> interrupted ex_hnd [ex_msg 16 2 2 @ ex_msg 16 2 3, ex_msg 16 2 3]"
  proof -
    have "hdr_flags (msg_of (ex_msg 16 2 3)) AND NLM_F_DUMP_INTR = 0"
      by (simp add: ex_msg_eval msg_of_def hdr_defs NLM_F_DUMP_INTR_def)
    with ex_for_us(4) show ?thesis by (simp add: interrupted_def)
  qed
  have s: "\<forall>i < length ?as. spoiled (nth_try (Suc i) ?hnd) (?as ! i)"
    by (simp add: running_def kernel_msgs_def ends_wait_def)
  from nl_exchange_progress [OF _ ex_req_dump s h d i, of "[]"] ex_for_us(1,4) show ?thesis
    by (simp add: NL_RETRY_COUNT_def dgrams_def)
qed

end
