(* ===== verification/Addr.thy ===== *)
theory Addr
  imports Nlmsg
begin

text \<open>
  Network and link-layer addresses of \<open>addr.c\<close> and \<open>addr.h\<close>.  The text form of an IP
  address comes from the C library (\<open>inet_ntop\<close>, \<open>inet_pton\<close>), which the definitions take
  as arguments: \<open>ntop family raw\<close> is the text or the error number, \<open>pton family text\<close> the
  raw bytes.
\<close>

definition AF_UNSPEC :: int where "AF_UNSPEC = 0"
definition AF_INET :: int where "AF_INET = 2"
definition AF_INET6 :: int where "AF_INET6 = 10"

type_synonym ntop = "int \<Rightarrow> bytes \<Rightarrow> int + string"
type_synonym pton = "int \<Rightarrow> string \<Rightarrow> bytes option"

record addr =
  ad_family :: int
  ad_prefixlen :: int
  ad_formatted :: "string cptr"
  ad_raw :: "bytes cptr"

record mac_addr =
  mac_len :: int
  mac_raw :: "bytes cptr"
  mac_formatted :: "string cptr"

text \<open>A zeroed \<open>struct addr\<close>, as \<open>calloc\<close> leaves it.\<close>

definition addr0 :: addr where
  "addr0 = \<lparr>ad_family = 0, ad_prefixlen = 0, ad_formatted = NullPtr, ad_raw = NullPtr\<rparr>"

definition addr_len :: "int \<Rightarrow> nat" where
  "addr_len family = (if family = AF_INET then 4 else 16)"

definition addr_init :: "ntop \<Rightarrow> addr \<Rightarrow> int \<Rightarrow> int \<Rightarrow> bytes \<Rightarrow> mem \<Rightarrow> int \<times> addr \<times> mem" where
  "addr_init ntop dest family prefixlen raw m =
     (let len = addr_len family;
          dest = dest\<lparr>ad_family := family, ad_prefixlen := prefixlen\<rparr>;
          (ok, m) = alloc m in
      if \<not> ok then (ENOMEM, dest\<lparr>ad_raw := NullPtr\<rparr>, m)
      else let dest = dest\<lparr>ad_raw := Ptr (take len raw)\<rparr> in
        case ntop family raw of
          Inl errno \<Rightarrow> (errno, dest, m)
        | Inr s \<Rightarrow>
            let buf = fit 64 s;
                buf = (if prefixlen \<ge> 0 then buf @ fit (64 - length buf) (CHR ''/'' # dec_int prefixlen) else buf);
                (ok, m) = alloc m in
            if \<not> ok then (ENOMEM, dest\<lparr>ad_formatted := NullPtr, ad_raw := BadPtr\<rparr>, m)
            else (0, dest\<lparr>ad_formatted := Ptr buf\<rparr>, m))"

text \<open>\<open>struct ifaddrmsg\<close>: family, prefix length and interface index.\<close>

record ifaddrmsg =
  ifa_family :: int
  ifa_prefixlen :: int
  ifa_index :: u32

definition addr_init_netlink :: "ntop \<Rightarrow> addr \<Rightarrow> ifaddrmsg \<Rightarrow> nlattr \<Rightarrow> mem \<Rightarrow> int \<times> addr \<times> mem" where
  "addr_init_netlink ntop dest ifa nla m = addr_init ntop dest (ifa_family ifa) (ifa_prefixlen ifa) (nla_read nla) m"

definition addr_parse_raw :: "pton \<Rightarrow> string \<Rightarrow> int \<times> bytes" where
  "addr_parse_raw pton src =
     (let af = (if CHR '':'' \<in> set src then AF_INET6 else AF_INET) in
      case pton af src of None \<Rightarrow> (-1, []) | Some raw \<Rightarrow> (af, raw))"

definition addr_max_prefix_len :: "int \<Rightarrow> int" where
  "addr_max_prefix_len ai_family = (if ai_family = AF_INET then 32 else if ai_family = AF_INET6 then 128 else 0)"

definition addr_is_zero :: "addr \<Rightarrow> bool option" where
  "addr_is_zero a = map_option (\<lambda>raw. list_all (\<lambda>b. b = 0) (take (addr_len (ad_family a)) raw)) (deref (ad_raw a))"

definition addr_destruct :: "addr \<Rightarrow> addr option" where
  "addr_destruct a =
     (if ad_raw a \<noteq> NullPtr then do {
        _ \<leftarrow> free_ptr (ad_raw a);
        _ \<leftarrow> free_ptr (ad_formatted a);
        Some (a\<lparr>ad_raw := NullPtr, ad_formatted := NullPtr\<rparr>) }
      else Some a)"

definition mac_addr_init :: mac_addr where
  "mac_addr_init = \<lparr>mac_len = 0, mac_raw = NullPtr, mac_formatted = NullPtr\<rparr>"

text \<open>
  The formatting loop of \<open>mac_addr_fill_netlink\<close>: byte \<open>i\<close> is written at offset \<open>3 * i\<close> with
  room for three characters and the NUL, the last one for two; each write starts where the
  previous one put its NUL.  \<open>None\<close> is the error exit for a write of an unexpected length.
\<close>

definition mac_piece :: "u8 \<Rightarrow> string" where
  "mac_piece b = hex2 b @ '':''"

fun mac_format :: "bytes \<Rightarrow> string option" where
  "mac_format [] = Some []"
| "mac_format (b # bs) =
     (if length (mac_piece b) \<noteq> 3 then None
      else map_option (\<lambda>s. fit (if bs = [] then 3 else 4) (mac_piece b) @ s) (mac_format bs))"

text \<open>
  A result \<open>None\<close> is a write through a NULL pointer.  The second allocation is never
  checked (the code tests \<open>raw\<close> again), and memory of \<open>malloc (0)\<close> holds no string.
\<close>

definition mac_addr_fill_netlink :: "mac_addr \<Rightarrow> nlattr \<Rightarrow> mem \<Rightarrow> (int \<times> mac_addr \<times> mem) option" where
  "mac_addr_fill_netlink a nla m =
     (let data = nla_read nla;
          a = a\<lparr>mac_len := int (nla_len nla)\<rparr>;
          (ok, m) = alloc m in
      if \<not> ok then Some (ENOMEM, a\<lparr>mac_raw := NullPtr\<rparr>, m)
      else let (ok, m) = alloc m; a = a\<lparr>mac_raw := Ptr data\<rparr> in
        if \<not> ok then (if data = [] then Some (0, a\<lparr>mac_formatted := NullPtr\<rparr>, m) else None)
        else case mac_format data of
            Some s \<Rightarrow> Some (0, a\<lparr>mac_formatted := (if data = [] then BadPtr else Ptr s)\<rparr>, m)
          | None \<Rightarrow> Some (ENOENT, a\<lparr>mac_formatted := NullPtr, mac_raw := NullPtr, mac_len := 0\<rparr>, m))"

definition mac_addr_destruct :: "mac_addr \<Rightarrow> mac_addr option" where
  "mac_addr_destruct a = do {
     r \<leftarrow> free_ptr (mac_raw a);
     f \<leftarrow> free_ptr (mac_formatted a);
     Some (a\<lparr>mac_raw := r, mac_formatted := f\<rparr>) }"

section \<open>Lemmas\<close>

text \<open>The text form of a link-layer address: two hexadecimal digits per byte, colons between.\<close>

fun mac_text :: "bytes \<Rightarrow> string" where
  "mac_text [] = []"
| "mac_text [b] = hex2 b"
| "mac_text (b # bs) = hex2 b @ '':'' @ mac_text bs"

lemma length_hex2 [simp]: "length (hex2 b) = 2"
  by (simp add: hex2_def)

lemma mac_format_text: "mac_format bs = Some (mac_text bs)"
  by (induction bs rule: mac_text.induct) (auto simp: mac_piece_def fit_def)

lemma length_mac_text: "bs \<noteq> [] \<Longrightarrow> length (mac_text bs) = 3 * length bs - 1"
  by (induction bs rule: mac_text.induct) auto

lemma addr_is_zero_init:
  assumes "addr_init ntop d family p raw m = (0, a, m')"
  shows "addr_is_zero a = Some (list_all (\<lambda>b. b = 0) (take (addr_len family) raw))"
  using assms by (auto simp: addr_init_def addr_is_zero_def Let_def ENOMEM_def split: prod.splits if_splits sum.splits)

section \<open>Properties\<close>

text \<open>
  A successful \<open>addr_init\<close> stores the family, the prefix length and the 4 or 16 raw bytes,
  and as text the library's form of the address followed, for a prefix length that is not
  negative, by a slash and the prefix length; the text fits the 64-byte buffer whenever the
  library's part has at most 45 characters (the longest IPv6 form) and the prefix length is
  that of an address.
\<close>

lemma addr_init_success:
  assumes "ntop family raw = Inr s" and "length s \<le> 45" and "prefixlen \<le> 128"
  shows "addr_init ntop d family prefixlen raw [] =
    (0, \<lparr>ad_family = family, ad_prefixlen = prefixlen,
         ad_formatted = Ptr (s @ (if 0 \<le> prefixlen then CHR ''/'' # dec (nat prefixlen) else [])),
         ad_raw = Ptr (take (addr_len family) raw)\<rparr>, [])"
proof -
  have "length (dec (nat prefixlen)) \<le> 3"
    unfolding dec_def by (rule length_radix10) (use assms(3) in auto)
  with assms(2) have "Suc (length (dec (nat prefixlen))) < 64 - length s" by simp
  with assms(1,2) show ?thesis
    by (auto simp: addr_init_def Let_def fit_id dec_int_def)
qed

text \<open>
  With enough memory, a link-layer address attribute of at least one byte is stored raw
  and as text: two hexadecimal digits per byte separated by colons, \<open>3 * len - 1\<close>
  characters, which with the terminating NUL exactly fill the \<open>3 * len\<close> bytes allocated.
\<close>

lemma mac_addr_fill_text:
  assumes "a_data nla \<noteq> []"
  shows "mac_addr_fill_netlink a nla [] =
      Some (0, \<lparr>mac_len = int (length (a_data nla)), mac_raw = Ptr (a_data nla), mac_formatted = Ptr (mac_text (a_data nla))\<rparr>, []) \<and>
    length (mac_text (a_data nla)) + 1 = 3 * length (a_data nla)"
proof -
  from assms have "0 < length (a_data nla)" by simp
  then have "length (mac_text (a_data nla)) + 1 = 3 * length (a_data nla)"
    using length_mac_text [OF assms] by linarith
  with assms show ?thesis
    by (simp add: mac_addr_fill_netlink_def nla_read_def nla_len_def mac_format_text Let_def)
qed

text \<open>
  When the second of its two allocations fails, \<open>mac_addr_fill_netlink\<close> does not return
  \<open>ENOMEM\<close>: it checks the first pointer again and writes through NULL for every address of
  at least one byte.
\<close>

lemma mac_addr_fill_unchecked_alloc:
  assumes "a_data nla \<noteq> []"
  shows "mac_addr_fill_netlink a nla [True, False] = None \<and>
    (\<exists>a' m. mac_addr_fill_netlink a nla [False] = Some (ENOMEM, a', m))"
  using assms by (simp add: mac_addr_fill_netlink_def nla_read_def Let_def)

end
