(* ===== verification/IfModel.thy ===== *)
theory IfModel
  imports Addr
begin

text \<open>
  The program's data: interfaces (\<open>if.h\<close>), network name spaces (\<open>netns.h\<close>), routes
  (\<open>route.h\<close>), labels (\<open>label.c\<close>), and the state the later phases work on, an object store
  for the interfaces and name spaces with the list of name spaces.  An interface or name
  space is named by its address (\<open>ifp\<close>, \<open>nsp\<close>), a pointer to one that may be NULL is an
  option.  The lists embedded in these structures are lists of addresses; the pointer
  operations behind them are those of \<open>ListH\<close>.
\<close>

section \<open>Data\<close>

type_synonym ifp = nat
type_synonym nsp = nat

definition IF_LOOPBACK :: u32 where "IF_LOOPBACK = 1"
definition IF_UP :: u32 where "IF_UP = 2"
definition IF_HAS_LINK :: u32 where "IF_HAS_LINK = 4"
definition IF_INTERNAL :: u32 where "IF_INTERNAL = 8"
definition IF_LINK_WEAK :: u32 where "IF_LINK_WEAK = 16"
definition IF_PASSIVE_SLAVE :: u32 where "IF_PASSIVE_SLAVE = 32"

definition IF_PROP_STATE :: int where "IF_PROP_STATE = 1"
definition IF_PROP_CONFIG :: int where "IF_PROP_CONFIG = 2"

lemmas if_flag_defs = IF_LOOPBACK_def IF_UP_def IF_HAS_LINK_def IF_INTERNAL_def IF_LINK_WEAK_def IF_PASSIVE_SLAVE_def

record label_property =
  lp_type :: int
  lp_key :: string
  lp_value :: string

record if_addr =
  ia_addr :: addr
  ia_peer :: addr

record if_xdp =
  xdp_mode :: string
  xdp_prog_id :: u32

text \<open>
  The driver's private structures (\<open>handler_private\<close>).  Those of gre, vti and ipip hold only
  the local address.
\<close>

record bond_private =
  bp_mode :: u8
  bp_active_slave_index :: u32
  bp_active_slave_name :: "string option"

record vxlan_priv =
  vx_local :: "addr option"
  vx_group :: "addr option"
  vx_flags :: int

datatype hpriv =
    BondPriv bond_private
  | TeamPriv "string option option"
  | VlanPriv u32
  | TunPriv addr
  | VxlanPriv vxlan_priv
  | GenevePriv int

record if_entry =
  i_ns :: nsp
  i_internal_ns :: "string option"
  i_index :: u32
  i_flags :: u32
  i_mtu :: int
  i_name :: string
  i_driver :: "string option"
  i_sub_driver :: "string option"
  i_properties :: "label_property list"
  i_mac_addr :: mac_addr
  i_addr :: "if_addr list"
  i_xdp :: "if_xdp list"
  i_master_index :: u32
  i_master :: "ifp option"
  i_active_slave :: "ifp option"
  i_link_index :: u32
  i_link_netnsid :: int
  i_link :: "ifp option"
  i_peer_index :: u32
  i_peer_netnsid :: int
  i_peer :: "ifp option"
  i_link_net :: "nsp option"
  i_pci_path :: "string option"
  i_pci_physfn_path :: "string option"
  i_physfn :: "ifp option"
  i_edge_label :: "string option"
  i_private :: "hpriv cptr"
  i_warnings :: int
  i_rev_master :: "ifp list"
  i_rev_link :: "ifp list"

record rtmetric =
  rm_type :: int
  rm_value :: int

record route =
  r_iif :: "ifp option"
  r_oif :: "ifp option"
  r_metrics :: "rtmetric list"
  r_dst :: addr
  r_gw :: addr
  r_prefsrc :: addr
  r_src :: addr
  r_iifindex :: u32
  r_oifindex :: u32
  r_priority :: u32
  r_table_id :: u8
  r_tos :: u8
  r_protocol :: u8
  r_type :: u8
  r_family :: u8
  r_scope :: u8

record rtable =
  rt_id :: int
  rt_routes :: "route list"

record netns_id =
  id_ns :: nsp
  id_id :: int

record netns_entry =
  n_ifaces :: "ifp list"
  n_warnings :: "string list"
  n_kernel_id :: int
  n_name :: "string option"
  n_pid :: int
  n_fd :: int
  n_ids :: "netns_id list"
  n_rtables :: "rtable list"

text \<open>
  What Open vSwitch's database says (\<open>openvswitch.c\<close>): interfaces in ports in bridges.  The
  back pointers are the nesting; \<open>ob_system\<close> is the port named like its bridge, which is not
  on the bridge's list.  \<open>op_trunks\<close> is the array allocated for a port with trunks.
\<close>

record ovs_if =
  oi_link :: "ifp option"
  oi_name :: string
  oi_type :: string
  oi_local_ip :: "string option"
  oi_remote_ip :: "string option"
  oi_key :: "string option"
  oi_peer :: "string option"
  oi_hw_dev :: "string option"

record ovs_port =
  op_link :: "ifp option"
  op_name :: string
  op_ifaces :: "ovs_if list"
  op_iface_count :: int
  op_tag :: u32
  op_trunks_count :: u32
  op_trunks :: "u32 list cptr"
  op_bond_mode :: "string option"

datatype ovs_dp_type = OVS_DP_TYPE_SYSTEM | OVS_DP_TYPE_NETDEV

record ovs_bridge =
  ob_name :: string
  ob_dp_type :: ovs_dp_type
  ob_ports :: "ovs_port list"
  ob_system :: "ovs_port option"

text \<open>The handler's static variables.\<close>

record ovs_state =
  os_bridges :: "ovs_bridge list"
  os_vport_genl_id :: u32

text \<open>Until interfaces are linked, no interface of the database has one.\<close>

definition bridge_unlinked :: "ovs_bridge \<Rightarrow> bool" where
  "bridge_unlinked br \<longleftrightarrow> (\<forall>p \<in> set (ob_ports br) \<union> set_option (ob_system br). \<forall>i \<in> set (op_ifaces p). oi_link i = None)"

definition ovs_unlinked :: "ovs_state \<Rightarrow> bool" where
  "ovs_unlinked s \<longleftrightarrow> list_all bridge_unlinked (os_bridges s)"

definition ovs_state0 :: ovs_state where
  "ovs_state0 = \<lparr>os_bridges = [], os_vport_genl_id = 0\<rparr>"

record world =
  w_if :: "ifp \<Rightarrow> if_entry"
  w_ns :: "nsp \<Rightarrow> netns_entry"
  w_list :: "nsp list"
  w_next :: nat
  w_mem :: mem
  w_ovs :: ovs_state

type_synonym wact = "world act"

definition upd_if :: "ifp \<Rightarrow> (if_entry \<Rightarrow> if_entry) \<Rightarrow> world \<Rightarrow> world" where
  "upd_if e f w = w\<lparr>w_if := (w_if w)(e := f (w_if w e))\<rparr>"

definition upd_ns :: "nsp \<Rightarrow> (netns_entry \<Rightarrow> netns_entry) \<Rightarrow> world \<Rightarrow> world" where
  "upd_ns n f w = w\<lparr>w_ns := (w_ns w)(n := f (w_ns w n))\<rparr>"

text \<open>All interfaces, in the order of \<open>list_for_each\<close> over the name spaces and their interfaces.\<close>

definition all_ifs :: "world \<Rightarrow> ifp list" where
  "all_ifs w = concat (map (\<lambda>n. n_ifaces (w_ns w n)) (w_list w))"

lemma upd_if_simps [simp]:
  "w_if (upd_if e f w) = (w_if w)(e := f (w_if w e))"
  "w_ns (upd_if e f w) = w_ns w"
  "w_list (upd_if e f w) = w_list w"
  "w_next (upd_if e f w) = w_next w"
  "w_mem (upd_if e f w) = w_mem w"
  "w_ovs (upd_if e f w) = w_ovs w"
  by (simp_all add: upd_if_def)

lemma upd_ns_simps [simp]:
  "w_ns (upd_ns n g w) = (w_ns w)(n := g (w_ns w n))"
  "w_if (upd_ns n g w) = w_if w"
  "w_list (upd_ns n g w) = w_list w"
  "w_next (upd_ns n g w) = w_next w"
  "w_mem (upd_ns n g w) = w_mem w"
  "w_ovs (upd_ns n g w) = w_ovs w"
  by (simp_all add: upd_ns_def)

lemma all_ifs_upd_if [simp]: "all_ifs (upd_if e f w) = all_ifs w"
  by (simp add: all_ifs_def)

section \<open>Allocation in a world\<close>

text \<open>\<open>if_alloc f g\<close>: allocate, go on with \<open>f\<close> when it worked and with \<open>g\<close> when not.\<close>

definition if_alloc :: "wact \<Rightarrow> wact \<Rightarrow> wact" where
  "if_alloc f g w = (let (ok, m) = alloc (w_mem w); w = w\<lparr>w_mem := m\<rparr> in if ok then f w else g w)"

text \<open>A call of the library part that only allocates and returns a value.\<close>

definition mem_call :: "(mem \<Rightarrow> 'a \<times> mem) \<Rightarrow> ('a \<Rightarrow> wact) \<Rightarrow> wact" where
  "mem_call f k w = (let (x, m) = f (w_mem w) in k x (w\<lparr>w_mem := m\<rparr>))"

section \<open>Labels and warnings\<close>

definition label_add :: "string list \<Rightarrow> string \<Rightarrow> mem \<Rightarrow> (int \<times> string list) \<times> mem" where
  "label_add labels txt m =
     (let (ok, m) = alloc m in
      if \<not> ok then ((ENOMEM, labels), m)
      else let (ok, m) = alloc m in
        if \<not> ok then ((ENOMEM, labels), m) else ((0, labels @ [txt]), m))"

definition label_add_property ::
    "label_property list \<Rightarrow> int \<Rightarrow> string \<Rightarrow> string \<Rightarrow> mem \<Rightarrow> (int \<times> label_property list) \<times> mem" where
  "label_add_property properties type key val m =
     (let (ok, m) = alloc m in
      if \<not> ok then ((ENOMEM, properties), m)
      else let (ok, m) = alloc m in
        if \<not> ok then ((ENOMEM, properties), m)
        else let (ok, m) = alloc m in
          if \<not> ok then ((ENOMEM, properties), m)
          else ((0, properties @ [\<lparr>lp_type = type, lp_key = key, lp_value = val\<rparr>]), m))"

definition label_prop_match_mask :: "int \<Rightarrow> int \<Rightarrow> bool" where
  "label_prop_match_mask type msk \<longleftrightarrow> and type msk > 0"

definition if_add_prop :: "int \<Rightarrow> ifp \<Rightarrow> string \<Rightarrow> string \<Rightarrow> wact" where
  "if_add_prop type e key val = reading (\<lambda>w.
     mem_call (label_add_property (i_properties (w_if w e)) type key val)
       (\<lambda>(err, ps). andthen (assign (upd_if e (\<lambda>i. i\<lparr>i_properties := ps\<rparr>))) (return_err err)))"

definition if_add_state :: "ifp \<Rightarrow> string \<Rightarrow> string \<Rightarrow> wact" where
  "if_add_state = if_add_prop IF_PROP_STATE"

definition if_add_config :: "ifp \<Rightarrow> string \<Rightarrow> string \<Rightarrow> wact" where
  "if_add_config = if_add_prop IF_PROP_CONFIG"

text \<open>
  The identifiers of \<open>utils.c\<close>, with the sizes of their static buffers (\<open>IFNAMSIZ\<close> is 16,
  \<open>NAME_MAX\<close> is 255).
\<close>

definition ifstr :: "world \<Rightarrow> ifp \<Rightarrow> string" where
  "ifstr w e =
     fit (16 + 255 + 2)
       (case n_name (w_ns w (i_ns (w_if w e))) of
          None \<Rightarrow> ''/'' @ i_name (w_if w e)
        | Some name \<Rightarrow> name @ ''/'' @ i_name (w_if w e))"

definition nsid :: "world \<Rightarrow> nsp \<Rightarrow> string" where
  "nsid w n = (case n_name (w_ns w n) of None \<Rightarrow> ''/'' | Some name \<Rightarrow> fit (256 + 1) (name @ ''/''))"

definition ifid :: "world \<Rightarrow> ifp \<Rightarrow> string" where
  "ifid w e =
     (let ins = (case i_internal_ns (w_if w e) of None \<Rightarrow> [] | Some s \<Rightarrow> s);
          ns = nsid w (i_ns (w_if w e)) in
      fit (255 + 256 + 16 + 1 + 1) (ns @ ins @ ''/'' @ i_name (w_if w e)))"

definition ifdrv :: "world \<Rightarrow> ifp \<Rightarrow> string" where
  "ifdrv w e =
     (case i_driver (w_if w e) of
        None \<Rightarrow> []
      | Some d \<Rightarrow> (case i_sub_driver (w_if w e) of None \<Rightarrow> d | Some s \<Rightarrow> fit 256 (d @ ''/'' @ s)))"

definition rtid :: "rtable \<Rightarrow> string" where
  "rtid rt = fit 32 (dec (nat (rt_id rt mod 2 ^ 32)))"

definition if_add_warning :: "ifp \<Rightarrow> string \<Rightarrow> wact" where
  "if_add_warning e warn =
     andthen (assign (upd_if e (\<lambda>i. i\<lparr>i_warnings := i_warnings i + 1\<rparr>)))
       (if_alloc
          (reading (\<lambda>w. let n = i_ns (w_if w e) in
             mem_call (label_add (n_warnings (w_ns w n)) (ifstr w e @ '': '' @ warn))
               (\<lambda>(err, ls). andthen (assign (upd_ns n (\<lambda>s. s\<lparr>n_warnings := ls\<rparr>))) (return_err err))))
          (return_err ENOMEM))"

text \<open>\<open>if_create\<close>: a zeroed structure with empty lists and unset name space identifiers.\<close>

definition if_entry0 :: if_entry where
  "if_entry0 = \<lparr>i_ns = 0, i_internal_ns = None, i_index = 0, i_flags = 0, i_mtu = 0, i_name = [],
     i_driver = None, i_sub_driver = None, i_properties = [], i_mac_addr = mac_addr_init, i_addr = [], i_xdp = [],
     i_master_index = 0, i_master = None, i_active_slave = None, i_link_index = 0, i_link_netnsid = -1, i_link = None,
     i_peer_index = 0, i_peer_netnsid = -1, i_peer = None, i_link_net = None, i_pci_path = None,
     i_pci_physfn_path = None, i_physfn = None, i_edge_label = None, i_private = NullPtr, i_warnings = 0,
     i_rev_master = [], i_rev_link = []\<rparr>"

definition if_create :: "world \<Rightarrow> ifp option \<times> world" where
  "if_create w =
     (let (ok, m) = alloc (w_mem w); w = w\<lparr>w_mem := m\<rparr> in
      if \<not> ok then (None, w)
      else let e = w_next w in (Some e, w\<lparr>w_if := (w_if w)(e := if_entry0), w_next := e + 1\<rparr>))"

section \<open>Lemmas\<close>

lemma keeps_if_alloc [keeps_intros]:
  assumes m: "\<And>w m. P w \<Longrightarrow> P (w\<lparr>w_mem := m\<rparr>)" and f: "keeps P f" and g: "keeps P g"
  shows "keeps P (if_alloc f g)"
proof (rule keepsI)
  fix w e w'
  assume p: "P w" and r: "if_alloc f g w = Some (e, w')"
  obtain ok m' where a: "alloc (w_mem w) = (ok, m')" by (cases "alloc (w_mem w)")
  have p': "P (w\<lparr>w_mem := m'\<rparr>)" by (rule m [OF p])
  show "P w'"
  proof (cases ok)
    case True
    with r a have "f (w\<lparr>w_mem := m'\<rparr>) = Some (e, w')" by (simp add: if_alloc_def)
    with f p' show ?thesis by (rule keepsD)
  next
    case False
    with r a have "g (w\<lparr>w_mem := m'\<rparr>) = Some (e, w')" by (simp add: if_alloc_def)
    with g p' show ?thesis by (rule keepsD)
  qed
qed

lemma keeps_mem_call [keeps_intros]:
  assumes m: "\<And>w m. P w \<Longrightarrow> P (w\<lparr>w_mem := m\<rparr>)" and k: "\<And>x. keeps P (k x)"
  shows "keeps P (mem_call f k)"
proof (rule keepsI)
  fix w e w'
  assume p: "P w" and r: "mem_call f k w = Some (e, w')"
  obtain x m' where a: "f (w_mem w) = (x, m')" by (cases "f (w_mem w)")
  from r a have "k x (w\<lparr>w_mem := m'\<rparr>) = Some (e, w')" by (simp add: mem_call_def)
  with k m [OF p] show "P w'" by (rule keepsD)
qed

text \<open>
  \<open>same_links\<close>: two worlds have the same name spaces with the same interfaces in them, and these agree in
  their relations, addresses, driver, name space, index, name and internal name space (\<open>if_links\<close>).  A property that only depends on this
  (\<open>on_links\<close>) is kept by labels, warnings, allocation and the handlers' own bookkeeping.
\<close>

definition if_links ::
    "if_entry \<Rightarrow> (ifp option \<times> ifp option \<times> ifp option \<times> ifp option \<times> ifp list \<times> ifp list) \<times> if_addr list \<times> string option \<times> nsp \<times> u32 \<times> string \<times> string option" where
  "if_links i = ((i_master i, i_link i, i_peer i, i_physfn i, i_rev_master i, i_rev_link i), i_addr i, i_driver i, i_ns i, i_index i, i_name i, i_internal_ns i)"

definition if_relations :: "if_entry \<Rightarrow> ifp option \<times> ifp option \<times> ifp option \<times> ifp option \<times> ifp list \<times> ifp list" where
  "if_relations i = (i_master i, i_link i, i_peer i, i_physfn i, i_rev_master i, i_rev_link i)"

definition same_links :: "world \<Rightarrow> world \<Rightarrow> bool" where
  "same_links v w \<longleftrightarrow> (\<forall>e. if_links (w_if v e) = if_links (w_if w e)) \<and>
     (\<forall>n. n_ifaces (w_ns v n) = n_ifaces (w_ns w n)) \<and> w_list v = w_list w \<and> w_next v = w_next w \<and> w_ovs v = w_ovs w"

definition on_links :: "(world \<Rightarrow> bool) \<Rightarrow> bool" where
  "on_links P \<longleftrightarrow> (\<forall>v w. P v \<longrightarrow> same_links v w \<longrightarrow> P w)"

lemma on_linksD: "on_links P \<Longrightarrow> P v \<Longrightarrow> same_links v w \<Longrightarrow> P w"
  unfolding on_links_def by iprover

lemma same_links_mem: "same_links w (w\<lparr>w_mem := m\<rparr>)"
  by (simp add: same_links_def)

lemma on_links_mem: "on_links P \<Longrightarrow> P w \<Longrightarrow> P (w\<lparr>w_mem := m\<rparr>)"
  by (rule on_linksD) (auto intro: same_links_mem)

lemma on_links_upd_if: "on_links P \<Longrightarrow> (\<And>i. if_links (f i) = if_links i) \<Longrightarrow> P w \<Longrightarrow> P (upd_if e f w)"
  by (rule on_linksD) (auto simp: same_links_def)

lemma on_links_upd_ns: "on_links P \<Longrightarrow> (\<And>s. n_ifaces (f s) = n_ifaces s) \<Longrightarrow> P w \<Longrightarrow> P (upd_ns n f w)"
  by (rule on_linksD) (auto simp: same_links_def)

lemma keeps_if_add_prop [keeps_intros]:
  assumes "on_links P"
  shows "keeps P (if_add_prop type e key val)"
  unfolding if_add_prop_def
  by (rule keeps_reading, rule keeps_mem_call, rule on_links_mem [OF assms], assumption, clarsimp split: prod.splits)
    (intro allI impI keeps_andthen keeps_return_err keeps_assign on_links_upd_if [OF assms]; simp add: if_links_def)

lemma keeps_if_add_config [keeps_intros]: "on_links P \<Longrightarrow> keeps P (if_add_config e key val)"
  and keeps_if_add_state [keeps_intros]: "on_links P \<Longrightarrow> keeps P (if_add_state e key val)"
  by (simp_all add: if_add_config_def if_add_state_def keeps_if_add_prop)

lemma keeps_if_add_warning [keeps_intros]:
  assumes "on_links P"
  shows "keeps P (if_add_warning e warn)"
  unfolding if_add_warning_def Let_def
  by (intro keeps_intros keeps_reading keeps_assign on_links_mem [OF assms] on_links_upd_if [OF assms])
    (auto simp: if_links_def intro!: keeps_intros keeps_assign on_links_upd_ns [OF assms])


text \<open>Adding a property always returns, and changes only the property list and the memory.\<close>

lemma if_add_prop_total:
  "\<exists>err ps m. if_add_prop type e key val w = Some (err, upd_if e (\<lambda>i. i\<lparr>i_properties := ps\<rparr>) (w\<lparr>w_mem := m\<rparr>))"
  by (auto simp: if_add_prop_def reading_def mem_call_def andthen_def assign_def return_err_def split: prod.splits)

lemma ignoring_prop_total:
  "\<exists>ps m. ignoring (if_add_prop type e key val) k w = k (upd_if e (\<lambda>i. i\<lparr>i_properties := ps\<rparr>) (w\<lparr>w_mem := m\<rparr>))"
proof -
  from if_add_prop_total [of type e key val w] obtain err ps m where
    "if_add_prop type e key val w = Some (err, upd_if e (\<lambda>i. i\<lparr>i_properties := ps\<rparr>) (w\<lparr>w_mem := m\<rparr>))" by blast
  then show ?thesis by (intro exI [of _ ps] exI [of _ m]) (simp add: ignoring_def)
qed

section \<open>Identifiers\<close>

lemma cut_at:
  assumes "x @ c # y = x' @ c # y'" "c \<notin> set x" "c \<notin> set x'"
  shows "x = x' \<and> y = y'"
  using assms by (induction x arbitrary: x') (auto simp: Cons_eq_append_conv)

text \<open>What a name space and an interface may be called for the identifiers to be unique.\<close>

definition plain_name :: "string \<Rightarrow> bool" where
  "plain_name s \<longleftrightarrow> CHR ''/'' \<notin> set s"

definition nameable :: "world \<Rightarrow> ifp \<Rightarrow> bool" where
  "nameable w e \<longleftrightarrow> plain_name (i_name (w_if w e)) \<and> length (i_name (w_if w e)) \<le> 15 \<and>
     (case i_internal_ns (w_if w e) of None \<Rightarrow> True | Some s \<Rightarrow> plain_name s \<and> length s \<le> 255) \<and>
     (case n_name (w_ns w (i_ns (w_if w e))) of None \<Rightarrow> True | Some s \<Rightarrow> plain_name s \<and> s \<noteq> [] \<and> length s \<le> 255)"

definition ns_part :: "world \<Rightarrow> ifp \<Rightarrow> string" where
  "ns_part w e = (case n_name (w_ns w (i_ns (w_if w e))) of None \<Rightarrow> [] | Some s \<Rightarrow> s)"

definition ins_part :: "world \<Rightarrow> ifp \<Rightarrow> string" where
  "ins_part w e = (case i_internal_ns (w_if w e) of None \<Rightarrow> [] | Some s \<Rightarrow> s)"

lemma nsid_text:
  "nameable w e \<Longrightarrow> nsid w (i_ns (w_if w e)) = ns_part w e @ ''/''"
  by (auto simp: nameable_def nsid_def ns_part_def fit_def split: option.splits)

lemma ifid_text:
  assumes "nameable w e"
  shows "ifid w e = ns_part w e @ CHR ''/'' # ins_part w e @ CHR ''/'' # i_name (w_if w e)"
proof -
  have "length (ns_part w e) \<le> 255" "length (ins_part w e) \<le> 255" "length (i_name (w_if w e)) \<le> 15"
    using assms by (auto simp: nameable_def ns_part_def ins_part_def split: option.splits)
  then show ?thesis
    using nsid_text [OF assms] by (simp add: ifid_def fit_def Let_def flip: ins_part_def)
qed

text \<open>
  C21: Interface identifiers are unique: two interfaces whose names are as the kernel and Open
  vSwitch allow (no slash, within the limits the buffer is sized for) and that get the same
  identifier are in name spaces of the same name, in the same internal name space, and have
  the same interface name; so the identifier is never cut.
\<close>

theorem ifid_unique:
  assumes "nameable w d" and "nameable w e" and "ifid w d = ifid w e"
  shows "n_name (w_ns w (i_ns (w_if w d))) = n_name (w_ns w (i_ns (w_if w e))) \<and>
    ins_part w d = ins_part w e \<and> i_name (w_if w d) = i_name (w_if w e)"
proof -
  have slash: "CHR ''/'' \<notin> set (ns_part w x)" "CHR ''/'' \<notin> set (ins_part w x)" if "nameable w x" for x
    using that by (auto simp: nameable_def ns_part_def ins_part_def plain_name_def split: option.splits)
  from assms(3) have "ns_part w d @ CHR ''/'' # ins_part w d @ CHR ''/'' # i_name (w_if w d) =
      ns_part w e @ CHR ''/'' # ins_part w e @ CHR ''/'' # i_name (w_if w e)"
    by (simp only: ifid_text [OF assms(1)] ifid_text [OF assms(2)])
  from cut_at [OF this slash(1) [OF assms(1)] slash(1) [OF assms(2)]]
  have ns: "ns_part w d = ns_part w e"
    and rest: "ins_part w d @ CHR ''/'' # i_name (w_if w d) = ins_part w e @ CHR ''/'' # i_name (w_if w e)"
    by auto
  from cut_at [OF rest slash(2) [OF assms(1)] slash(2) [OF assms(2)]] ns assms(1,2)
  show ?thesis by (auto simp: ns_part_def nameable_def split: option.splits)
qed

definition example_world :: world where
  "example_world =
     \<lparr>w_if = (\<lambda>e. if_entry0\<lparr>i_ns := e div 2, i_name := ''eth0'', i_internal_ns := (if e mod 2 = 0 then None else Some ''ovs'')\<rparr>),
      w_ns = (\<lambda>n. \<lparr>n_ifaces = [2 * n, 2 * n + 1], n_warnings = [], n_kernel_id = int n,
                   n_name = (if n = 0 then None else Some ''blue''), n_pid = 0, n_fd = 3, n_ids = [], n_rtables = []\<rparr>),
      w_list = [0, 1], w_next = 4, w_mem = [], w_ovs = ovs_state0\<rparr>"

theorem ifid_unique_witness:
  "ifid example_world 3 = ''blue/ovs/eth0'' \<and>
   n_name (w_ns example_world (i_ns (w_if example_world 3))) = n_name (w_ns example_world (i_ns (w_if example_world 3)))"
proof -
  have n: "nameable example_world 3" by (simp add: nameable_def example_world_def if_entry0_def plain_name_def)
  have "ifid example_world 3 = ''blue/ovs/eth0''"
    by (simp add: ifid_text [OF n]) (simp add: ns_part_def ins_part_def example_world_def if_entry0_def)
  with ifid_unique [OF n n] show ?thesis by simp
qed

end
