(* ===== verification/Match.thy ===== *)
theory Match
  imports IfModel
begin

text \<open>
  The search for an interface by a priority callback (\<open>match.c\<close>, \<open>match.h\<close>), with its
  specification: the first interface of the highest positive priority, ambiguous when another
  one has it too.  A callback returns \<open>None\<close> where the C one would dereference NULL.
\<close>

definition MM_HEURISTIC :: int where "MM_HEURISTIC = 0"
definition MM_FIRST :: int where "MM_FIRST = 1"

record match_desc =
  md_mode :: int
  md_exclude :: "ifp option"
  md_netns_list :: "nsp list option"
  md_ns :: "nsp option"
  md_found :: "ifp option"
  md_best :: int
  md_count :: int

type_synonym match_callback = "ifp \<Rightarrow> int option"

definition match_init :: match_desc where
  "match_init = \<lparr>md_mode = 0, md_exclude = None, md_netns_list = None, md_ns = None, md_found = None, md_best = 0, md_count = 0\<rparr>"

definition match_found :: "match_desc \<Rightarrow> ifp option" where
  "match_found d = (if md_best d > 0 then md_found d else None)"

definition match_ambiguous :: "match_desc \<Rightarrow> bool" where
  "match_ambiguous d \<longleftrightarrow> md_best d > 0 \<and> md_count d > 1"

text \<open>The loop of \<open>match_if_ns\<close> over the interfaces of \<open>desc->ns\<close>.\<close>

fun match_loop :: "match_callback \<Rightarrow> ifp list \<Rightarrow> match_desc act" where
  "match_loop callback [] d = Some (0, d)"
| "match_loop callback (entry # es) d =
     (if md_exclude d = Some entry then match_loop callback es d
      else case callback entry of
          None \<Rightarrow> None
        | Some res \<Rightarrow>
            if res < 0 then Some (- res, d)
            else if res > md_best d then
              let d = d\<lparr>md_found := Some entry, md_best := res, md_count := 1\<rparr> in
              if md_mode d = MM_FIRST then Some (0, d) else match_loop callback es d
            else if res = md_best d then match_loop callback es (d\<lparr>md_count := md_count d + 1\<rparr>)
            else match_loop callback es d)"

definition match_if_ns :: "world \<Rightarrow> match_callback \<Rightarrow> match_desc act" where
  "match_if_ns w callback d =
     (case md_ns d of None \<Rightarrow> None | Some n \<Rightarrow> match_loop callback (n_ifaces (w_ns w n)) d)"

definition match_if :: "world \<Rightarrow> match_callback \<Rightarrow> match_desc act" where
  "match_if w callback d =
     (case md_netns_list d of
        Some nss \<Rightarrow>
          andthen (each_act (\<lambda>n. andthen (assign (\<lambda>d. d\<lparr>md_ns := Some n\<rparr>)) (match_if_ns w callback)) nss)
            (assign (\<lambda>d. d\<lparr>md_ns := None\<rparr>)) d
      | None \<Rightarrow> match_if_ns w callback d)"

definition match_netnsid :: "world \<Rightarrow> int \<Rightarrow> nsp \<Rightarrow> nsp option" where
  "match_netnsid w netnsid current = map_option id_ns (find (\<lambda>p. id_id p = netnsid) (n_ids (w_ns w current)))"

definition match_if_netnsid :: "world \<Rightarrow> u32 \<Rightarrow> int \<Rightarrow> nsp \<Rightarrow> ifp option" where
  "match_if_netnsid w ifindex netnsid current =
     (case match_netnsid w netnsid current of
        None \<Rightarrow> None
      | Some n \<Rightarrow> find (\<lambda>e. i_index (w_if w e) = ifindex) (n_ifaces (w_ns w n)))"

section \<open>Specification\<close>

text \<open>\<open>top_prio p es\<close>: the highest priority of an interface of \<open>es\<close>, 0 when none is positive.\<close>

fun top_prio :: "(ifp \<Rightarrow> int) \<Rightarrow> ifp list \<Rightarrow> int" where
  "top_prio p [] = 0"
| "top_prio p (e # es) = max (p e) (top_prio p es)"

definition best_match :: "(ifp \<Rightarrow> int) \<Rightarrow> ifp list \<Rightarrow> ifp option" where
  "best_match p es = (if top_prio p es > 0 then find (\<lambda>e. p e = top_prio p es) es else None)"

definition several_best :: "(ifp \<Rightarrow> int) \<Rightarrow> ifp list \<Rightarrow> bool" where
  "several_best p es \<longleftrightarrow> top_prio p es > 0 \<and> length (filter (\<lambda>e. p e = top_prio p es) es) > 1"

lemma top_nonneg: "0 \<le> top_prio p es"
  by (induction es) auto

lemma top_ge: "e \<in> set es \<Longrightarrow> p e \<le> top_prio p es"
  by (induction es) auto

lemma top_append: "top_prio p (xs @ ys) = max (top_prio p xs) (top_prio p ys)"
  using top_nonneg [of p ys] by (induction xs) auto

lemma top_attained: "0 < top_prio p es \<Longrightarrow> \<exists>e \<in> set es. p e = top_prio p es"
  by (induction es) (auto simp: max_def)

lemma best_match_in: "best_match p es = Some e \<Longrightarrow> e \<in> set es \<and> p e = top_prio p es \<and> 0 < p e"
  by (auto simp: best_match_def dest: find_Some_in split: if_splits)

lemma best_match_None: "best_match p es = None \<longleftrightarrow> (\<forall>e \<in> set es. p e \<le> 0)"
proof
  assume n: "best_match p es = None"
  have "\<not> 0 < top_prio p es"
  proof
    assume t: "0 < top_prio p es"
    with n have "find (\<lambda>e. p e = top_prio p es) es = None" by (simp add: best_match_def)
    then have "\<not> (\<exists>e \<in> set es. p e = top_prio p es)" by (auto simp: find_None_iff)
    with top_attained [OF t] show False by contradiction
  qed
  then have "top_prio p es \<le> 0" by simp
  then show "\<forall>e \<in> set es. p e \<le> 0" using top_ge [of _ es p] order_trans by blast
next
  assume "\<forall>e \<in> set es. p e \<le> 0"
  then show "best_match p es = None"
    using top_attained [of p es] by (force simp: best_match_def)
qed

section \<open>The search meets its specification\<close>

text \<open>
  The state of the search after the interfaces \<open>seen\<close>; the count is only of use when the best
  priority is positive.
\<close>

definition searched :: "(ifp \<Rightarrow> int) \<Rightarrow> ifp list \<Rightarrow> match_desc \<Rightarrow> bool" where
  "searched p seen d \<longleftrightarrow> md_best d = top_prio p seen \<and>
     (0 < md_best d \<longrightarrow> md_found d = find (\<lambda>e. p e = top_prio p seen) seen \<and>
        md_count d = int (length (filter (\<lambda>e. p e = top_prio p seen) seen)))"

lemma searched_init: "searched p [] match_init"
  by (simp add: searched_def match_init_def)

lemma searched_ns: "searched p seen (d\<lparr>md_ns := n\<rparr>) = searched p seen d"
  by (simp add: searched_def)

lemma find_append: "find P (xs @ ys) = (case find P xs of None \<Rightarrow> find P ys | Some x \<Rightarrow> Some x)"
  by (induction xs) auto

lemma searched_better:
  assumes "searched p seen d" "md_best d < p e"
  shows "searched p (seen @ [e]) (d\<lparr>md_found := Some e, md_best := p e, md_count := 1\<rparr>)"
proof -
  from assms have lt: "top_prio p seen < p e" by (simp add: searched_def)
  then have t: "top_prio p (seen @ [e]) = p e" using top_nonneg [of p seen] by (simp add: top_append)
  have no: "\<forall>x \<in> set seen. p x \<noteq> p e"
  proof
    fix x assume "x \<in> set seen"
    from top_ge [OF this, of p] lt show "p x \<noteq> p e" by simp
  qed
  then have f: "find (\<lambda>x. p x = p e) seen = None" by (auto simp: find_None_iff)
  from no have "filter (\<lambda>x. p x = p e) seen = []" by (simp add: filter_empty_conv)
  then show ?thesis unfolding searched_def by (simp add: t find_append f)
qed

lemma searched_equal:
  assumes "searched p seen d" "p e = md_best d"
  shows "searched p (seen @ [e]) (d\<lparr>md_count := md_count d + 1\<rparr>)"
proof -
  from assms have eq: "p e = top_prio p seen" by (simp add: searched_def)
  then have t: "top_prio p (seen @ [e]) = top_prio p seen" using top_nonneg [of p seen] by (simp add: top_append)
  show ?thesis
  proof (cases "0 < top_prio p seen")
    case True
    from top_attained [OF True] have "find (\<lambda>x. p x = top_prio p seen) seen \<noteq> None" by (auto simp: find_None_iff)
    with assms True eq t show ?thesis by (auto simp: searched_def find_append split: option.splits)
  next
    case False
    with assms(1) t show ?thesis by (simp add: searched_def)
  qed
qed

lemma searched_worse:
  assumes "searched p seen d" "p e < md_best d"
  shows "searched p (seen @ [e]) d"
proof -
  from assms have lt: "p e < top_prio p seen" by (simp add: searched_def)
  then have t: "top_prio p (seen @ [e]) = top_prio p seen" using top_nonneg [of p seen] by (simp add: top_append)
  have "0 < top_prio p seen \<Longrightarrow> find (\<lambda>x. p x = top_prio p seen) seen \<noteq> None"
    using top_attained [of p seen] by (auto simp: find_None_iff)
  with assms lt t show ?thesis by (auto simp: searched_def find_append split: option.splits)
qed

text \<open>The interfaces a search looks at: all but the excluded one.\<close>

definition candidates :: "ifp option \<Rightarrow> ifp list \<Rightarrow> ifp list" where
  "candidates x es = filter (\<lambda>e. x \<noteq> Some e) es"

lemma candidates_simps [simp]:
  "candidates x [] = []"
  "candidates x (e # es) = (if x = Some e then candidates x es else e # candidates x es)"
  "candidates x (es @ fs) = candidates x es @ candidates x fs"
  by (simp_all add: candidates_def)

lemma match_loop_searched:
  assumes cb: "\<And>e. e \<in> set (candidates (md_exclude d) es) \<Longrightarrow> callback e = Some (p e) \<and> 0 \<le> p e"
    and s: "searched p seen d" and m: "md_mode d \<noteq> MM_FIRST"
  shows "\<exists>d'. match_loop callback es d = Some (0, d') \<and> searched p (seen @ candidates (md_exclude d) es) d' \<and>
    md_mode d' = md_mode d \<and> md_exclude d' = md_exclude d"
  using assms
proof (induction es arbitrary: seen d)
  case Nil
  then show ?case by simp
next
  case (Cons e es)
  show ?case
  proof (cases "md_exclude d = Some e")
    case True
    from Cons.IH [of d seen] Cons.prems True show ?thesis by simp
  next
    case False
    with Cons.prems(1) have c: "callback e = Some (p e)" "0 \<le> p e" by auto
    have rest: "\<And>x. x \<in> set (candidates (md_exclude d) es) \<Longrightarrow> callback x = Some (p x) \<and> 0 \<le> p x"
      using Cons.prems(1) False by simp
    consider "md_best d < p e" | "p e = md_best d" | "p e < md_best d" by linarith
    then show ?thesis
    proof cases
      case 1
      from Cons.IH [OF _ searched_better [OF Cons.prems(2) 1]] rest Cons.prems(3) False c 1
      show ?thesis by simp
    next
      case 2
      from Cons.IH [OF _ searched_equal [OF Cons.prems(2) 2]] rest Cons.prems(3) False c 2
      show ?thesis by simp
    next
      case 3
      from Cons.IH [OF _ searched_worse [OF Cons.prems(2) 3]] rest Cons.prems(3) False c 3
      show ?thesis by simp
    qed
  qed
qed

lemma match_list_searched:
  assumes cb: "\<And>e. e \<in> set (candidates x (concat (map (\<lambda>n. n_ifaces (w_ns w n)) nss))) \<Longrightarrow> callback e = Some (p e) \<and> 0 \<le> p e"
    and s: "searched p seen d" and m: "md_mode d \<noteq> MM_FIRST" and x: "md_exclude d = x"
  shows "\<exists>d'. each_act (\<lambda>n. andthen (assign (\<lambda>d. d\<lparr>md_ns := Some n\<rparr>)) (match_if_ns w callback)) nss d = Some (0, d') \<and>
    searched p (seen @ candidates x (concat (map (\<lambda>n. n_ifaces (w_ns w n)) nss))) d' \<and>
    md_mode d' = md_mode d \<and> md_exclude d' = x"
  using assms
proof (induction nss arbitrary: seen d)
  case Nil
  then show ?case by (simp add: ok_act_def)
next
  case (Cons n nss)
  let ?d = "d\<lparr>md_ns := Some n\<rparr>"
  have "\<exists>d'. match_loop callback (n_ifaces (w_ns w n)) ?d = Some (0, d') \<and>
      searched p (seen @ candidates (md_exclude ?d) (n_ifaces (w_ns w n))) d' \<and>
      md_mode d' = md_mode ?d \<and> md_exclude d' = md_exclude ?d"
    by (rule match_loop_searched) (use Cons.prems in \<open>auto simp: searched_ns\<close>)
  then obtain d' where d': "match_loop callback (n_ifaces (w_ns w n)) ?d = Some (0, d')"
      "searched p (seen @ candidates x (n_ifaces (w_ns w n))) d'" "md_mode d' = md_mode d" "md_exclude d' = x"
    using Cons.prems(4) by auto
  have "\<exists>d''. each_act (\<lambda>n. andthen (assign (\<lambda>d. d\<lparr>md_ns := Some n\<rparr>)) (match_if_ns w callback)) nss d' = Some (0, d'') \<and>
      searched p ((seen @ candidates x (n_ifaces (w_ns w n))) @ candidates x (concat (map (\<lambda>n. n_ifaces (w_ns w n)) nss))) d'' \<and>
      md_mode d'' = md_mode d' \<and> md_exclude d'' = x"
    by (rule Cons.IH) (use Cons.prems d' in auto)
  then obtain d'' where d'': "each_act (\<lambda>n. andthen (assign (\<lambda>d. d\<lparr>md_ns := Some n\<rparr>)) (match_if_ns w callback)) nss d' = Some (0, d'')"
      "searched p ((seen @ candidates x (n_ifaces (w_ns w n))) @ candidates x (concat (map (\<lambda>n. n_ifaces (w_ns w n)) nss))) d''"
      "md_mode d'' = md_mode d'" "md_exclude d'' = x" by blast
  have "andthen (assign (\<lambda>d. d\<lparr>md_ns := Some n\<rparr>)) (match_if_ns w callback) d = Some (0, d')"
    using d'(1) by (simp add: andthen_def assign_def match_if_ns_def)
  then have "each_act (\<lambda>n. andthen (assign (\<lambda>d. d\<lparr>md_ns := Some n\<rparr>)) (match_if_ns w callback)) (n # nss) d = Some (0, d'')"
    using d''(1) by (simp add: andthen_def [of _ "each_act _ nss"])
  with d' d'' show ?case by simp
qed

text \<open>The searched interfaces, in search order.\<close>

definition scope :: "world \<Rightarrow> match_desc \<Rightarrow> ifp list" where
  "scope w d = candidates (md_exclude d)
     (case md_netns_list d of
        Some nss \<Rightarrow> concat (map (\<lambda>n. n_ifaces (w_ns w n)) nss)
      | None \<Rightarrow> (case md_ns d of Some n \<Rightarrow> n_ifaces (w_ns w n) | None \<Rightarrow> []))"

lemma match_if_searched:
  assumes cb: "\<And>e. e \<in> set (scope w d) \<Longrightarrow> callback e = Some (p e) \<and> 0 \<le> p e"
    and d: "d = match_init\<lparr>md_exclude := x, md_netns_list := nl, md_ns := n\<rparr>" and ok: "nl \<noteq> None \<or> n \<noteq> None"
  shows "\<exists>d'. match_if w callback d = Some (0, d') \<and> searched p (scope w d) d'"
proof (cases nl)
  case None
  with ok obtain m where n: "n = Some m" by auto
  have "\<exists>d'. match_loop callback (n_ifaces (w_ns w m)) d = Some (0, d') \<and>
      searched p ([] @ candidates (md_exclude d) (n_ifaces (w_ns w m))) d' \<and> md_mode d' = md_mode d \<and> md_exclude d' = md_exclude d"
    by (rule match_loop_searched)
      (use cb d None n in \<open>auto simp: scope_def match_init_def searched_def MM_FIRST_def\<close>)
  with d None n show ?thesis
    by (auto simp: match_if_def match_if_ns_def scope_def match_init_def)
next
  case (Some nss)
  have "\<exists>d'. each_act (\<lambda>n. andthen (assign (\<lambda>d. d\<lparr>md_ns := Some n\<rparr>)) (match_if_ns w callback)) nss d = Some (0, d') \<and>
      searched p ([] @ candidates x (concat (map (\<lambda>n. n_ifaces (w_ns w n)) nss))) d' \<and> md_mode d' = md_mode d \<and> md_exclude d' = x"
    by (rule match_list_searched)
      (use cb d Some in \<open>auto simp: scope_def match_init_def searched_def MM_FIRST_def\<close>)
  with d Some show ?thesis
    by (auto simp: match_if_def scope_def match_init_def andthen_def assign_def searched_ns)
qed

lemma searched_result:
  assumes "searched p es d"
  shows "match_found d = best_match p es" and "match_ambiguous d = several_best p es"
  using assms by (auto simp: searched_def match_found_def match_ambiguous_def best_match_def several_best_def)

text \<open>Whatever the callback does, what a search finds is listed.\<close>

definition found_listed :: "world \<Rightarrow> match_desc \<Rightarrow> bool" where
  "found_listed w d \<longleftrightarrow> (\<forall>x. md_found d = Some x \<longrightarrow> (\<exists>n. x \<in> set (n_ifaces (w_ns w n))))"

lemma match_loop_listed:
  "found_listed w d \<Longrightarrow> set es \<subseteq> set (n_ifaces (w_ns w n)) \<Longrightarrow> match_loop callback es d = Some (err, d') \<Longrightarrow> found_listed w d'"
proof (induction es arbitrary: d)
  case (Cons e es)
  have f: "found_listed w (d\<lparr>md_found := Some e, md_best := r, md_count := 1\<rparr>)" "found_listed w (d\<lparr>md_count := k\<rparr>)" for r k
    using Cons.prems(1,2) by (auto simp: found_listed_def)
  from Cons.prems Cons.IH [OF f(1)] Cons.IH [OF f(2)] Cons.IH [OF Cons.prems(1)] f show ?case
    by (auto simp: Let_def split: if_splits option.splits)
qed simp

lemma match_if_listed:
  assumes "match_if w callback d = Some (err, d')" and "found_listed w d" and "match_found d' = Some x"
  shows "\<exists>n. x \<in> set (n_ifaces (w_ns w n))"
proof -
  have ns: "keeps (found_listed w) (match_if_ns w callback)"
    by (rule keepsI) (auto simp: match_if_ns_def split: option.splits dest: match_loop_listed)
  have set: "keeps (found_listed w) (assign (\<lambda>d. d\<lparr>md_ns := n\<rparr>))" for n
    by (rule keeps_assign) (simp add: found_listed_def)
  have "keeps (found_listed w) (match_if w callback)"
    unfolding match_if_def
    by (rule keepsI) (auto split: option.splits dest!: keepsD [rotated 2] intro!: keeps_andthen keeps_each ns set)
  from keepsD [OF this assms(2,1)] assms(3) show ?thesis by (auto simp: found_listed_def match_found_def split: if_splits)
qed

lemma found_listed_init [simp]: "md_found d = None \<Longrightarrow> found_listed w d"
  by (simp add: found_listed_def)

lemma match_if_netnsid_listed: "match_if_netnsid w ifindex netnsid n = Some x \<Longrightarrow> \<exists>n. x \<in> set (n_ifaces (w_ns w n))"
  by (auto simp: match_if_netnsid_def split: option.splits dest: find_Some_in)

lemma match_if_result:
  assumes "\<And>e. e \<in> set (scope w d) \<Longrightarrow> callback e = Some (p e) \<and> 0 \<le> p e"
    and "d = match_init\<lparr>md_exclude := x, md_netns_list := nl, md_ns := n\<rparr>" and "nl \<noteq> None \<or> n \<noteq> None"
  shows "\<exists>d'. match_if w callback d = Some (0, d') \<and> match_found d' = best_match p (scope w d) \<and>
    match_ambiguous d' = several_best p (scope w d)"
proof -
  from match_if_searched [of w d callback p, OF assms]
  obtain d' where "match_if w callback d = Some (0, d')" "searched p (scope w d) d'" by blast
  then show ?thesis using searched_result by auto
qed

text \<open>
  C15: A search in heuristic mode, over all name spaces or in one, with a callback that
  neither fails nor crashes on the searched interfaces, succeeds; it finds the first
  interface of the highest positive priority among those searched (the excluded one is not),
  nothing when there is none, and is ambiguous exactly when a second interface has that
  priority.
\<close>

theorem match_if_best:
  assumes "\<And>e. e \<in> set (scope w d) \<Longrightarrow> callback e = Some (p e) \<and> 0 \<le> p e"
    and "d = match_init\<lparr>md_exclude := x, md_netns_list := nl, md_ns := n\<rparr>" and "nl \<noteq> None \<or> n \<noteq> None"
  shows "\<exists>d'. match_if w callback d = Some (0, d') \<and> match_found d' = best_match p (scope w d) \<and>
    match_ambiguous d' = several_best p (scope w d)"
  by (rule match_if_result [OF assms])

lemma example_scope: "scope example_world (match_init\<lparr>md_exclude := Some 1, md_netns_list := Some [0, 1], md_ns := None\<rparr>) = [0, 2, 3]"
  by (simp add: scope_def match_init_def example_world_def)

theorem match_if_best_witness:
  "\<exists>d'. match_if example_world (\<lambda>e. Some (int (e mod 2))) (match_init\<lparr>md_exclude := Some 1, md_netns_list := Some [0, 1], md_ns := None\<rparr>) = Some (0, d') \<and>
    match_found d' = Some 3 \<and> \<not> match_ambiguous d'"
  using match_if_best [of example_world "match_init\<lparr>md_exclude := Some 1, md_netns_list := Some [0, 1], md_ns := None\<rparr>"
      "\<lambda>e. Some (int (e mod 2))" "\<lambda>e. int (e mod 2)" None "Some [0, 1]" "Some 1"]
  by (simp add: example_scope best_match_def several_best_def del: One_nat_def)

section \<open>Searching for the first match\<close>

lemma match_loop_settled:
  assumes "\<And>e. e \<in> set es \<Longrightarrow> callback e = Some (if P e then 1 else 0)" "md_best d = 1"
  shows "\<exists>d'. match_loop callback es d = Some (0, d') \<and> md_best d' = 1 \<and> md_found d' = md_found d \<and>
    md_exclude d' = md_exclude d \<and> md_mode d' = md_mode d"
  using assms
proof (induction es arbitrary: d)
  case (Cons e es)
  let ?c = "d\<lparr>md_count := md_count d + 1\<rparr>"
  from Cons.IH [of d] Cons.IH [of ?c] Cons.prems
  show ?case by (cases "md_exclude d = Some e"; cases "P e") simp_all
qed simp

lemma match_loop_first:
  assumes "\<And>e. e \<in> set es \<Longrightarrow> callback e = Some (if P e then 1 else 0)" "md_best d = 0" "md_mode d = MM_FIRST"
  shows "\<exists>d'. match_loop callback es d = Some (0, d') \<and> match_found d' = find P (candidates (md_exclude d) es) \<and>
    md_best d' = (if find P (candidates (md_exclude d) es) = None then 0 else 1) \<and>
    md_exclude d' = md_exclude d \<and> md_mode d' = md_mode d"
  using assms
proof (induction es arbitrary: d)
  case (Cons e es)
  from Cons.IH [of d] Cons.IH [of "d\<lparr>md_count := md_count d + 1\<rparr>"] Cons.prems
  show ?case by (cases "md_exclude d = Some e"; cases "P e") (simp_all add: match_found_def)
qed (simp add: match_found_def)

text \<open>What is known of the search before and after each name space.\<close>

definition first_so_far :: "(ifp \<Rightarrow> bool) \<Rightarrow> ifp list \<Rightarrow> match_desc \<Rightarrow> bool" where
  "first_so_far P seen d \<longleftrightarrow> md_mode d = MM_FIRST \<and> match_found d = find P seen \<and>
     md_best d = (if find P seen = None then 0 else 1)"

lemma first_so_far_ns [simp]: "first_so_far P seen (d\<lparr>md_ns := n\<rparr>) = first_so_far P seen d"
  by (simp add: first_so_far_def match_found_def)

lemma match_loop_first_step:
  assumes cb: "\<And>e. e \<in> set es \<Longrightarrow> callback e = Some (if P e then 1 else 0)" and s: "first_so_far P seen d"
  shows "\<exists>d'. match_loop callback es d = Some (0, d') \<and> first_so_far P (seen @ candidates (md_exclude d) es) d' \<and>
    md_exclude d' = md_exclude d"
proof (cases "find P seen")
  case None
  with s have "md_best d = 0" "md_mode d = MM_FIRST" by (auto simp: first_so_far_def)
  from match_loop_first [of es callback P d, OF cb this] show ?thesis
    using None \<open>md_mode d = MM_FIRST\<close> by (auto simp: first_so_far_def find_append)
next
  case (Some y)
  with s have b: "md_best d = 1" by (auto simp: first_so_far_def)
  from match_loop_settled [of es callback P d, OF cb b] show ?thesis
    using Some s by (auto simp: first_so_far_def find_append match_found_def)
qed

lemma match_list_first:
  assumes "\<And>e. e \<in> set (concat (map (\<lambda>n. n_ifaces (w_ns w n)) nss)) \<Longrightarrow> callback e = Some (if P e then 1 else 0)"
    and "first_so_far P seen d" and "md_exclude d = x"
  shows "\<exists>d'. each_act (\<lambda>n. andthen (assign (\<lambda>d. d\<lparr>md_ns := Some n\<rparr>)) (match_if_ns w callback)) nss d = Some (0, d') \<and>
    first_so_far P (seen @ candidates x (concat (map (\<lambda>n. n_ifaces (w_ns w n)) nss))) d'"
  using assms
proof (induction nss arbitrary: seen d)
  case Nil
  then show ?case by (simp add: ok_act_def)
next
  case (Cons n nss)
  let ?f = "\<lambda>n. andthen (assign (\<lambda>d. d\<lparr>md_ns := Some n\<rparr>)) (match_if_ns w callback)"
  have "\<exists>d'. match_loop callback (n_ifaces (w_ns w n)) (d\<lparr>md_ns := Some n\<rparr>) = Some (0, d') \<and>
      first_so_far P (seen @ candidates (md_exclude (d\<lparr>md_ns := Some n\<rparr>)) (n_ifaces (w_ns w n))) d' \<and>
      md_exclude d' = md_exclude (d\<lparr>md_ns := Some n\<rparr>)"
    by (rule match_loop_first_step) (use Cons.prems in auto)
  then obtain d' where d': "?f n d = Some (0, d')" "first_so_far P (seen @ candidates x (n_ifaces (w_ns w n))) d'" "md_exclude d' = x"
    using Cons.prems(3) by (auto simp: andthen_def assign_def match_if_ns_def)
  have "\<exists>d''. each_act ?f nss d' = Some (0, d'') \<and>
      first_so_far P ((seen @ candidates x (n_ifaces (w_ns w n))) @ candidates x (concat (map (\<lambda>n. n_ifaces (w_ns w n)) nss))) d''"
    by (rule Cons.IH) (use Cons.prems d' in auto)
  with d'(1) show ?case by (auto simp: andthen_def [of _ "each_act _ nss"])
qed

lemma match_if_first_result:
  assumes "\<And>e. e \<in> set (concat (map (\<lambda>n. n_ifaces (w_ns w n)) nss)) \<Longrightarrow> callback e = Some (if P e then 1 else 0)"
  shows "\<exists>d'. match_if w callback (match_init\<lparr>md_mode := MM_FIRST, md_netns_list := Some nss, md_exclude := x\<rparr>) = Some (0, d') \<and>
    match_found d' = find P (candidates x (concat (map (\<lambda>n. n_ifaces (w_ns w n)) nss)))"
proof -
  let ?d = "match_init\<lparr>md_mode := MM_FIRST, md_netns_list := Some nss, md_exclude := x\<rparr>"
  have "first_so_far P [] ?d" by (simp add: first_so_far_def match_init_def match_found_def)
  from match_list_first [where seen = "[]" and d = ?d and x = x, OF assms this] obtain d' where
    "each_act (\<lambda>n. andthen (assign (\<lambda>d. d\<lparr>md_ns := Some n\<rparr>)) (match_if_ns w callback)) nss ?d = Some (0, d')"
    "first_so_far P (candidates x (concat (map (\<lambda>n. n_ifaces (w_ns w n)) nss))) d'" by auto
  then show ?thesis
    by (auto simp: match_if_def andthen_def [of "each_act _ _"] assign_def first_so_far_def match_found_def)
qed

text \<open>
  A search for the first match over a list of name spaces, with a callback that answers 1
  or 0, finds the first interface that matches in the order of the name spaces and of the
  interfaces in each, and nothing when none matches: going on to the later name spaces after
  a match does not change it.
\<close>

lemma match_if_first:
  assumes "\<And>e. e \<in> set (concat (map (\<lambda>n. n_ifaces (w_ns w n)) nss)) \<Longrightarrow> callback e = Some (if P e then 1 else 0)"
  shows "\<exists>d'. match_if w callback (match_init\<lparr>md_mode := MM_FIRST, md_netns_list := Some nss, md_exclude := x\<rparr>) = Some (0, d') \<and>
    match_found d' = find P (candidates x (concat (map (\<lambda>n. n_ifaces (w_ns w n)) nss)))"
  by (rule match_if_first_result [OF assms])

end
