(* ===== verification/ListH.thy ===== *)
theory ListH
  imports Prelude
begin

text \<open>
  The intrusive doubly linked lists of \<open>list.h\<close>.  A node is an address (a \<open>nat\<close>, 0 is
  NULL) with its \<open>next\<close> and \<open>prev\<close> pointers in a heap; a list is two virtual nodes, head
  and tail.  Every operation is the code's sequence of pointer reads and writes; \<open>None\<close> is
  a NULL dereference.  \<open>is_list h l xs\<close> says that the list \<open>l\<close> holds the nodes \<open>xs\<close>, and
  the lemmas show each operation to be the list operation it stands for, without a NULL
  dereference and without touching any other list.
\<close>

section \<open>Heap and operations\<close>

type_synonym addr_t = nat

record heap =
  next_of :: "addr_t \<Rightarrow> addr_t"
  prev_of :: "addr_t \<Rightarrow> addr_t"

record lst =
  l_head :: addr_t
  l_tail :: addr_t

definition get_next :: "addr_t \<Rightarrow> heap \<Rightarrow> addr_t option" where
  "get_next a h = (if a = 0 then None else Some (next_of h a))"

definition get_prev :: "addr_t \<Rightarrow> heap \<Rightarrow> addr_t option" where
  "get_prev a h = (if a = 0 then None else Some (prev_of h a))"

definition set_next :: "addr_t \<Rightarrow> addr_t \<Rightarrow> heap \<Rightarrow> heap option" where
  "set_next a v h = (if a = 0 then None else Some (h\<lparr>next_of := (next_of h)(a := v)\<rparr>))"

definition set_prev :: "addr_t \<Rightarrow> addr_t \<Rightarrow> heap \<Rightarrow> heap option" where
  "set_prev a v h = (if a = 0 then None else Some (h\<lparr>prev_of := (prev_of h)(a := v)\<rparr>))"

definition node_valid :: "addr_t \<Rightarrow> heap \<Rightarrow> bool option" where
  "node_valid n h = map_option (\<lambda>a. a \<noteq> 0) (get_next n h)"

definition list_head :: "lst \<Rightarrow> heap \<Rightarrow> addr_t" where
  "list_head l h = next_of h (l_head l)"

definition list_tail :: "lst \<Rightarrow> heap \<Rightarrow> addr_t" where
  "list_tail l h = prev_of h (l_tail l)"

definition list_empty :: "lst \<Rightarrow> heap \<Rightarrow> bool option" where
  "list_empty l h = map_option Not (node_valid (list_head l h) h)"

definition list_init :: "lst \<Rightarrow> heap \<Rightarrow> heap" where
  "list_init l h = \<lparr>next_of = (next_of h)(l_head l := l_tail l, l_tail l := 0),
                    prev_of = (prev_of h)(l_tail l := l_head l, l_head l := 0)\<rparr>"

definition list_insert_after :: "addr_t \<Rightarrow> addr_t \<Rightarrow> heap \<Rightarrow> heap option" where
  "list_insert_after after n h = do {
     z \<leftarrow> get_next after h;
     h \<leftarrow> set_next after n h;
     h \<leftarrow> set_prev n after h;
     h \<leftarrow> set_next n z h;
     set_prev z n h }"

definition list_insert_before :: "addr_t \<Rightarrow> addr_t \<Rightarrow> heap \<Rightarrow> heap option" where
  "list_insert_before before n h = do {
     a \<leftarrow> get_prev before h;
     h \<leftarrow> set_prev before n h;
     h \<leftarrow> set_next n before h;
     h \<leftarrow> set_prev n a h;
     set_next a n h }"

definition list_append :: "lst \<Rightarrow> addr_t \<Rightarrow> heap \<Rightarrow> heap option" where
  "list_append l n = list_insert_before (l_tail l) n"

definition list_prepend :: "lst \<Rightarrow> addr_t \<Rightarrow> heap \<Rightarrow> heap option" where
  "list_prepend l n = list_insert_after (l_head l) n"

definition node_remove :: "addr_t \<Rightarrow> heap \<Rightarrow> heap option" where
  "node_remove n h = do {
     z \<leftarrow> get_prev n h;
     a \<leftarrow> get_next n h;
     h \<leftarrow> set_next z a h;
     h \<leftarrow> set_prev a z h;
     h \<leftarrow> set_next n 0 h;
     set_prev n 0 h }"

text \<open>\<open>list_pop\<close> returns the removed node, or NULL for an empty list; it takes the last one.\<close>

definition list_pop :: "lst \<Rightarrow> heap \<Rightarrow> (addr_t \<times> heap) option" where
  "list_pop l h = do {
     e \<leftarrow> list_empty l h;
     if e then Some (0, h)
     else do { h' \<leftarrow> node_remove (list_tail l h) h; Some (list_tail l h, h') } }"

text \<open>
  \<open>list_for_each\<close>, as the sequence of nodes its body sees, and \<open>list_free\<close>, as the
  sequence of nodes it destructs and frees.  Both loops follow the heap, so they take fuel.
\<close>

fun for_each_from :: "nat \<Rightarrow> addr_t \<Rightarrow> heap \<Rightarrow> addr_t list option" where
  "for_each_from 0 n h = None"
| "for_each_from (Suc fuel) n h = do {
     v \<leftarrow> node_valid n h;
     if v then do { ns \<leftarrow> for_each_from fuel (next_of h n) h; Some (n # ns) } else Some [] }"

definition list_for_each :: "nat \<Rightarrow> lst \<Rightarrow> heap \<Rightarrow> addr_t list option" where
  "list_for_each fuel l h = for_each_from fuel (list_head l h) h"

fun list_free :: "nat \<Rightarrow> lst \<Rightarrow> heap \<Rightarrow> (addr_t list \<times> heap) option" where
  "list_free 0 l h = None"
| "list_free (Suc fuel) l h = do {
     (n, h) \<leftarrow> list_pop l h;
     if n = 0 then Some ([], h)
     else do { (ns, h) \<leftarrow> list_free fuel l h; Some (n # ns, h) } }"

text \<open>
  \<open>slist_free\<close> frees a NULL-terminated singly linked list: the nodes in order, each \<open>next\<close>
  read before its node is freed.
\<close>

fun slist_free :: "nat \<Rightarrow> addr_t \<Rightarrow> heap \<Rightarrow> addr_t list option" where
  "slist_free 0 n h = None"
| "slist_free (Suc fuel) n h =
     (if n = 0 then Some [] else do { ns \<leftarrow> slist_free fuel (next_of h n) h; Some (n # ns) })"

section \<open>What a heap list holds\<close>

fun chain :: "heap \<Rightarrow> addr_t list \<Rightarrow> bool" where
  "chain h (a # b # ns) \<longleftrightarrow> next_of h a = b \<and> prev_of h b = a \<and> chain h (b # ns)"
| "chain h ns \<longleftrightarrow> True"

definition list_nodes :: "lst \<Rightarrow> addr_t list \<Rightarrow> addr_t list" where
  "list_nodes l xs = l_head l # xs @ [l_tail l]"

definition is_list :: "heap \<Rightarrow> lst \<Rightarrow> addr_t list \<Rightarrow> bool" where
  "is_list h l xs \<longleftrightarrow> distinct (list_nodes l xs) \<and> 0 \<notin> set (list_nodes l xs) \<and>
     chain h (list_nodes l xs) \<and> prev_of h (l_head l) = 0 \<and> next_of h (l_tail l) = 0"

lemma set_list_nodes [simp]: "set (list_nodes l xs) = insert (l_head l) (insert (l_tail l) (set xs))"
  by (auto simp: list_nodes_def)

lemma chain_append: "chain h (xs @ a # ys) \<longleftrightarrow> chain h (xs @ [a]) \<and> chain h (a # ys)"
proof (induction xs)
  case Nil
  then show ?case by (cases ys) auto
next
  case (Cons x xs)
  then show ?case by (cases xs) auto
qed

lemma butlast_list_nodes [simp]: "butlast (list_nodes l xs) = l_head l # xs"
  by (simp add: list_nodes_def butlast_append)

lemma tl_list_nodes [simp]: "tl (list_nodes l xs) = xs @ [l_tail l]"
  by (simp add: list_nodes_def)

text \<open>Cutting a chain between two neighbours: the shape of every pointer surgery.\<close>

lemma chain_cut: "chain h (xs @ a # b # ys) \<longleftrightarrow>
    chain h (xs @ [a]) \<and> next_of h a = b \<and> prev_of h b = a \<and> chain h (b # ys)"
  using chain_append [of h xs a "b # ys"] by simp

text \<open>A chain reads \<open>next\<close> of all nodes but the last and \<open>prev\<close> of all but the first.\<close>

lemma chain_frame:
  assumes "\<And>a. a \<in> set (butlast ns) \<Longrightarrow> next_of h' a = next_of h a"
    and "\<And>a. a \<in> set (tl ns) \<Longrightarrow> prev_of h' a = prev_of h a"
  shows "chain h' ns = chain h ns"
  using assms
proof (induction h ns rule: chain.induct)
  case (1 h a b ns)
  have tl: "set (tl (b # ns)) \<subseteq> set (tl (a # b # ns))" by auto
  from 1 tl show ?case by simp
qed auto

text \<open>A heap that agrees on the nodes of a list still holds that list.\<close>

lemma is_list_frame:
  assumes "is_list h l xs"
    and "\<And>a. a \<in> set (list_nodes l xs) \<Longrightarrow> next_of h' a = next_of h a \<and> prev_of h' a = prev_of h a"
  shows "is_list h' l xs"
proof -
  have "chain h' (list_nodes l xs) = chain h (list_nodes l xs)"
    by (rule chain_frame) (use assms(2) in auto)
  with assms show ?thesis by (simp add: is_list_def)
qed

section \<open>Insertion and removal\<close>

text \<open>The heap after \<open>n\<close> was linked between \<open>a\<close> and \<open>b\<close>, and after \<open>n\<close> was unlinked.\<close>

definition link_in :: "addr_t \<Rightarrow> addr_t \<Rightarrow> addr_t \<Rightarrow> heap \<Rightarrow> heap" where
  "link_in a n b h = \<lparr>next_of = (next_of h)(a := n, n := b), prev_of = (prev_of h)(b := n, n := a)\<rparr>"

definition link_out :: "addr_t \<Rightarrow> addr_t \<Rightarrow> addr_t \<Rightarrow> heap \<Rightarrow> heap" where
  "link_out a n b h = \<lparr>next_of = (next_of h)(a := b, n := 0), prev_of = (prev_of h)(b := a, n := 0)\<rparr>"

lemma list_insert_after_eq:
  assumes "next_of h a = b" "a \<noteq> 0" "n \<noteq> 0" "b \<noteq> 0" "n \<noteq> a" "n \<noteq> b"
  shows "list_insert_after a n h = Some (link_in a n b h)"
  using assms by (simp add: list_insert_after_def link_in_def get_next_def set_next_def set_prev_def
      fun_upd_twist)

lemma list_insert_before_eq:
  assumes "prev_of h b = a" "a \<noteq> 0" "n \<noteq> 0" "b \<noteq> 0" "n \<noteq> a" "n \<noteq> b"
  shows "list_insert_before b n h = Some (link_in a n b h)"
  using assms by (simp add: list_insert_before_def link_in_def get_prev_def set_next_def set_prev_def
      fun_upd_twist)

lemma node_remove_eq:
  assumes "prev_of h n = a" "next_of h n = b" "a \<noteq> 0" "n \<noteq> 0" "b \<noteq> 0" "n \<noteq> a" "n \<noteq> b"
  shows "node_remove n h = Some (link_out a n b h)"
  using assms by (simp add: node_remove_def link_out_def get_next_def get_prev_def set_next_def set_prev_def)

lemma chain_link_in:
  assumes "chain h (xs @ a # b # ys)" and "distinct (xs @ a # n # b # ys)"
  shows "chain (link_in a n b h) (xs @ a # n # b # ys)"
proof -
  have l: "chain (link_in a n b h) (xs @ [a]) = chain h (xs @ [a])"
    by (rule chain_frame) (use assms(2) in \<open>auto simp: link_in_def dest: list.set_sel(2) [rotated]\<close>)
  have r: "chain (link_in a n b h) (b # ys) = chain h (b # ys)"
    by (rule chain_frame) (use assms(2) in \<open>auto simp: link_in_def dest: in_set_butlastD split: if_splits\<close>)
  from assms l r show ?thesis
    by (auto simp: chain_cut link_in_def)
qed

lemma chain_link_out:
  assumes "chain h (xs @ a # n # b # ys)" and "distinct (xs @ a # n # b # ys)"
  shows "chain (link_out a n b h) (xs @ a # b # ys)"
proof -
  have l: "chain (link_out a n b h) (xs @ [a]) = chain h (xs @ [a])"
    by (rule chain_frame) (use assms(2) in \<open>auto simp: link_out_def dest: list.set_sel(2) [rotated]\<close>)
  have r: "chain (link_out a n b h) (b # ys) = chain h (b # ys)"
    by (rule chain_frame) (use assms(2) in \<open>auto simp: link_out_def dest: in_set_butlastD split: if_splits\<close>)
  from assms l r show ?thesis
    by (auto simp: chain_cut link_out_def)
qed

text \<open>What the operations keep of every list that shares no node with the one they change.\<close>

lemma link_in_frame:
  assumes "is_list h l ys" and "{a, n, b} \<inter> set (list_nodes l ys) = {}"
  shows "is_list (link_in a n b h) l ys"
  by (rule is_list_frame [OF assms(1)]) (use assms(2) in \<open>auto simp: link_in_def\<close>)

lemma link_out_frame:
  assumes "is_list h l ys" and "{a, n, b} \<inter> set (list_nodes l ys) = {}"
  shows "is_list (link_out a n b h) l ys"
  by (rule is_list_frame [OF assms(1)]) (use assms(2) in \<open>auto simp: link_out_def\<close>)

lemma list_nodes_split: "list_nodes l (xs @ ys) = (l_head l # xs) @ (ys @ [l_tail l])"
  by (simp add: list_nodes_def)

text \<open>Inserting between any two neighbours of a list, and removing any node of it.\<close>

lemma is_list_link_in:
  assumes h: "is_list h l (xs @ ys)" and n: "n \<noteq> 0" "n \<notin> set (list_nodes l (xs @ ys))"
    and a: "last (l_head l # xs) = a" and b: "hd (ys @ [l_tail l]) = b"
  shows "is_list (link_in a n b h) l (xs @ n # ys)"
proof -
  obtain us where us: "l_head l # xs = us @ [a]" using a by (metis append_butlast_last_id list.discI)
  obtain vs where vs: "ys @ [l_tail l] = b # vs" using b by (cases "ys @ [l_tail l]") auto
  have old: "list_nodes l (xs @ ys) = us @ a # b # vs"
    using us vs by (simp add: list_nodes_split)
  have new: "list_nodes l (xs @ n # ys) = us @ a # n # b # vs"
    using us vs by (simp add: list_nodes_def)
  have d: "distinct (us @ a # n # b # vs)"
    using h n unfolding is_list_def old by auto
  have "chain (link_in a n b h) (us @ a # n # b # vs)"
    using h d unfolding is_list_def old by (intro chain_link_in) auto
  moreover have "prev_of (link_in a n b h) (l_head l) = 0"
  proof -
    have "l_head l \<noteq> b" "l_head l \<noteq> n"
      using h n vs unfolding is_list_def old [symmetric] by (cases ys; auto simp: list_nodes_def)+
    then show ?thesis using h by (simp add: is_list_def link_in_def)
  qed
  moreover have "next_of (link_in a n b h) (l_tail l) = 0"
  proof -
    have "l_tail l \<noteq> a" "l_tail l \<noteq> n"
      using h n us unfolding is_list_def old [symmetric] by (cases xs rule: rev_cases; auto simp: list_nodes_def)+
    then show ?thesis using h by (simp add: is_list_def link_in_def)
  qed
  ultimately show ?thesis
    using d h n unfolding is_list_def new old by auto
qed

lemma is_list_link_out:
  assumes h: "is_list h l (xs @ n # ys)"
    and a: "last (l_head l # xs) = a" and b: "hd (ys @ [l_tail l]) = b"
  shows "is_list (link_out a n b h) l (xs @ ys) \<and> prev_of h n = a \<and> next_of h n = b \<and>
    a \<noteq> n \<and> b \<noteq> n \<and> a \<noteq> 0 \<and> b \<noteq> 0 \<and> n \<noteq> 0"
proof -
  obtain us where us: "l_head l # xs = us @ [a]" using a by (metis append_butlast_last_id list.discI)
  obtain vs where vs: "ys @ [l_tail l] = b # vs" using b by (cases "ys @ [l_tail l]") auto
  have new: "list_nodes l (xs @ ys) = us @ a # b # vs"
    using us vs by (simp add: list_nodes_split)
  have old: "list_nodes l (xs @ n # ys) = us @ a # n # b # vs"
    using us vs by (simp add: list_nodes_def)
  have d: "distinct (us @ a # n # b # vs)" and c: "chain h (us @ a # n # b # vs)"
    and z: "0 \<notin> set (us @ a # n # b # vs)"
    using h unfolding is_list_def old by auto
  have "chain (link_out a n b h) (us @ a # b # vs)"
    using c d by (rule chain_link_out)
  moreover have "prev_of (link_out a n b h) (l_head l) = 0"
  proof -
    have "l_head l \<noteq> b" using h vs unfolding is_list_def by (cases ys) (auto simp: list_nodes_def)
    then show ?thesis using h by (simp add: is_list_def link_out_def)
  qed
  moreover have "next_of (link_out a n b h) (l_tail l) = 0"
  proof -
    have "l_tail l \<noteq> a" using h us unfolding is_list_def
      by (cases xs rule: rev_cases) (auto simp: list_nodes_def)
    then show ?thesis using h by (simp add: is_list_def link_out_def)
  qed
  moreover have "prev_of h n = a" "next_of h n = b"
    using c chain_append [of h us a "n # b # vs"] by auto
  ultimately show ?thesis
    using d z unfolding is_list_def new by auto
qed

section \<open>The operations on lists\<close>

lemma in_notin_neq: "a \<in> A \<Longrightarrow> b \<notin> A \<Longrightarrow> a \<noteq> b \<and> b \<noteq> a"
  by auto

lemma is_list_last_prev:
  assumes "is_list h l xs"
  shows "prev_of h (l_tail l) = last (l_head l # xs)"
proof -
  obtain us a where us: "l_head l # xs = us @ [a]" by (metis append_butlast_last_id list.discI)
  then have "list_nodes l xs = us @ a # l_tail l # []" by (simp add: list_nodes_def)
  with assms have "prev_of h (l_tail l) = a" by (auto simp: is_list_def chain_cut)
  with us show ?thesis by simp
qed

lemma is_list_head_next:
  assumes "is_list h l xs"
  shows "next_of h (l_head l) = hd (xs @ [l_tail l])"
  using assms by (cases xs) (auto simp: is_list_def list_nodes_def)

lemma is_list_init: "l_head l \<noteq> l_tail l \<Longrightarrow> l_head l \<noteq> 0 \<Longrightarrow> l_tail l \<noteq> 0 \<Longrightarrow> is_list (list_init l h) l []"
  by (simp add: is_list_def list_init_def list_nodes_def)

lemma append_is_list:
  assumes h: "is_list h l xs" and n: "n \<noteq> 0" "n \<notin> set (list_nodes l xs)"
  shows "list_append l n h = Some (link_in (last (l_head l # xs)) n (l_tail l) h)"
    and "is_list (link_in (last (l_head l # xs)) n (l_tail l) h) l (xs @ [n])"
proof -
  have m: "last (l_head l # xs) \<in> set (list_nodes l xs)" "l_tail l \<in> set (list_nodes l xs)" by auto
  from h have z: "0 \<notin> set (list_nodes l xs)" by (simp add: is_list_def)
  have ne: "last (l_head l # xs) \<noteq> 0" "l_tail l \<noteq> 0" "n \<noteq> last (l_head l # xs)" "n \<noteq> l_tail l"
    using m n(2) z by (blast dest: in_notin_neq)+
  show "list_append l n h = Some (link_in (last (l_head l # xs)) n (l_tail l) h)"
    unfolding list_append_def
    by (rule list_insert_before_eq [OF is_list_last_prev [OF h] ne(1) n(1) ne(2-4)])
  show "is_list (link_in (last (l_head l # xs)) n (l_tail l) h) l (xs @ [n])"
    using is_list_link_in [of h l xs "[]" n] h n by simp
qed

lemma prepend_is_list:
  assumes h: "is_list h l xs" and n: "n \<noteq> 0" "n \<notin> set (list_nodes l xs)"
  shows "\<exists>h'. list_prepend l n h = Some h' \<and> is_list h' l (n # xs)"
proof -
  let ?b = "hd (xs @ [l_tail l])"
  have m: "?b \<in> set (list_nodes l xs)" "l_head l \<in> set (list_nodes l xs)" by (cases xs; simp)+
  from h have z: "0 \<notin> set (list_nodes l xs)" by (simp add: is_list_def)
  have ne: "l_head l \<noteq> 0" "?b \<noteq> 0" "n \<noteq> l_head l" "n \<noteq> ?b"
    using in_notin_neq [OF m(1) z] in_notin_neq [OF m(2) z] in_notin_neq [OF m(1) n(2)]
      in_notin_neq [OF m(2) n(2)] by iprover+
  have "list_prepend l n h = Some (link_in (l_head l) n ?b h)"
    unfolding list_prepend_def by (rule list_insert_after_eq [OF is_list_head_next [OF h] ne(1) n(1) ne(2-4)])
  moreover have "is_list (link_in (l_head l) n ?b h) l (n # xs)"
    using is_list_link_in [of h l "[]" xs n "l_head l" ?b] h n by simp
  ultimately show ?thesis by blast
qed

lemma remove_is_list:
  assumes "is_list h l (xs @ n # ys)"
  shows "node_remove n h = Some (link_out (last (l_head l # xs)) n (hd (ys @ [l_tail l])) h)"
    and "is_list (link_out (last (l_head l # xs)) n (hd (ys @ [l_tail l])) h) l (xs @ ys)"
  using is_list_link_out [OF assms refl refl] by (auto intro!: node_remove_eq)

lemma append_frame:
  assumes h: "is_list h l xs" and n: "n \<noteq> 0" "n \<notin> set (list_nodes l xs)"
    and k: "is_list h k ys" "insert n (set (list_nodes l xs)) \<inter> set (list_nodes k ys) = {}"
    and r: "list_append l n h = Some h'"
  shows "is_list h' k ys"
proof -
  have "last (l_head l # xs) \<in> set (list_nodes l xs)" "l_tail l \<in> set (list_nodes l xs)" by auto
  with k have "is_list (link_in (last (l_head l # xs)) n (l_tail l) h) k ys"
    by (intro link_in_frame) auto
  moreover from r have "link_in (last (l_head l # xs)) n (l_tail l) h = h'"
    by (simp only: append_is_list(1) [OF h n] option.inject)
  ultimately show ?thesis by (simp only:)
qed

lemma remove_frame:
  assumes h: "is_list h l (xs @ n # ys)"
    and k: "is_list h k zs" "set (list_nodes l (xs @ n # ys)) \<inter> set (list_nodes k zs) = {}"
    and r: "node_remove n h = Some h'"
  shows "is_list h' k zs"
proof -
  obtain a b where ab: "a = last (l_head l # xs)" "b = hd (ys @ [l_tail l])" by blast
  have "{a, n, b} \<subseteq> set (list_nodes l (xs @ n # ys))" unfolding ab by (cases ys) auto
  with k(2) have "{a, n, b} \<inter> set (list_nodes k zs) = {}" by blast
  from link_out_frame [OF k(1) this] r show ?thesis
    by (simp only: remove_is_list(1) [OF h] ab [symmetric] option.inject)
qed

lemma empty_is_list:
  assumes "is_list h l xs"
  shows "list_empty l h = Some (xs = [])"
proof (cases xs)
  case Nil
  with assms is_list_head_next [OF assms] show ?thesis
    by (simp add: list_empty_def list_head_def node_valid_def get_next_def is_list_def list_nodes_def)
next
  case (Cons x ys)
  then have "list_nodes l xs = [l_head l] @ x # hd (ys @ [l_tail l]) # tl (ys @ [l_tail l])"
    by (cases ys) (auto simp: list_nodes_def)
  with assms have x: "next_of h x = hd (ys @ [l_tail l])" "x \<noteq> 0"
    by (cases ys; simp add: is_list_def)+
  have "hd (ys @ [l_tail l]) \<in> set (list_nodes l xs)" using Cons by (cases ys) auto
  with x assms have "next_of h x \<noteq> 0" by (metis is_list_def)
  with x Cons is_list_head_next [OF assms] show ?thesis
    by (simp add: list_empty_def list_head_def node_valid_def get_next_def)
qed

lemma pop_empty_is_list: "is_list h l [] \<Longrightarrow> list_pop l h = Some (0, h)"
  by (simp add: list_pop_def empty_is_list)

lemma pop_is_list:
  assumes "is_list h l (xs @ [n])"
  shows "\<exists>h'. list_pop l h = Some (n, h') \<and> is_list h' l xs"
  using remove_is_list [of h l xs n "[]"] empty_is_list [OF assms] is_list_last_prev [OF assms] assms
  by (simp add: list_pop_def list_tail_def)

section \<open>Contracts of the list operations\<close>

text \<open>
  What the clients of \<open>list.h\<close> rely on: a list that is appended to at the end and popped
  from the end, and, for the lists whose nodes move between lists, removal of a node and
  the frame (other lists are left alone).
\<close>

locale stack_list =
  fixes holds :: "'h \<Rightarrow> 'l \<Rightarrow> nat list \<Rightarrow> bool"
    and usable :: "'l \<Rightarrow> nat list \<Rightarrow> nat \<Rightarrow> bool"
    and append :: "'l \<Rightarrow> nat \<Rightarrow> 'h \<Rightarrow> 'h option"
    and pop :: "'l \<Rightarrow> 'h \<Rightarrow> (nat \<times> 'h) option"
  assumes append_holds: "holds h l xs \<Longrightarrow> usable l xs n \<Longrightarrow> \<exists>h'. append l n h = Some h' \<and> holds h' l (xs @ [n])"
    and pop_none: "holds h l [] \<Longrightarrow> pop l h = Some (0, h)"
    and pop_some: "holds h l (xs @ [n]) \<Longrightarrow> n \<noteq> 0 \<and> (\<exists>h'. pop l h = Some (n, h') \<and> holds h' l xs)"

text \<open>\<open>while ((n = pop (l))) ...\<close>: the nodes in the order the loop sees them.\<close>

fun drain :: "('l \<Rightarrow> 'h \<Rightarrow> (nat \<times> 'h) option) \<Rightarrow> nat \<Rightarrow> 'l \<Rightarrow> 'h \<Rightarrow> (nat list \<times> 'h) option" where
  "drain pop 0 l h = None"
| "drain pop (Suc fuel) l h = do {
     (n, h) \<leftarrow> pop l h;
     if n = 0 then Some ([], h)
     else do { (ns, h) \<leftarrow> drain pop fuel l h; Some (n # ns, h) } }"

fun append_nodes :: "('l \<Rightarrow> nat \<Rightarrow> 'h \<Rightarrow> 'h option) \<Rightarrow> 'l \<Rightarrow> nat list \<Rightarrow> 'h \<Rightarrow> 'h option" where
  "append_nodes app l [] h = Some h"
| "append_nodes app l (n # ns) h = do { h \<leftarrow> app l n h; append_nodes app l ns h }"

context stack_list
begin

lemma drain_rev:
  assumes "holds h l xs" and "length xs < fuel"
  shows "\<exists>h'. drain pop fuel l h = Some (rev xs, h') \<and> holds h' l []"
  using assms
proof (induction fuel arbitrary: xs h)
  case (Suc fuel)
  show ?case
  proof (cases xs rule: rev_cases)
    case Nil
    with Suc.prems pop_none show ?thesis by fastforce
  next
    case (snoc ys n)
    with Suc.prems obtain h' where n: "n \<noteq> 0" "pop l h = Some (n, h')" "holds h' l ys"
      using pop_some [of h l ys n] by auto
    with Suc.IH [of h' ys] Suc.prems snoc obtain h'' where "drain pop fuel l h' = Some (rev ys, h'')" "holds h'' l []"
      by auto
    with n snoc show ?thesis by simp
  qed
qed simp

lemma append_nodes_holds:
  assumes "holds h l xs" and "\<And>us n vs. ns = us @ n # vs \<Longrightarrow> usable l (xs @ us) n"
  shows "\<exists>h'. append_nodes append l ns h = Some h' \<and> holds h' l (xs @ ns)"
  using assms
proof (induction ns arbitrary: xs h)
  case (Cons n ns)
  from Cons.prems(2) [of "[]" n ns] have "usable l xs n" by simp
  with Cons.prems append_holds obtain h' where h': "append l n h = Some h'" "holds h' l (xs @ [n])"
    by blast
  have "usable l ((xs @ [n]) @ us) m" if "ns = us @ m # vs" for us m vs
    using Cons.prems(2) [of "n # us" m vs] that by simp
  from Cons.IH [OF h'(2) this] h' show ?case by auto
qed auto

text \<open>Filling an empty list and draining it gives the nodes back, last in first out.\<close>

lemma fill_drain:
  assumes "holds h l []" and "\<And>us n vs. ns = us @ n # vs \<Longrightarrow> usable l us n" and "length ns < fuel"
  shows "\<exists>h1 h2. append_nodes append l ns h = Some h1 \<and> drain pop fuel l h1 = Some (rev ns, h2) \<and> holds h2 l []"
  using append_nodes_holds [of h l "[]" ns] drain_rev [of _ l ns fuel] assms by fastforce

end

definition usable_node :: "lst \<Rightarrow> addr_t list \<Rightarrow> addr_t \<Rightarrow> bool" where
  "usable_node l xs n \<longleftrightarrow> n \<noteq> 0 \<and> n \<notin> set (list_nodes l xs)"

interpretation clist: stack_list is_list usable_node list_append list_pop
proof unfold_locales
  fix h l xs n
  assume "is_list h l xs" "usable_node l xs n"
  then show "\<exists>h'. list_append l n h = Some h' \<and> is_list h' l (xs @ [n])"
    using append_is_list [of h l xs n] by (auto simp: usable_node_def)
next
  fix h l
  assume "is_list h l []"
  then show "list_pop l h = Some (0, h)" by (rule pop_empty_is_list)
next
  fix h l xs n
  assume "is_list h l (xs @ [n])"
  then show "n \<noteq> 0 \<and> (\<exists>h'. list_pop l h = Some (n, h') \<and> is_list h' l xs)"
    using pop_is_list by (auto simp: is_list_def)
qed

lemma list_free_drain: "list_free fuel l h = drain list_pop fuel l h"
  by (induction fuel arbitrary: h) (auto split: Option.bind_splits)

locale moving_lists = stack_list holds usable append pop
  for holds :: "'h \<Rightarrow> 'l \<Rightarrow> nat list \<Rightarrow> bool" and usable append pop +
  fixes remove :: "nat \<Rightarrow> 'h \<Rightarrow> 'h option"
    and cells :: "'l \<Rightarrow> nat list \<Rightarrow> nat set"
  assumes remove_holds: "holds h l (xs @ n # ys) \<Longrightarrow> \<exists>h'. remove n h = Some h' \<and> holds h' l (xs @ ys)"
    and remove_keeps: "holds h l (xs @ n # ys) \<Longrightarrow> remove n h = Some h' \<Longrightarrow> holds h k zs \<Longrightarrow>
          cells l (xs @ n # ys) \<inter> cells k zs = {} \<Longrightarrow> holds h' k zs"
    and append_keeps: "holds h l xs \<Longrightarrow> usable l xs n \<Longrightarrow> append l n h = Some h' \<Longrightarrow> holds h k zs \<Longrightarrow>
          insert n (cells l xs) \<inter> cells k zs = {} \<Longrightarrow> holds h' k zs"
begin

text \<open>Moving a node from one list to the end of another: the two lists change, a third does not.\<close>

lemma move_node:
  assumes k: "holds h k (xs @ n # ys)" and l: "holds h l zs" and n: "usable l zs n"
    and sep: "cells k (xs @ n # ys) \<inter> cells l zs = {}" "insert n (cells l zs) \<inter> cells k (xs @ ys) = {}"
  shows "\<exists>h1 h2. remove n h = Some h1 \<and> append l n h1 = Some h2 \<and>
    holds h2 k (xs @ ys) \<and> holds h2 l (zs @ [n]) \<and>
    (\<forall>m ws. holds h m ws \<and> cells k (xs @ n # ys) \<inter> cells m ws = {} \<and> insert n (cells l zs) \<inter> cells m ws = {}
        \<longrightarrow> holds h2 m ws)"
proof -
  obtain h1 where h1: "remove n h = Some h1" "holds h1 k (xs @ ys)"
    using remove_holds [OF k] by blast
  have l1: "holds h1 l zs" using remove_keeps [OF k h1(1) l sep(1)] .
  then obtain h2 where h2: "append l n h1 = Some h2" "holds h2 l (zs @ [n])"
    using append_holds n by blast
  have "holds h2 k (xs @ ys)" using append_keeps [OF l1 n h2(1) h1(2) sep(2)] .
  moreover have "holds h2 m ws" if "holds h m ws" "cells k (xs @ n # ys) \<inter> cells m ws = {}"
      "insert n (cells l zs) \<inter> cells m ws = {}" for m ws
    using append_keeps [OF l1 n h2(1) remove_keeps [OF k h1(1) that(1,2)] that(3)] .
  ultimately show ?thesis using h1 h2 by blast
qed

end

interpretation mlist: moving_lists is_list usable_node list_append list_pop node_remove
  "\<lambda>l xs. set (list_nodes l xs)"
proof unfold_locales
  fix h l xs n ys
  assume "is_list h l (xs @ n # ys)"
  from remove_is_list [OF this]
  show "\<exists>h'. node_remove n h = Some h' \<and> is_list h' l (xs @ ys)" by blast
next
  fix h l xs n ys h' k zs
  assume "is_list h l (xs @ n # ys)" "node_remove n h = Some h'" "is_list h k zs"
    "set (list_nodes l (xs @ n # ys)) \<inter> set (list_nodes k zs) = {}"
  then show "is_list h' k zs" by (intro remove_frame [of h l xs n ys k zs h'])
next
  fix h l xs n h' k zs
  assume "is_list h l xs" "usable_node l xs n" "list_append l n h = Some h'" "is_list h k zs"
    "insert n (set (list_nodes l xs)) \<inter> set (list_nodes k zs) = {}"
  then show "is_list h' k zs"
    unfolding usable_node_def by (intro append_frame [of h l xs n k zs h']) simp_all
qed

section \<open>Loops over a list\<close>

lemma for_each_from_chain:
  assumes "chain h (ns @ [t])" "0 \<notin> set (ns @ [t])" "next_of h t = 0" "length ns < fuel"
  shows "for_each_from fuel (hd (ns @ [t])) h = Some ns"
  using assms
proof (induction fuel arbitrary: ns)
  case (Suc fuel)
  show ?case
  proof (cases ns)
    case Nil
    with Suc.prems show ?thesis by (simp add: node_valid_def get_next_def)
  next
    case (Cons n ms)
    obtain b vs where b: "ms @ [t] = b # vs" by (cases "ms @ [t]") auto
    with Cons Suc.prems have n: "next_of h n = b" "b \<noteq> 0" "n \<noteq> 0" by auto
    have "chain h (ms @ [t])" using Suc.prems(1) Cons b by simp
    with Suc.IH [of ms] Suc.prems Cons have "for_each_from fuel (hd (ms @ [t])) h = Some ms" by simp
    with n b Cons show ?thesis by (simp add: node_valid_def get_next_def)
  qed
qed simp

lemma slist_free_path:
  "next_path \<noteq> [] \<Longrightarrow> (\<And>i. Suc i < length next_path \<Longrightarrow> next_of h (next_path ! i) = next_path ! Suc i) \<Longrightarrow>
   last next_path = 0 \<Longrightarrow> 0 \<notin> set (butlast next_path) \<Longrightarrow> length next_path \<le> fuel \<Longrightarrow>
   slist_free fuel (hd next_path) h = Some (butlast next_path)"
proof (induction fuel arbitrary: next_path)
  case (Suc fuel)
  then obtain n ns where p: "next_path = n # ns" by (cases next_path) auto
  show ?case
  proof (cases ns)
    case Nil
    with Suc.prems p show ?thesis by simp
  next
    case (Cons m ms)
    have "next_of h n = m" using Suc.prems(2) [of 0] p Cons by simp
    moreover have "slist_free fuel (hd ns) h = Some (butlast ns)"
    proof (rule Suc.IH)
      fix i assume "Suc i < length ns"
      then show "next_of h (ns ! i) = ns ! Suc i" using Suc.prems(2) [of "Suc i"] p by simp
    qed (use Suc.prems p Cons in auto)
    ultimately show ?thesis using Suc.prems p Cons by auto
  qed
qed simp

section \<open>Properties\<close>

text \<open>The empty list the witnesses start from.\<close>

definition l0 :: lst where
  "l0 = \<lparr>l_head = 1, l_tail = 2\<rparr>"

definition h0 :: heap where
  "h0 = list_init l0 \<lparr>next_of = \<lambda>_. 0, prev_of = \<lambda>_. 0\<rparr>"

lemma is_list_h0: "is_list h0 l0 []"
  unfolding h0_def by (rule is_list_init) (simp_all add: l0_def)

text \<open>
  C14: Appending nodes one after another to an empty list and then popping until the list
  is empty, as \<open>list_free\<close> does, dereferences no NULL pointer, terminates, and hands out
  every appended node exactly once, the last one first.
\<close>

theorem list_free_all:
  assumes "is_list h l []" and "distinct (list_nodes l ns)" and "0 \<notin> set ns" and "length ns < fuel"
  shows "\<exists>h1 h2. append_nodes list_append l ns h = Some h1 \<and> list_free fuel l h1 = Some (rev ns, h2) \<and>
           is_list h1 l ns \<and> is_list h2 l []"
proof -
  have u: "usable_node l us n" if "ns = us @ n # vs" for us n vs
    using that assms(2,3) by (auto simp: usable_node_def list_nodes_def)
  from clist.fill_drain [OF assms(1) u assms(4)] clist.append_nodes_holds [OF assms(1), of ns] u
  show ?thesis by (fastforce simp: list_free_drain)
qed

theorem list_free_all_witness:
  "\<exists>h1 h2. append_nodes list_append l0 [3, 4, 5] h0 = Some h1 \<and> list_free 4 l0 h1 = Some ([5, 4, 3], h2) \<and>
     is_list h1 l0 [3, 4, 5] \<and> is_list h2 l0 []"
  using list_free_all [OF is_list_h0, of "[3, 4, 5]" 4] by (simp add: l0_def list_nodes_def)

text \<open>
  Removing a node from a list and appending it to the end of another one, the surgery
  behind \<open>master_set\<close> and \<open>link_set\<close>, never dereferences NULL, takes the node out of the
  first list, puts it last in the second and leaves every list apart from them unchanged.
\<close>

lemma move_between_lists:
  assumes "is_list h k (xs @ n # ys)" and "is_list h l zs"
    and "set (list_nodes k (xs @ n # ys)) \<inter> set (list_nodes l zs) = {}"
  shows "\<exists>h1 h2. node_remove n h = Some h1 \<and> list_append l n h1 = Some h2 \<and>
    is_list h2 k (xs @ ys) \<and> is_list h2 l (zs @ [n]) \<and>
    (\<forall>m ws. is_list h m ws \<and> set (list_nodes m ws) \<inter> (set (list_nodes k (xs @ n # ys)) \<union> set (list_nodes l zs)) = {}
       \<longrightarrow> is_list h2 m ws)"
proof -
  have n: "usable_node l zs n" using assms by (auto simp: usable_node_def is_list_def)
  have "n \<notin> set (list_nodes k (xs @ ys))" "set (list_nodes k (xs @ ys)) \<subseteq> set (list_nodes k (xs @ n # ys))"
    using assms(1) by (auto simp: is_list_def list_nodes_def)
  with assms(3) have "insert n (set (list_nodes l zs)) \<inter> set (list_nodes k (xs @ ys)) = {}" by blast
  from mlist.move_node [OF assms(1,2) n assms(3) this] obtain h1 h2 where
    mv: "node_remove n h = Some h1" "list_append l n h1 = Some h2" "is_list h2 k (xs @ ys)" "is_list h2 l (zs @ [n])"
    and fr: "\<And>m ws. is_list h m ws \<Longrightarrow> set (list_nodes k (xs @ n # ys)) \<inter> set (list_nodes m ws) = {} \<Longrightarrow>
      insert n (set (list_nodes l zs)) \<inter> set (list_nodes m ws) = {} \<Longrightarrow> is_list h2 m ws" by blast
  have "n \<in> set (list_nodes k (xs @ n # ys))" by simp
  then have "set (list_nodes k (xs @ n # ys)) \<inter> set (list_nodes m ws) = {} \<and>
      insert n (set (list_nodes l zs)) \<inter> set (list_nodes m ws) = {}"
    if "set (list_nodes m ws) \<inter> (set (list_nodes k (xs @ n # ys)) \<union> set (list_nodes l zs)) = {}" for m ws
    using that by blast
  with mv fr show ?thesis by (intro exI [of _ h1] exI [of _ h2] conjI allI impI) blast+
qed

definition l1 :: lst where
  "l1 = \<lparr>l_head = 6, l_tail = 7\<rparr>"

definition h345 :: heap where
  "h345 = \<lparr>next_of = (\<lambda>_. 0)(1 := 3, 3 := 4, 4 := 5, 5 := 2, 6 := 8, 8 := 7),
           prev_of = (\<lambda>_. 0)(2 := 5, 5 := 4, 4 := 3, 3 := 1, 7 := 8, 8 := 6)\<rparr>"

lemma is_list_h345: "is_list h345 l0 [3, 4, 5]" "is_list h345 l1 [8]"
  by (simp_all add: is_list_def list_nodes_def h345_def l0_def l1_def)

text \<open>
  \<open>list_for_each\<close> visits exactly the nodes of the list, in order, and stops at the
  virtual tail.
\<close>

lemma list_for_each_visits:
  assumes "is_list h l xs" and "length xs < fuel"
  shows "list_for_each fuel l h = Some xs"
proof -
  have "chain h (xs @ [l_tail l])" "0 \<notin> set (xs @ [l_tail l])" "next_of h (l_tail l) = 0"
    using assms(1) chain_append [of h "[]" "l_head l" "xs @ [l_tail l]"]
    by (cases xs; auto simp: is_list_def list_nodes_def)+
  from for_each_from_chain [OF this assms(2)] is_list_head_next [OF assms(1)] show ?thesis
    by (simp add: list_for_each_def list_head_def)
qed

end
