(* ===== verification/Master.thy ===== *)
theory Master
  imports Match ListH
begin

text \<open>
  The relations between interfaces (\<open>master.c\<close>): master and link with their reverse lists,
  the symmetric peer relation, and the resolution of interface indices into them, by
  searching all name spaces (\<open>master_resolve\<close>) or by name space identifiers
  (\<open>match_all_netnsid\<close> of \<open>match.c\<close>).  \<open>node_remove\<close> of an interface's \<open>rev_master_node\<close>
  unlinks it from the list it is in, which is its master's; \<open>MasterPtr\<close> has the setters on
  pointers.
\<close>

section \<open>Setting the relations\<close>

definition master_set :: "ifp option \<Rightarrow> ifp \<Rightarrow> wact" where
  "master_set new e = assign (\<lambda>w.
     (let w = (case i_master (w_if w e) of None \<Rightarrow> w
                | Some m \<Rightarrow> upd_if m (\<lambda>i. i\<lparr>i_rev_master := remove1 e (i_rev_master i)\<rparr>) w);
          w = upd_if e (\<lambda>i. i\<lparr>i_master := new\<rparr>) w in
      case new of None \<Rightarrow> w
      | Some m \<Rightarrow> upd_if m (\<lambda>i. i\<lparr>i_rev_master := i_rev_master i @ [e]\<rparr>) w))"

definition link_set :: "ifp option \<Rightarrow> ifp option \<Rightarrow> wact" where
  "link_set new entry =
     (case entry of None \<Rightarrow> return_err 0
      | Some e \<Rightarrow> assign (\<lambda>w.
         (let w = (case i_link (w_if w e) of None \<Rightarrow> w
                    | Some l \<Rightarrow> upd_if l (\<lambda>i. i\<lparr>i_rev_link := remove1 e (i_rev_link i)\<rparr>) w);
              w = upd_if e (\<lambda>i. i\<lparr>i_link := new\<rparr>) w in
          case new of None \<Rightarrow> w
          | Some l \<Rightarrow> upd_if l (\<lambda>i. i\<lparr>i_rev_link := i_rev_link i @ [e]\<rparr>) w)))"

definition peer_set_one :: "ifp option \<Rightarrow> ifp option \<Rightarrow> world \<Rightarrow> world" where
  "peer_set_one this that w =
     (case this of None \<Rightarrow> w
      | Some a \<Rightarrow>
          (let w = (case i_peer (w_if w a) of None \<Rightarrow> w | Some p \<Rightarrow> upd_if p (\<lambda>i. i\<lparr>i_peer := None\<rparr>) w) in
           upd_if a (\<lambda>i. i\<lparr>i_peer := that\<rparr>) w))"

definition peer_set :: "ifp option \<Rightarrow> ifp option \<Rightarrow> wact" where
  "peer_set a b = andthen (assign (peer_set_one a b)) (assign (peer_set_one b a))"

section \<open>Resolving indices\<close>

definition match_master :: "world \<Rightarrow> ifp \<Rightarrow> match_callback" where
  "match_master w slave entry =
     (if i_index (w_if w entry) \<noteq> i_master_index (w_if w slave) then Some 0
      else if i_ns (w_if w entry) = i_ns (w_if w slave) then Some 2 else Some 1)"

definition match_link :: "world \<Rightarrow> ifp \<Rightarrow> match_callback" where
  "match_link w slave entry =
     (if i_index (w_if w entry) \<noteq> i_link_index (w_if w slave) then Some 0
      else if i_ns (w_if w entry) = i_ns (w_if w slave) then Some 2 else Some 1)"

definition err_msg :: "match_desc \<Rightarrow> string \<Rightarrow> ifp \<Rightarrow> wact" where
  "err_msg d type e =
     (if match_ambiguous d then if_add_warning e (''has a '' @ type @ '' but failed to find it reliably'')
      else if match_found d = None then if_add_warning e (''has a '' @ type @ '' but failed to find it'')
      else return_err 0)"

text \<open>
  The text the two halves of \<open>process\<close> share: search all name spaces for the interface,
  itself excluded, warn, and set the relation.
\<close>

definition resolve_by :: "(world \<Rightarrow> ifp \<Rightarrow> match_callback) \<Rightarrow> string \<Rightarrow> (ifp option \<Rightarrow> ifp \<Rightarrow> wact) \<Rightarrow> ifp \<Rightarrow> wact" where
  "resolve_by callback type set_rel e = reading (\<lambda>w.
     (case match_if w (callback w e) (match_init\<lparr>md_netns_list := Some (w_list w), md_exclude := Some e\<rparr>) of
        None \<Rightarrow> crash
      | Some (err, d) \<Rightarrow>
          if err \<noteq> 0 then return_err err
          else andthen (err_msg d type e) (set_rel (match_found d) e)))"

definition process :: "ifp \<Rightarrow> wact" where
  "process e =
     andthen
       (branch (\<lambda>w. i_master (w_if w e) = None \<and> i_master_index (w_if w e) \<noteq> 0)
          (resolve_by match_master ''master'' master_set e) ok_act)
     (andthen
       (branch (\<lambda>w. i_link (w_if w e) = None \<and> i_link_index (w_if w e) \<noteq> 0)
          (resolve_by match_link ''link'' (\<lambda>l e. link_set l (Some e)) e) ok_act)
     (return_err 0))"

definition master_resolve :: wact where
  "master_resolve = reading (\<lambda>w. each_act (\<lambda>n. reading (\<lambda>w. each_act process (n_ifaces (w_ns w n)))) (w_list w))"

definition netnsid_links :: "nsp \<Rightarrow> ifp \<Rightarrow> wact" where
  "netnsid_links n e =
     andthen
       (reading (\<lambda>w. let i = w_if w e in
          if i_link_netnsid i \<ge> 0 then
            if i_link_index i \<noteq> 0 then link_set (match_if_netnsid w (i_link_index i) (i_link_netnsid i) n) (Some e)
            else assign (upd_if e (\<lambda>i. i\<lparr>i_link_net := match_netnsid w (i_link_netnsid i) n\<rparr>))
          else ok_act))
       (reading (\<lambda>w. let i = w_if w e in
          if i_peer_netnsid i \<ge> 0 then peer_set (Some e) (match_if_netnsid w (i_peer_index i) (i_peer_netnsid i) n)
          else ok_act))"

definition match_all_netnsid :: wact where
  "match_all_netnsid =
     reading (\<lambda>w. each_act (\<lambda>n. reading (\<lambda>w. each_act (netnsid_links n) (n_ifaces (w_ns w n)))) (w_list w))"

section \<open>The reverse lists\<close>

text \<open>
  Master and link have the same contract: setting the relation of one interface changes that
  relation only there, takes the interface off the reverse list of its old target and puts it
  at the end of that of the new one.
\<close>

locale relation =
  fixes target :: "if_entry \<Rightarrow> ifp option"
    and rev_list :: "if_entry \<Rightarrow> ifp list"
    and set_target :: "ifp option \<Rightarrow> ifp \<Rightarrow> world \<Rightarrow> world"
  assumes target_set: "target (w_if (set_target t e w) x) = (if x = e then t else target (w_if w x))"
    and rev_set: "rev_list (w_if (set_target t e w) x) =
      (let l = (if target (w_if w e) = Some x then remove1 e (rev_list (w_if w x)) else rev_list (w_if w x)) in
       if t = Some x then l @ [e] else l)"
begin

definition consistent :: "world \<Rightarrow> bool" where
  "consistent w \<longleftrightarrow> (\<forall>x. distinct (rev_list (w_if w x)) \<and> (\<forall>e. e \<in> set (rev_list (w_if w x)) \<longleftrightarrow> target (w_if w e) = Some x))"

lemma consistent_set:
  assumes c: "consistent w"
  shows "consistent (set_target t e w)"
  unfolding consistent_def
proof (intro allI conjI)
  fix x
  from c have d: "distinct (rev_list (w_if w x))" and m: "\<And>a. a \<in> set (rev_list (w_if w x)) \<longleftrightarrow> target (w_if w a) = Some x"
    by (auto simp: consistent_def)
  from d m show "distinct (rev_list (w_if (set_target t e w) x))"
    by (auto simp: rev_set Let_def)
  fix a
  from d m show "a \<in> set (rev_list (w_if (set_target t e w) x)) \<longleftrightarrow> target (w_if (set_target t e w) a) = Some x"
    by (auto simp: rev_set target_set Let_def)
qed

lemma moved_last: "target (w_if w e) \<noteq> Some x \<Longrightarrow> rev_list (w_if (set_target (Some x) e w) x) = rev_list (w_if w x) @ [e]"
  by (simp add: rev_set)

lemma left_out: "consistent w \<Longrightarrow> t \<noteq> Some x \<Longrightarrow> e \<notin> set (rev_list (w_if (set_target t e w) x))"
  using consistent_set [of w t e] by (auto simp: consistent_def target_set)

end

text \<open>The assignments of \<open>master_set\<close> and \<open>link_set\<close>, as functions on the world.\<close>

definition set_master :: "ifp option \<Rightarrow> ifp \<Rightarrow> world \<Rightarrow> world" where
  "set_master t e w = snd (the (master_set t e w))"

definition set_link :: "ifp option \<Rightarrow> ifp \<Rightarrow> world \<Rightarrow> world" where
  "set_link t e w = snd (the (link_set t (Some e) w))"

lemma master_set_assign: "master_set t e = assign (set_master t e)"
  by (simp add: fun_eq_iff set_master_def master_set_def assign_def)

lemma link_set_assign: "link_set t (Some e) = assign (set_link t e)"
  by (simp add: fun_eq_iff set_link_def link_set_def assign_def)

lemma link_set_None [simp]: "link_set t None = return_err 0"
  by (simp add: link_set_def)

interpretation masters: relation i_master i_rev_master set_master
  by unfold_locales (auto simp: set_master_def master_set_def assign_def Let_def split: option.splits)

interpretation links: relation i_link i_rev_link set_link
  by unfold_locales (auto simp: set_link_def link_set_def assign_def Let_def split: option.splits)

text \<open>What setting one relation leaves alone.\<close>

definition peers_ok :: "world \<Rightarrow> bool" where
  "peers_ok w \<longleftrightarrow> (\<forall>a b. i_peer (w_if w a) = Some b \<longrightarrow> i_peer (w_if w b) = Some a)"

definition masters_ok :: "world \<Rightarrow> bool" where
  "masters_ok w \<longleftrightarrow> (\<forall>m. distinct (i_rev_master (w_if w m)) \<and> (\<forall>e. e \<in> set (i_rev_master (w_if w m)) \<longleftrightarrow> i_master (w_if w e) = Some m))"

definition links_ok :: "world \<Rightarrow> bool" where
  "links_ok w \<longleftrightarrow> (\<forall>l. distinct (i_rev_link (w_if w l)) \<and> (\<forall>e. e \<in> set (i_rev_link (w_if w l)) \<longleftrightarrow> i_link (w_if w e) = Some l))"

definition relations_ok :: "world \<Rightarrow> bool" where
  "relations_ok w \<longleftrightarrow> masters_ok w \<and> links_ok w \<and> peers_ok w"

lemma masters_ok_iff: "masters_ok w \<longleftrightarrow> masters.consistent w"
  by (simp add: masters_ok_def masters.consistent_def)

lemma links_ok_iff: "links_ok w \<longleftrightarrow> links.consistent w"
  by (simp add: links_ok_def links.consistent_def)

lemma masters_ok_cong:
  assumes "\<And>x. i_master (w_if v x) = i_master (w_if w x)" "\<And>x. i_rev_master (w_if v x) = i_rev_master (w_if w x)"
  shows "masters_ok v = masters_ok w"
  by (simp only: masters_ok_def assms)

lemma links_ok_cong:
  assumes "\<And>x. i_link (w_if v x) = i_link (w_if w x)" "\<And>x. i_rev_link (w_if v x) = i_rev_link (w_if w x)"
  shows "links_ok v = links_ok w"
  by (simp only: links_ok_def assms)

lemma peers_ok_cong:
  assumes "\<And>x. i_peer (w_if v x) = i_peer (w_if w x)"
  shows "peers_ok v = peers_ok w"
  by (simp only: peers_ok_def assms)

lemma relations_ok_cong:
  assumes "same_links v w"
  shows "relations_ok v = relations_ok w"
proof -
  have e: "i_master (w_if v x) = i_master (w_if w x)" "i_rev_master (w_if v x) = i_rev_master (w_if w x)"
    "i_link (w_if v x) = i_link (w_if w x)" "i_rev_link (w_if v x) = i_rev_link (w_if w x)"
    "i_peer (w_if v x) = i_peer (w_if w x)" for x
    using assms by (simp_all add: same_links_def if_links_def)
  show ?thesis
    unfolding relations_ok_def by (simp only: masters_ok_cong [OF e(1,2)] links_ok_cong [OF e(3,4)] peers_ok_cong [OF e(5)])
qed

lemma on_links_relations [intro, simp]: "on_links relations_ok"
  unfolding on_links_def by (simp add: relations_ok_cong [symmetric])

lemma set_master_frame [simp]:
  "i_link (w_if (set_master t e w) x) = i_link (w_if w x)"
  "i_rev_link (w_if (set_master t e w) x) = i_rev_link (w_if w x)"
  "i_peer (w_if (set_master t e w) x) = i_peer (w_if w x)"
  "i_physfn (w_if (set_master t e w) x) = i_physfn (w_if w x)"
  "i_index (w_if (set_master t e w) x) = i_index (w_if w x)"
  "i_ns (w_if (set_master t e w) x) = i_ns (w_if w x)"
  "i_master_index (w_if (set_master t e w) x) = i_master_index (w_if w x)"
  "i_link_index (w_if (set_master t e w) x) = i_link_index (w_if w x)"
  "w_ns (set_master t e w) = w_ns w" "w_list (set_master t e w) = w_list w" "w_mem (set_master t e w) = w_mem w"
  "w_ovs (set_master t e w) = w_ovs w"
  by (auto simp: set_master_def master_set_def assign_def Let_def split: option.splits)

lemma set_link_frame [simp]:
  "i_master (w_if (set_link t e w) x) = i_master (w_if w x)"
  "i_rev_master (w_if (set_link t e w) x) = i_rev_master (w_if w x)"
  "i_peer (w_if (set_link t e w) x) = i_peer (w_if w x)"
  "i_physfn (w_if (set_link t e w) x) = i_physfn (w_if w x)"
  "i_index (w_if (set_link t e w) x) = i_index (w_if w x)"
  "i_ns (w_if (set_link t e w) x) = i_ns (w_if w x)"
  "i_master_index (w_if (set_link t e w) x) = i_master_index (w_if w x)"
  "i_link_index (w_if (set_link t e w) x) = i_link_index (w_if w x)"
  "w_ns (set_link t e w) = w_ns w" "w_list (set_link t e w) = w_list w" "w_mem (set_link t e w) = w_mem w"
  "w_ovs (set_link t e w) = w_ovs w"
  by (auto simp: set_link_def link_set_def assign_def Let_def split: option.splits)

lemma relations_set_master: "relations_ok w \<Longrightarrow> relations_ok (set_master t e w)"
  unfolding relations_ok_def
  using masters.consistent_set [of w t e] links_ok_cong [of "set_master t e w" w] peers_ok_cong [of "set_master t e w" w]
  by (simp add: masters_ok_iff)

lemma relations_set_link: "relations_ok w \<Longrightarrow> relations_ok (set_link t e w)"
  unfolding relations_ok_def
  using links.consistent_set [of w t e] masters_ok_cong [of "set_link t e w" w] peers_ok_cong [of "set_link t e w" w]
  by (simp add: links_ok_iff)

lemma keeps_master_set [keeps_intros]: "keeps relations_ok (master_set t e)"
  by (simp add: master_set_assign keeps_assign relations_set_master)

lemma keeps_link_set [keeps_intros]: "keeps relations_ok (link_set t entry)"
  by (cases entry) (simp_all add: link_set_assign keeps_assign relations_set_link keeps_return_err)

section \<open>Peers\<close>

text \<open>
  Both halves of \<open>peer_set\<close> go through an assignment \<open>unpeer\<close> of the old peer; the peer
  relation is symmetric before and after, not in between.
\<close>

lemma peer_set_one_frame [simp]:
  "i_master (w_if (peer_set_one a b w) x) = i_master (w_if w x)"
  "i_rev_master (w_if (peer_set_one a b w) x) = i_rev_master (w_if w x)"
  "i_link (w_if (peer_set_one a b w) x) = i_link (w_if w x)"
  "i_rev_link (w_if (peer_set_one a b w) x) = i_rev_link (w_if w x)"
  "i_physfn (w_if (peer_set_one a b w) x) = i_physfn (w_if w x)"
  "w_ns (peer_set_one a b w) = w_ns w" "w_list (peer_set_one a b w) = w_list w" "w_mem (peer_set_one a b w) = w_mem w"
  "w_ovs (peer_set_one a b w) = w_ovs w"
  by (auto simp: peer_set_one_def Let_def split: option.splits)

lemma peer_set_one_peer:
  "i_peer (w_if (peer_set_one (Some a) b w) x) =
     (if x = a then b else if i_peer (w_if w a) = Some x then None else i_peer (w_if w x))"
  by (auto simp: peer_set_one_def Let_def split: option.splits)

lemma peer_set_one_None [simp]: "peer_set_one None b w = w"
  by (simp add: peer_set_one_def)

text \<open>The peer relation after \<open>peer_set\<close>.\<close>

definition peered :: "ifp option \<Rightarrow> ifp option \<Rightarrow> (ifp \<Rightarrow> ifp option) \<Rightarrow> ifp \<Rightarrow> ifp option" where
  "peered a b peer x =
     (if a = Some x then b
      else if b = Some x then a
      else if peer x \<noteq> None \<and> (peer x = a \<or> peer x = b) then None
      else peer x)"

lemma peer_set_peered:
  assumes ok: "peers_ok w" and r: "peer_set a b w = Some (err, v)"
  shows "err = 0 \<and> v = peer_set_one b a (peer_set_one a b w) \<and> i_peer (w_if v x) = peered a b (\<lambda>x. i_peer (w_if w x)) x"
proof -
  have sym: "i_peer (w_if w x) = Some y \<longleftrightarrow> i_peer (w_if w y) = Some x" for x y
    using ok unfolding peers_ok_def by iprover
  from r have v: "err = 0" "v = peer_set_one b a (peer_set_one a b w)"
    by (simp_all add: peer_set_def assign_def andthen_def)
  have "i_peer (w_if v x) = peered a b (\<lambda>x. i_peer (w_if w x)) x"
  proof (cases a)
    case None
    then show ?thesis
      by (cases b) (use sym [of _ x] in \<open>auto simp: v(2) peered_def peer_set_one_peer\<close>)
  next
    case (Some a')
    show ?thesis
    proof (cases b)
      case None
      then show ?thesis
        using Some sym [of a' x] by (auto simp: v(2) peered_def peer_set_one_peer)
    next
      case (Some b')
      then show ?thesis
        using \<open>a = Some a'\<close> sym [of a' x] sym [of b' x] sym [of a' b']
        by (auto simp: v(2) peered_def peer_set_one_peer)
    qed
  qed
  with v show ?thesis by simp
qed

lemma peers_ok_peered:
  assumes "\<And>x y. p x = Some y \<Longrightarrow> p y = Some x" and "peered a b p x = Some y"
  shows "peered a b p y = Some x"
  using assms(2) unfolding peered_def
  by (cases "a = Some x"; cases "b = Some x"; cases "a = Some y"; cases "b = Some y"; simp split: if_splits) (metis assms(1) option.inject)+

lemma keeps_peer_set [keeps_intros]: "keeps relations_ok (peer_set a b)"
proof (rule keepsI)
  fix w err v
  assume ok: "relations_ok w" and r: "peer_set a b w = Some (err, v)"
  then have p: "peers_ok w" by (simp add: relations_ok_def)
  note pv = peer_set_peered [OF p r]
  have e: "i_peer (w_if v x) = peered a b (\<lambda>x. i_peer (w_if w x)) x" for x using pv by blast
  have s: "i_peer (w_if w x) = Some y \<Longrightarrow> i_peer (w_if w y) = Some x" for x y
    using p unfolding peers_ok_def by iprover
  have "peers_ok v"
    unfolding peers_ok_def e by (intro allI impI) (rule peers_ok_peered [of "\<lambda>x. i_peer (w_if w x)", OF s])
  moreover have "masters_ok v = masters_ok w" using pv by (intro masters_ok_cong) auto
  moreover have "links_ok v = links_ok w" using pv by (intro links_ok_cong) auto
  ultimately show "relations_ok v" using ok by (simp add: relations_ok_def)
qed

section \<open>Resolution\<close>

text \<open>What resolution reads and never changes: the indices, the name spaces and their interfaces.\<close>

definition same_net :: "world \<Rightarrow> world \<Rightarrow> bool" where
  "same_net v w \<longleftrightarrow> w_list v = w_list w \<and> (\<forall>n. n_ifaces (w_ns v n) = n_ifaces (w_ns w n)) \<and>
     (\<forall>e. i_index (w_if v e) = i_index (w_if w e) \<and> i_ns (w_if v e) = i_ns (w_if w e) \<and>
        i_master_index (w_if v e) = i_master_index (w_if w e) \<and> i_link_index (w_if v e) = i_link_index (w_if w e))"

lemma same_net_refl [simp]: "same_net w w"
  by (simp add: same_net_def)

lemma same_net_trans: "same_net u v \<Longrightarrow> same_net v w \<Longrightarrow> same_net u w"
  unfolding same_net_def by simp

lemma same_net_all_ifs: "same_net v w \<Longrightarrow> all_ifs v = all_ifs w"
  by (simp add: same_net_def all_ifs_def)

lemma same_links_refl [simp]: "same_links w w"
  by (simp add: same_links_def)

lemma same_links_targets:
  assumes "same_links v w"
  shows "i_master (w_if v x) = i_master (w_if w x)" and "i_link (w_if v x) = i_link (w_if w x)"
  using assms by (simp_all add: same_links_def if_links_def)

lemma if_add_warning_ok:
  assumes "w_mem w = []"
  shows "\<exists>v. if_add_warning e txt w = Some (0, v) \<and> w_mem v = [] \<and> same_net v w \<and> same_links v w"
  using assms
  by (simp add: if_add_warning_def act_defs if_alloc_def mem_call_def label_add_def Let_def same_net_def same_links_def if_links_def)

lemma err_msg_ok:
  assumes "w_mem w = []"
  shows "\<exists>v. err_msg d type e w = Some (0, v) \<and> w_mem v = [] \<and> same_net v w \<and> same_links v w"
  using if_add_warning_ok [OF assms] assms by (simp add: err_msg_def return_err_def)

text \<open>The priority both callbacks give: 2 for the wanted index in the same name space, 1 elsewhere.\<close>

definition index_prio :: "world \<Rightarrow> ifp \<Rightarrow> u32 \<Rightarrow> ifp \<Rightarrow> int" where
  "index_prio w e idx x =
     (if i_index (w_if w x) \<noteq> idx then 0 else if i_ns (w_if w x) = i_ns (w_if w e) then 2 else 1)"

lemma match_master_prio: "match_master w e x = Some (index_prio w e (i_master_index (w_if w e)) x)"
  by (simp add: match_master_def index_prio_def)

lemma match_link_prio: "match_link w e x = Some (index_prio w e (i_link_index (w_if w e)) x)"
  by (simp add: match_link_def index_prio_def)

lemma index_prio_nonneg: "0 \<le> index_prio w e idx x"
  by (simp add: index_prio_def)

definition resolved :: "world \<Rightarrow> ifp \<Rightarrow> u32 \<Rightarrow> ifp option" where
  "resolved w e idx = best_match (index_prio w e idx) (candidates (Some e) (all_ifs w))"

lemma resolved_cong:
  assumes "same_net v w"
  shows "resolved v e idx = resolved w e idx"
proof -
  have "index_prio v e idx = index_prio w e idx"
    using assms by (simp add: same_net_def index_prio_def fun_eq_iff)
  with same_net_all_ifs [OF assms] show ?thesis by (simp add: resolved_def)
qed

lemma resolve_by_ok:
  assumes "\<And>x. callback w e x = Some (index_prio w e idx x)" and "w_mem w = []"
  shows "\<exists>v. resolve_by callback type set_rel e w = set_rel (resolved w e idx) e v \<and>
    w_mem v = [] \<and> same_net v w \<and> same_links v w"
proof -
  let ?d = "match_init\<lparr>md_netns_list := Some (w_list w), md_exclude := Some e\<rparr>"
  have d: "?d = match_init\<lparr>md_exclude := Some e, md_netns_list := Some (w_list w), md_ns := None\<rparr>"
    by (simp add: match_init_def)
  have sc: "scope w ?d = candidates (Some e) (all_ifs w)"
    by (simp add: scope_def all_ifs_def)
  obtain d' where m: "match_if w (callback w e) ?d = Some (0, d')" "match_found d' = resolved w e idx"
    using match_if_result [OF _ d, of w "callback w e" "index_prio w e idx"] assms(1) index_prio_nonneg
    unfolding sc resolved_def by auto
  from err_msg_ok [OF assms(2), of d' type e] obtain v where
    "err_msg d' type e w = Some (0, v)" "w_mem v = []" "same_net v w" "same_links v w" by blast
  with m show ?thesis by (auto simp: resolve_by_def reading_def andthen_def)
qed

lemma same_net_set_master [simp]: "same_net (set_master t e w) w"
  by (simp add: same_net_def)

lemma same_net_set_link [simp]: "same_net (set_link t e w) w"
  by (simp add: same_net_def)

text \<open>What \<open>process\<close> makes of a relation: resolved when unset and with an index, else as it was.\<close>

definition resolve_target :: "world \<Rightarrow> (if_entry \<Rightarrow> ifp option) \<Rightarrow> (if_entry \<Rightarrow> u32) \<Rightarrow> ifp \<Rightarrow> ifp option" where
  "resolve_target w target idx e =
     (if target (w_if w e) = None \<and> idx (w_if w e) \<noteq> 0 then resolved w e (idx (w_if w e)) else target (w_if w e))"

lemma process_master_ok:
  assumes m: "w_mem w = []"
  shows "\<exists>v. branch (\<lambda>w. i_master (w_if w e) = None \<and> i_master_index (w_if w e) \<noteq> 0)
      (resolve_by match_master ''master'' master_set e) ok_act w = Some (0, v) \<and> w_mem v = [] \<and> same_net v w \<and>
      (\<forall>x. i_master (w_if v x) = (if x = e then resolve_target w i_master i_master_index e else i_master (w_if w x))) \<and>
      (\<forall>x. i_link (w_if v x) = i_link (w_if w x))"
proof (cases "i_master (w_if w e) = None \<and> i_master_index (w_if w e) \<noteq> 0")
  case True
  from resolve_by_ok [where callback = match_master and e = e, OF match_master_prio m, of "''master''" master_set] obtain v where
    v: "resolve_by match_master ''master'' master_set e w = master_set (resolved w e (i_master_index (w_if w e))) e v"
    "w_mem v = []" "same_net v w" "same_links v w" by blast
  from same_net_trans [OF same_net_set_master v(3)] v same_links_targets [OF v(4)] True show ?thesis
    by (simp add: branch_def master_set_assign assign_def masters.target_set resolve_target_def)
next
  case False
  with m show ?thesis
    by (intro exI [of _ w]) (auto simp: branch_def ok_act_def resolve_target_def)
qed

lemma process_link_ok:
  assumes m: "w_mem w = []"
  shows "\<exists>v. branch (\<lambda>w. i_link (w_if w e) = None \<and> i_link_index (w_if w e) \<noteq> 0)
      (resolve_by match_link ''link'' (\<lambda>l e. link_set l (Some e)) e) ok_act w = Some (0, v) \<and> w_mem v = [] \<and> same_net v w \<and>
      (\<forall>x. i_link (w_if v x) = (if x = e then resolve_target w i_link i_link_index e else i_link (w_if w x))) \<and>
      (\<forall>x. i_master (w_if v x) = i_master (w_if w x))"
proof (cases "i_link (w_if w e) = None \<and> i_link_index (w_if w e) \<noteq> 0")
  case True
  from resolve_by_ok [where callback = match_link and e = e, OF match_link_prio m, of "''link''" "\<lambda>l e. link_set l (Some e)"] obtain v where
    v: "resolve_by match_link ''link'' (\<lambda>l e. link_set l (Some e)) e w = link_set (resolved w e (i_link_index (w_if w e))) (Some e) v"
    "w_mem v = []" "same_net v w" "same_links v w" by blast
  from same_net_trans [OF same_net_set_link v(3)] v same_links_targets [OF v(4)] True show ?thesis
    by (simp add: branch_def link_set_assign assign_def links.target_set resolve_target_def)
next
  case False
  with m show ?thesis
    by (intro exI [of _ w]) (auto simp: branch_def ok_act_def resolve_target_def)
qed

definition targets_after :: "world \<Rightarrow> ifp list \<Rightarrow> world \<Rightarrow> bool" where
  "targets_after w es v \<longleftrightarrow> w_mem v = [] \<and> same_net v w \<and>
     (\<forall>x. i_master (w_if v x) = (if x \<in> set es then resolve_target w i_master i_master_index x else i_master (w_if w x))) \<and>
     (\<forall>x. i_link (w_if v x) = (if x \<in> set es then resolve_target w i_link i_link_index x else i_link (w_if w x)))"

lemma process_ok:
  assumes m: "w_mem w = []"
  shows "\<exists>v. process e w = Some (0, v) \<and> targets_after w [e] v"
proof -
  from process_master_ok [OF m, of e] obtain u where
    u: "branch (\<lambda>w. i_master (w_if w e) = None \<and> i_master_index (w_if w e) \<noteq> 0)
      (resolve_by match_master ''master'' master_set e) ok_act w = Some (0, u)" "w_mem u = []" "same_net u w"
      "\<And>x. i_master (w_if u x) = (if x = e then resolve_target w i_master i_master_index e else i_master (w_if w x))"
      "\<And>x. i_link (w_if u x) = i_link (w_if w x)" by blast
  from process_link_ok [OF u(2), of e] obtain v where
    v: "branch (\<lambda>w. i_link (w_if w e) = None \<and> i_link_index (w_if w e) \<noteq> 0)
      (resolve_by match_link ''link'' (\<lambda>l e. link_set l (Some e)) e) ok_act u = Some (0, v)" "w_mem v = []" "same_net v u"
      "\<And>x. i_link (w_if v x) = (if x = e then resolve_target u i_link i_link_index e else i_link (w_if u x))"
      "\<And>x. i_master (w_if v x) = i_master (w_if u x)" by blast
  have "i_link_index (w_if u e) = i_link_index (w_if w e)" using u(3) by (simp add: same_net_def)
  then have t: "resolve_target u i_link i_link_index e = resolve_target w i_link i_link_index e"
    by (simp add: resolve_target_def u(5) resolved_cong [OF u(3)])
  have "process e w = Some (0, v)"
    unfolding process_def andthen_def u(1) by (simp add: v(1) return_err_def)
  then show ?thesis
    using v(2) same_net_trans [OF v(3) u(3)] u(4,5) v(4,5) t by (auto simp: targets_after_def)
qed

lemma targets_after_step:
  assumes u: "targets_after w xs u" and v: "targets_after u ys v"
  shows "targets_after w (xs @ ys) v"
proof -
  from u have n: "same_net u w" by (simp add: targets_after_def)
  have idx: "i_master_index (w_if u x) = i_master_index (w_if w x)" "i_link_index (w_if u x) = i_link_index (w_if w x)" for x
    using n by (simp_all add: same_net_def)
  show ?thesis
    using u v same_net_trans [OF _ n, of v]
    by (auto simp: targets_after_def resolve_target_def resolved_cong [OF n] idx)
qed

lemma each_process_ok:
  "w_mem w = [] \<Longrightarrow> \<exists>v. each_act process es w = Some (0, v) \<and> targets_after w es v"
proof (induction es arbitrary: w)
  case Nil
  then show ?case by (auto simp: ok_act_def targets_after_def)
next
  case (Cons e es)
  from process_ok [OF Cons.prems, of e] obtain u where u: "process e w = Some (0, u)" "targets_after w [e] u" by blast
  from u(2) have "w_mem u = []" by (simp add: targets_after_def)
  from Cons.IH [OF this] obtain v where "each_act process es u = Some (0, v)" "targets_after u es v" by blast
  with u targets_after_step [OF u(2)] show ?case by (force simp: andthen_def)
qed

lemma each_ns_process_ok:
  assumes "w_mem w = []"
  shows "\<exists>v. each_act (\<lambda>n. reading (\<lambda>w. each_act process (n_ifaces (w_ns w n)))) ns w = Some (0, v) \<and>
    targets_after w (concat (map (\<lambda>n. n_ifaces (w_ns w n)) ns)) v"
  using assms
proof (induction ns arbitrary: w)
  case Nil
  then show ?case by (auto simp: ok_act_def targets_after_def)
next
  case (Cons n ns)
  from each_process_ok [OF Cons.prems, of "n_ifaces (w_ns w n)"] obtain u where
    u: "each_act process (n_ifaces (w_ns w n)) w = Some (0, u)" "targets_after w (n_ifaces (w_ns w n)) u" by blast
  from u(2) have "w_mem u = []" and n: "\<And>n. n_ifaces (w_ns u n) = n_ifaces (w_ns w n)"
    by (simp_all add: targets_after_def same_net_def)
  from Cons.IH [OF this(1)] obtain v where
    v: "each_act (\<lambda>n. reading (\<lambda>w. each_act process (n_ifaces (w_ns w n)))) ns u = Some (0, v)"
    "targets_after u (concat (map (\<lambda>n. n_ifaces (w_ns w n)) ns)) v" by (auto simp: n)
  have "each_act (\<lambda>n. reading (\<lambda>w. each_act process (n_ifaces (w_ns w n)))) (n # ns) w = Some (0, v)"
    using u(1) v(1) by (simp add: andthen_def reading_def [of "\<lambda>w. each_act process (n_ifaces (w_ns w n))"])
  with targets_after_step [OF u(2) v(2)] show ?case by simp
qed

text \<open>
  C4: When memory suffices, \<open>master_resolve\<close> succeeds, and afterwards every interface of the
  listed name spaces that had no master but a master index has as master the first interface
  (itself excluded, in the order of the name spaces) among those with that index in its own
  name space, or, when there is none, among those with that index elsewhere; the same holds
  for link and link index.  All other masters and links are as before.
\<close>

theorem master_resolve_targets:
  assumes "w_mem w = []"
  shows "\<exists>v. master_resolve w = Some (0, v) \<and>
    (\<forall>x. i_master (w_if v x) = (if x \<in> set (all_ifs w) then resolve_target w i_master i_master_index x else i_master (w_if w x))) \<and>
    (\<forall>x. i_link (w_if v x) = (if x \<in> set (all_ifs w) then resolve_target w i_link i_link_index x else i_link (w_if w x)))"
proof -
  from each_ns_process_ok [OF assms, of "w_list w"] obtain v where
    "each_act (\<lambda>n. reading (\<lambda>w. each_act process (n_ifaces (w_ns w n)))) (w_list w) w = Some (0, v)" "targets_after w (all_ifs w) v"
    by (auto simp: all_ifs_def)
  then show ?thesis
    by (auto simp: master_resolve_def reading_def [of "\<lambda>w. each_act _ (w_list w)"] targets_after_def)
qed

text \<open>
  Two name spaces with two interfaces each, indices 1 and 2 in both; interface 3 has master
  index 1, interface 2 link index 2.
\<close>

definition example_net :: world where
  "example_net = example_world\<lparr>w_if := (\<lambda>e. if_entry0\<lparr>i_ns := e div 2, i_name := ''eth'', i_index := (if e mod 2 = 0 then 1 else 2),
     i_master_index := (if e = 3 then 1 else 0), i_link_index := (if e = 2 then 2 else 0)\<rparr>)\<rparr>"

lemma example_net_ifs: "all_ifs example_net = [0, 1, 2, 3]"
  by (simp add: all_ifs_def example_net_def example_world_def)

lemma example_net_targets:
  "resolve_target example_net i_master i_master_index 3 = Some 2"
  "resolve_target example_net i_link i_link_index 2 = Some 3"
  unfolding resolve_target_def resolved_def example_net_ifs
  by (simp_all add: best_match_def index_prio_def example_net_def if_entry0_def)

theorem master_resolve_targets_witness:
  "\<exists>v. master_resolve example_net = Some (0, v) \<and> i_master (w_if v 3) = Some 2 \<and> i_link (w_if v 2) = Some 3"
proof -
  have "w_mem example_net = []" by (simp add: example_net_def example_world_def)
  from master_resolve_targets [OF this] show ?thesis
    by (auto simp: example_net_ifs example_net_targets)
qed

lemma same_ns_first:
  assumes "resolved w e idx = Some m" and "x \<in> set (all_ifs w)" "x \<noteq> e" "i_index (w_if w x) = idx" "i_ns (w_if w x) = i_ns (w_if w e)"
  shows "i_ns (w_if w m) = i_ns (w_if w e)"
proof -
  let ?p = "index_prio w e idx" and ?es = "candidates (Some e) (all_ifs w)"
  have "x \<in> set ?es" using assms by (simp add: candidates_def)
  from top_ge [OF this, of ?p] have "2 \<le> top_prio ?p ?es" using assms by (simp add: index_prio_def)
  moreover from assms(1) have "?p m = top_prio ?p ?es" by (auto simp: resolved_def dest: best_match_in)
  ultimately show ?thesis by (auto simp: index_prio_def split: if_splits)
qed

lemma resolved_sound:
  "resolved w e idx = Some m \<Longrightarrow> m \<in> set (all_ifs w) \<and> m \<noteq> e \<and> i_index (w_if w m) = idx"
  by (auto simp: resolved_def candidates_def index_prio_def dest!: best_match_in split: if_splits)

lemma resolved_None: "resolved w e idx = None \<longleftrightarrow> (\<forall>x \<in> set (all_ifs w). x \<noteq> e \<longrightarrow> i_index (w_if w x) \<noteq> idx)"
  by (auto simp: resolved_def best_match_None candidates_def index_prio_def split: if_splits)

lemma master_resolve_target:
  assumes "w_mem w = []" and "master_resolve w = Some (0, v)" and "e \<in> set (all_ifs w)"
    and "i_master (w_if w e) = None" and "i_master_index (w_if w e) \<noteq> 0"
  shows "i_master (w_if v e) = resolved w e (i_master_index (w_if w e))"
proof -
  from each_ns_process_ok [OF assms(1), of "w_list w"] assms(2) have "targets_after w (all_ifs w) v"
    by (auto simp: all_ifs_def master_resolve_def reading_def [of "\<lambda>w. each_act _ (w_list w)"])
  with assms(3-) show ?thesis by (simp add: targets_after_def resolve_target_def)
qed

text \<open>
  The master found for an interface with a master index (when it had none and memory
  suffices) is another listed interface with that index, in the interface's own name space
  whenever that has one; and an interface stays without master only when no other listed
  interface has the index.
\<close>

lemma master_resolve_own_namespace:
  assumes "w_mem w = []" and "master_resolve w = Some (0, v)" and "e \<in> set (all_ifs w)"
    and "i_master (w_if w e) = None" and "i_master_index (w_if w e) \<noteq> 0"
  shows "(case i_master (w_if v e) of
      Some m \<Rightarrow> m \<in> set (all_ifs w) \<and> m \<noteq> e \<and> i_index (w_if w m) = i_master_index (w_if w e) \<and>
        (i_ns (w_if w m) = i_ns (w_if w e) \<or>
         (\<forall>x \<in> set (all_ifs w). x \<noteq> e \<longrightarrow> i_index (w_if w x) = i_master_index (w_if w e) \<longrightarrow> i_ns (w_if w x) \<noteq> i_ns (w_if w e)))
    | None \<Rightarrow> \<forall>x \<in> set (all_ifs w). x \<noteq> e \<longrightarrow> i_index (w_if w x) \<noteq> i_master_index (w_if w e))"
proof (cases "i_master (w_if v e)")
  case None
  with master_resolve_target [OF assms] have "resolved w e (i_master_index (w_if w e)) = None" by simp
  with None show ?thesis by (simp add: resolved_None)
next
  case (Some m)
  with master_resolve_target [OF assms] have m: "resolved w e (i_master_index (w_if w e)) = Some m" by simp
  from resolved_sound [OF m] same_ns_first [OF m] Some show ?thesis by auto
qed

section \<open>Every operation keeps the relations consistent\<close>

lemma keeps_err_msg [keeps_intros]: "on_links P \<Longrightarrow> keeps P (err_msg d type e)"
  by (simp add: err_msg_def keeps_if_add_warning keeps_return_err)

text \<open>
  The contract of a property of the world that resolution and the handlers keep: it only
  looks at what \<open>if_links\<close> holds, the listed interfaces are in \<open>A\<close>, and the setters of the
  three relations and the assignment of a physical function keep it for interfaces of \<open>A\<close>.
\<close>

locale relating =
  fixes P :: "world \<Rightarrow> bool" and A :: "ifp set"
  assumes links_only: "on_links P"
    and listed_in: "P w \<Longrightarrow> set (n_ifaces (w_ns w n)) \<subseteq> A"
    and master_set_keeps: "e \<in> A \<Longrightarrow> set_option t \<subseteq> A \<Longrightarrow> keeps P (master_set t e)"
    and link_set_keeps: "set_option entry \<subseteq> A \<Longrightarrow> set_option t \<subseteq> A \<Longrightarrow> keeps P (link_set t entry)"
    and peer_set_keeps: "set_option a \<subseteq> A \<Longrightarrow> set_option b \<subseteq> A \<Longrightarrow> keeps P (peer_set a b)"
    and physfn_keeps: "e \<in> A \<Longrightarrow> set_option t \<subseteq> A \<Longrightarrow> keeps P (assign (upd_if e (\<lambda>i. i\<lparr>i_physfn := t\<rparr>)))"
begin

lemma found_in:
  assumes "P w" "match_if w callback d = Some (err, d')" "md_found d = None"
  shows "set_option (match_found d') \<subseteq> A"
  using match_if_listed [OF assms(2) found_listed_init [OF assms(3)]] listed_in [OF assms(1)]
  by (auto simp: elem_set)

lemma netnsid_in: "P w \<Longrightarrow> set_option (match_if_netnsid w idx i n) \<subseteq> A"
  using listed_in by (fastforce simp: elem_set dest: match_if_netnsid_listed)

lemma resolve_by_keeps:
  assumes "\<And>t. set_option t \<subseteq> A \<Longrightarrow> keeps P (set_rel t e)"
  shows "keeps P (resolve_by callback type set_rel e)"
  unfolding resolve_by_def
  by (rule keeps_reading_in)
    (auto split: option.splits intro!: keeps_intros assms links_only dest: found_in simp: match_init_def elem_set)

lemma process_keeps: "e \<in> A \<Longrightarrow> keeps P (process e)"
  unfolding process_def by (intro keeps_intros resolve_by_keeps master_set_keeps link_set_keeps) auto

lemma netnsid_links_keeps: "e \<in> A \<Longrightarrow> keeps P (netnsid_links n e)"
  unfolding netnsid_links_def Let_def
  by (intro keeps_andthen keeps_reading_in keeps_if keeps_ok keeps_assign on_links_upd_if [OF links_only]
      link_set_keeps peer_set_keeps netnsid_in)
    (simp_all add: if_links_def)

lemma each_listed_keeps: "(\<And>e n. e \<in> A \<Longrightarrow> keeps P (f n e)) \<Longrightarrow>
    keeps P (reading (\<lambda>w. each_act (\<lambda>n. reading (\<lambda>w. each_act (f n) (n_ifaces (w_ns w n)))) (w_list w)))"
  by (intro keeps_reading keeps_each keeps_reading_in) (use listed_in in blast)

lemma master_resolve_keeps: "keeps P master_resolve"
  unfolding master_resolve_def by (rule each_listed_keeps) (rule process_keeps)

lemma match_all_keeps: "keeps P match_all_netnsid"
  unfolding match_all_netnsid_def by (rule each_listed_keeps) (rule netnsid_links_keeps)

end

lemma relations_ok_physfn: "relations_ok (upd_if e (\<lambda>i. i\<lparr>i_physfn := t\<rparr>) w) = relations_ok w"
  unfolding relations_ok_def
  using masters_ok_cong [of "upd_if e (\<lambda>i. i\<lparr>i_physfn := t\<rparr>) w" w] links_ok_cong [of "upd_if e (\<lambda>i. i\<lparr>i_physfn := t\<rparr>) w" w]
    peers_ok_cong [of "upd_if e (\<lambda>i. i\<lparr>i_physfn := t\<rparr>) w" w] by simp

interpretation consistency: relating relations_ok UNIV
  by unfold_locales (auto intro: keeps_master_set keeps_link_set keeps_peer_set keeps_assign simp: relations_ok_physfn)

text \<open>
  \<open>homed\<close>: there is a first name space, none is listed twice, and only listed ones have interfaces.
  \<open>within A\<close>: the relations are consistent, \<open>A\<close> are the interfaces of the listed name spaces,
  and no interface outside \<open>A\<close> is related to another one.
\<close>

definition homed :: "world \<Rightarrow> bool" where
  "homed w \<longleftrightarrow> w_list w \<noteq> [] \<and> distinct (w_list w) \<and> (\<forall>n. n \<notin> set (w_list w) \<longrightarrow> n_ifaces (w_ns w n) = [])"

definition within :: "ifp set \<Rightarrow> world \<Rightarrow> bool" where
  "within A w \<longleftrightarrow> relations_ok w \<and> homed w \<and> A = set (all_ifs w) \<and>
     (\<forall>x. x \<notin> A \<longrightarrow> if_relations (w_if w x) = (None, None, None, None, [], [])) \<and>
     (\<forall>x. set_option (i_physfn (w_if w x)) \<subseteq> A)"

text \<open>Whatever is related is listed.\<close>

definition relations_listed :: "world \<Rightarrow> bool" where
  "relations_listed w \<longleftrightarrow> (\<forall>x y. i_master (w_if w x) = Some y \<or> i_link (w_if w x) = Some y \<or> i_peer (w_if w x) = Some y \<or>
     i_physfn (w_if w x) = Some y \<longrightarrow>
     x \<in> set (all_ifs w) \<and> y \<in> set (all_ifs w))"

lemma homed_all: "homed w \<Longrightarrow> set (n_ifaces (w_ns w n)) \<subseteq> set (all_ifs w)"
  by (cases "n \<in> set (w_list w)") (auto simp: homed_def all_ifs_def)

lemma if_links_relations: "if_links i = if_links j \<Longrightarrow> if_relations i = if_relations j"
  by (simp add: if_links_def if_relations_def)

lemma on_links_within: "on_links (within A)"
  unfolding on_links_def
proof (intro allI impI)
  fix v w assume b: "within A v" and s: "same_links v w"
  have r: "if_relations (w_if w x) = if_relations (w_if v x)" for x
    using s by (intro if_links_relations) (simp add: same_links_def)
  have "relations_ok w" using relations_ok_cong [OF s] b by (simp add: within_def)
  moreover have "all_ifs w = all_ifs v" "homed w = homed v" using s by (simp_all add: same_links_def all_ifs_def homed_def)
  moreover have "i_physfn (w_if w x) = i_physfn (w_if v x)" for x using r [of x] by (simp add: if_relations_def)
  ultimately show "within A w" using b r by (auto simp: within_def)
qed

lemma within_physfn: "within A w \<Longrightarrow> set_option (i_physfn (w_if w x)) \<subseteq> A"
  unfolding within_def by blast

lemma within_relations_listed:
  assumes "within A w"
  shows "relations_listed w"
proof -
  from assms have ok: "masters_ok w" "links_ok w" "peers_ok w" and A: "A = set (all_ifs w)"
    and none: "\<And>x. x \<notin> A \<Longrightarrow> if_relations (w_if w x) = (None, None, None, None, [], [])"
    and pf: "\<And>x y. i_physfn (w_if w x) = Some y \<Longrightarrow> y \<in> A"
    by (auto simp: within_def relations_ok_def elem_set [symmetric] simp del: elem_set)
  have rel: "x \<in> A" if "i_master (w_if w x) \<noteq> None \<or> i_link (w_if w x) \<noteq> None \<or> i_peer (w_if w x) \<noteq> None \<or> i_physfn (w_if w x) \<noteq> None \<or>
      i_rev_master (w_if w x) \<noteq> [] \<or> i_rev_link (w_if w x) \<noteq> []" for x
    using that none [of x] by (cases "x \<in> A") (simp_all add: if_relations_def)
  have "i_rev_master (w_if w y) \<noteq> []" if "i_master (w_if w x) = Some y" for x y
    using ok(1) that unfolding masters_ok_def by (metis empty_iff list.set(1))
  moreover have "i_rev_link (w_if w y) \<noteq> []" if "i_link (w_if w x) = Some y" for x y
    using ok(2) that unfolding links_ok_def by (metis empty_iff list.set(1))
  moreover have "i_peer (w_if w y) \<noteq> None" if "i_peer (w_if w x) = Some y" for x y
    using ok(3) that unfolding peers_ok_def by blast
  ultimately show ?thesis using rel pf unfolding relations_listed_def A [symmetric] by blast
qed

text \<open>A setter that only touches the relations of interfaces in \<open>A\<close> keeps the rest.\<close>

lemma within_setter:
  assumes "within A w" and "relations_ok v" and "w_ns v = w_ns w" and "w_list v = w_list w"
    and "\<And>x. set_option (i_physfn (w_if v x)) \<subseteq> A"
    and "\<And>x. x \<notin> A \<Longrightarrow> if_relations (w_if w x) = (None, None, None, None, [], []) \<Longrightarrow> if_relations (w_if v x) = (None, None, None, None, [], [])"
  shows "within A v"
  using assms by (simp add: within_def homed_def all_ifs_def)

interpretation bounded: relating "within A" A for A
proof unfold_locales
  show "on_links (within A)" by (rule on_links_within)
  show "within A w \<Longrightarrow> set (n_ifaces (w_ns w n)) \<subseteq> A" for w n by (auto simp: within_def dest: homed_all)
  show "keeps (within A) (master_set t e)" if "e \<in> A" "set_option t \<subseteq> A" for t e
    unfolding master_set_assign
  proof (rule keeps_assign)
    fix w assume b: "within A w"
    then have ok: "relations_ok (set_master t e w)" by (intro relations_set_master) (simp add: within_def)
    have f: "set_option (i_physfn (w_if (set_master t e w) x)) \<subseteq> A" for x using within_physfn [OF b] by simp
    show "within A (set_master t e w)"
      by (rule within_setter [OF b ok _ _ f])
        (use that in \<open>auto simp: if_relations_def masters.target_set masters.rev_set Let_def\<close>)
  qed
  show "keeps (within A) (link_set t entry)" if "set_option entry \<subseteq> A" "set_option t \<subseteq> A" for t entry
  proof (cases entry)
    case (Some e)
    show ?thesis
      unfolding Some link_set_assign
    proof (rule keeps_assign)
      fix w assume b: "within A w"
      then have ok: "relations_ok (set_link t e w)" by (intro relations_set_link) (simp add: within_def)
      have f: "set_option (i_physfn (w_if (set_link t e w) x)) \<subseteq> A" for x using within_physfn [OF b] by simp
      show "within A (set_link t e w)"
        by (rule within_setter [OF b ok _ _ f])
          (use that Some in \<open>auto simp: if_relations_def links.target_set links.rev_set Let_def\<close>)
    qed
  qed (simp add: keeps_return_err)
  show "keeps (within A) (peer_set a b)" if "set_option a \<subseteq> A" "set_option b \<subseteq> A" for a b
  proof (rule keepsI)
    fix w err v
    assume bel: "within A w" and r: "peer_set a b w = Some (err, v)"
    then have ok: "relations_ok v" using keeps_peer_set by (blast dest: keepsD intro: within_def [THEN iffD1, THEN conjunct1])
    from bel have p: "peers_ok w" by (simp add: within_def relations_ok_def)
    have v: "v = peer_set_one b a (peer_set_one a b w)" and e: "i_peer (w_if v x) = peered a b (\<lambda>x. i_peer (w_if w x)) x" for x
      using peer_set_peered [OF p r] by blast+
    have f: "set_option (i_physfn (w_if v x)) \<subseteq> A" for x using within_physfn [OF bel] by (simp add: v)
    show "within A v"
      by (rule within_setter [OF bel ok _ _ f])
        (use that e in \<open>auto simp: if_relations_def v peered_def\<close>)
  qed
  show "keeps (within A) (assign (upd_if e (\<lambda>i. i\<lparr>i_physfn := t\<rparr>)))" if "e \<in> A" "set_option t \<subseteq> A" for e t
  proof (rule keeps_assign)
    fix w assume b: "within A w"
    then have ok: "relations_ok (upd_if e (\<lambda>i. i\<lparr>i_physfn := t\<rparr>) w)" by (simp add: within_def relations_ok_physfn)
    have f: "set_option (i_physfn (w_if (upd_if e (\<lambda>i. i\<lparr>i_physfn := t\<rparr>) w) x)) \<subseteq> A" for x
      using within_physfn [OF b] that by simp
    show "within A (upd_if e (\<lambda>i. i\<lparr>i_physfn := t\<rparr>) w)"
      by (rule within_setter [OF b ok _ _ f]) (use that in \<open>auto simp: if_relations_def\<close>)
  qed
qed

text \<open>
  C5: The relations stay consistent: an interface is on the reverse master list of exactly
  its master, once, the same for links, and the peer relation is symmetric; \<open>master_set\<close>,
  \<open>link_set\<close>, \<open>peer_set\<close> (also with NULL arguments and with interfaces that have other
  masters, links or peers), \<open>master_resolve\<close> and \<open>match_all_netnsid\<close> keep this, whatever
  they return.
\<close>

theorem relations_consistent:
  "keeps relations_ok (master_set t e) \<and> keeps relations_ok (link_set t entry) \<and> keeps relations_ok (peer_set a b) \<and>
   keeps relations_ok master_resolve \<and> keeps relations_ok match_all_netnsid"
  by (intro conjI consistency.master_set_keeps consistency.link_set_keeps consistency.peer_set_keeps
      consistency.master_resolve_keeps consistency.match_all_keeps) auto

text \<open>
  On a symmetric peer relation, \<open>peer_set a b\<close> succeeds and makes \<open>a\<close> and \<open>b\<close> each
  other's peer (or peerless, when the other one is NULL); their former peers have none
  afterwards, everyone else keeps its peer.
\<close>

lemma peer_set_exchanges:
  assumes "peers_ok w" and "peer_set a b w = Some (err, v)"
  shows "err = 0 \<and> (\<forall>x. i_peer (w_if v x) =
     (if a = Some x then b
      else if b = Some x then a
      else if i_peer (w_if w x) \<noteq> None \<and> (i_peer (w_if w x) = a \<or> i_peer (w_if w x) = b) then None
      else i_peer (w_if w x)))"
  using peer_set_peered [OF assms] unfolding peered_def by blast

end
