(* ===== verification/MasterPtr.thy ===== *)
theory MasterPtr
  imports Master
begin

text \<open>
  \<open>master_set\<close> and \<open>link_set\<close> of \<open>master.c\<close> once more, on pointers: the embedded list nodes
  (\<open>rev_master_node\<close>, \<open>rev_link_node\<close>) and list heads (\<open>rev_master\<close>, \<open>rev_link\<close>) of the
  interfaces are places in the heap of \<open>list.h\<close>.  The list model of \<open>Master\<close> is the
  abstraction: a simulation relation connects the two, and every call preserves it.
\<close>

section \<open>The code on pointers\<close>

text \<open>Where the list node and the reverse list of an interface lie.\<close>

record layout =
  ly_node :: "ifp \<Rightarrow> addr_t"
  ly_list :: "ifp \<Rightarrow> lst"

text \<open>The member \<open>master\<close> (or \<open>link\<close>) of every interface, and the heap of list nodes.\<close>

record pointers =
  p_target :: "ifp \<Rightarrow> ifp option"
  p_heap :: heap

definition master_set_ptr :: "layout \<Rightarrow> ifp option \<Rightarrow> ifp \<Rightarrow> pointers \<Rightarrow> pointers option" where
  "master_set_ptr L master e p = do {
     h \<leftarrow> (if p_target p e \<noteq> None then node_remove (ly_node L e) (p_heap p) else Some (p_heap p));
     let p = \<lparr>p_target = (p_target p)(e := master), p_heap = h\<rparr>;
     case p_target p e of
       None \<Rightarrow> Some p
     | Some m \<Rightarrow> do {
         h \<leftarrow> list_append (ly_list L m) (ly_node L e) (p_heap p);
         Some (p\<lparr>p_heap := h\<rparr>) } }"

definition link_set_ptr :: "layout \<Rightarrow> ifp option \<Rightarrow> ifp option \<Rightarrow> pointers \<Rightarrow> pointers option" where
  "link_set_ptr L link entry p =
     (case entry of
        None \<Rightarrow> Some p
      | Some e \<Rightarrow> do {
          h \<leftarrow> (if p_target p e \<noteq> None then node_remove (ly_node L e) (p_heap p) else Some (p_heap p));
          let p = \<lparr>p_target = (p_target p)(e := link), p_heap = h\<rparr>;
          case p_target p e of
            None \<Rightarrow> Some p
          | Some l \<Rightarrow> do {
              h \<leftarrow> list_append (ly_list L l) (ly_node L e) (p_heap p);
              Some (p\<lparr>p_heap := h\<rparr>) } })"

lemma link_set_ptr_eq: "link_set_ptr L t entry p = (case entry of None \<Rightarrow> Some p | Some e \<Rightarrow> master_set_ptr L t e p)"
  by (simp add: link_set_ptr_def master_set_ptr_def split: option.splits)

text \<open>A sequence of calls.\<close>

fun master_sets_ptr :: "layout \<Rightarrow> (ifp option \<times> ifp) list \<Rightarrow> pointers \<Rightarrow> pointers option" where
  "master_sets_ptr L [] p = Some p"
| "master_sets_ptr L ((t, e) # cs) p = do { p \<leftarrow> master_set_ptr L t e p; master_sets_ptr L cs p }"

section \<open>The simulation relation\<close>

text \<open>No two places of the interfaces \<open>A\<close> overlap.\<close>

definition ends :: "layout \<Rightarrow> ifp \<Rightarrow> addr_t set" where
  "ends L x = {l_head (ly_list L x), l_tail (ly_list L x)}"

definition apart :: "layout \<Rightarrow> ifp set \<Rightarrow> bool" where
  "apart L A \<longleftrightarrow> inj_on (ly_node L) A \<and> 0 \<notin> ly_node L ` A \<and> (\<forall>x \<in> A. \<forall>y \<in> A. ly_node L x \<notin> ends L y) \<and>
     (\<forall>x \<in> A. \<forall>y \<in> A. x \<noteq> y \<longrightarrow> ends L x \<inter> ends L y = {})"

text \<open>The pointers show the relation, and each reverse list is a list in the heap.\<close>

definition represents ::
    "(if_entry \<Rightarrow> ifp option) \<Rightarrow> (if_entry \<Rightarrow> ifp list) \<Rightarrow> layout \<Rightarrow> ifp set \<Rightarrow> world \<Rightarrow> pointers \<Rightarrow> bool" where
  "represents tgt rev_of L A w p \<longleftrightarrow>
     (\<forall>e \<in> A. p_target p e = tgt (w_if w e) \<and> set_option (tgt (w_if w e)) \<subseteq> A \<and> set (rev_of (w_if w e)) \<subseteq> A) \<and>
     (\<forall>x \<in> A. is_list (p_heap p) (ly_list L x) (map (ly_node L) (rev_of (w_if w x))))"

lemma nodes_disjoint:
  assumes "apart L A" and "x \<in> A" "y \<in> A" "x \<noteq> y" and "set xs \<subseteq> A" "set ys \<subseteq> A" "set xs \<inter> set ys = {}"
  shows "set (list_nodes (ly_list L x) (map (ly_node L) xs)) \<inter> set (list_nodes (ly_list L y) (map (ly_node L) ys)) = {}"
proof -
  have n: "set (list_nodes (ly_list L z) (map (ly_node L) zs)) = ends L z \<union> ly_node L ` set zs" for z zs
    by (simp add: ends_def)
  have "ends L x \<inter> ends L y = {}" using assms(1-4) by (simp add: apart_def)
  moreover have "ly_node L ` set zs \<inter> ends L z = {}" if "set zs \<subseteq> A" "z \<in> A" for z zs
    using assms(1) that by (auto simp: apart_def)
  moreover have "ly_node L ` set xs \<inter> ly_node L ` set ys = {}"
    using assms(1,5-7) inj_on_image_Int [of "ly_node L" A "set xs" "set ys"] by (simp add: apart_def)
  ultimately show ?thesis using assms(2,3,5,6) unfolding n by blast
qed

lemma node_fresh:
  assumes "apart L A" and "x \<in> A" "e \<in> A" and "set xs \<subseteq> A" "e \<notin> set xs"
  shows "usable_node (ly_list L x) (map (ly_node L) xs) (ly_node L e)"
proof -
  have "ly_node L e \<notin> ly_node L ` set xs" using assms by (auto simp: apart_def dest: inj_onD)
  moreover have "ly_node L e \<notin> ends L x" "ly_node L e \<noteq> 0" using assms(1-3) by (force simp: apart_def)+
  ultimately show ?thesis by (simp add: usable_node_def ends_def)
qed

text \<open>The lists after the old one was left, and after the new one was joined.\<close>

lemma lists_removed:
  assumes L: "apart L A" and e: "e \<in> A" and A: "\<And>x. x \<in> A \<Longrightarrow> set (rev_of x) \<subseteq> A"
    and h: "\<And>x. x \<in> A \<Longrightarrow> is_list h (ly_list L x) (map (ly_node L) (rev_of x))"
    and m: "m \<in> A" "e \<in> set (rev_of m)" and d: "\<And>x y. x \<noteq> y \<Longrightarrow> set (rev_of x) \<inter> set (rev_of y) = {}"
  shows "\<exists>h'. node_remove (ly_node L e) h = Some h' \<and>
    (\<forall>x \<in> A. is_list h' (ly_list L x) (map (ly_node L) ((rev_of(m := remove1 e (rev_of m))) x)))"
proof -
  from m(2) obtain xs ys where s: "rev_of m = xs @ e # ys" "e \<notin> set xs" by (auto dest: split_list_first)
  have l: "is_list h (ly_list L m) (map (ly_node L) xs @ ly_node L e # map (ly_node L) ys)" using h [OF m(1)] s by simp
  from mlist.remove_holds [OF l] obtain h' where
    h': "node_remove (ly_node L e) h = Some h'" "is_list h' (ly_list L m) (map (ly_node L) xs @ map (ly_node L) ys)" by blast
  have "is_list h' (ly_list L x) (map (ly_node L) (rev_of x))" if "x \<in> A" "x \<noteq> m" for x
  proof -
    have "set (rev_of m) \<inter> set (rev_of x) = {}" by (rule d) (use that in auto)
    from nodes_disjoint [OF L m(1) that(1) that(2) [symmetric] A [OF m(1)] A [OF that(1)] this]
    show ?thesis by (intro mlist.remove_keeps [OF l h'(1) h [OF that(1)]]) (simp add: s(1))
  qed
  with h' s show ?thesis by (intro exI [of _ h']) (auto simp: remove1_append)
qed

lemma lists_appended:
  assumes L: "apart L A" and e: "e \<in> A" and A: "\<And>x. x \<in> A \<Longrightarrow> set (rev_of x) \<subseteq> A"
    and h: "\<And>x. x \<in> A \<Longrightarrow> is_list h (ly_list L x) (map (ly_node L) (rev_of x))"
    and m: "m \<in> A" and d: "\<And>x y. x \<noteq> y \<Longrightarrow> set (rev_of x) \<inter> set (rev_of y) = {}" and new: "\<And>x. e \<notin> set (rev_of x)"
  shows "\<exists>h'. list_append (ly_list L m) (ly_node L e) h = Some h' \<and>
    (\<forall>x \<in> A. is_list h' (ly_list L x) (map (ly_node L) ((rev_of(m := rev_of m @ [e])) x)))"
proof -
  note u = node_fresh [OF L m e A [OF m] new]
  from clist.append_holds [OF h [OF m] u] obtain h' where
    h': "list_append (ly_list L m) (ly_node L e) h = Some h'" "is_list h' (ly_list L m) (map (ly_node L) (rev_of m) @ [ly_node L e])"
    by blast
  have "is_list h' (ly_list L x) (map (ly_node L) (rev_of x))" if "x \<in> A" "x \<noteq> m" for x
  proof -
    have "set (rev_of m) \<inter> set (rev_of x) = {}" by (rule d) (use that in auto)
    from nodes_disjoint [OF L m that(1) that(2) [symmetric] A [OF m] A [OF that(1)] this]
      node_fresh [OF L that(1) e A [OF that(1)] new]
    show ?thesis by (intro mlist.append_keeps [OF h [OF m] u h'(1) h [OF that(1)]]) (simp add: usable_node_def)
  qed
  with h' show ?thesis by (intro exI [of _ h']) auto
qed

context relation begin

lemma set_refines:
  assumes L: "apart L A" and c: "consistent w" and r: "represents target rev_list L A w p"
    and e: "e \<in> A" and t: "set_option t \<subseteq> A"
  shows "\<exists>p'. master_set_ptr L t e p = Some p' \<and> represents target rev_list L A (set_target t e w) p'"
proof -
  let ?rl = "\<lambda>x. rev_list (w_if w x)"
  define r1 where "r1 x = (if target (w_if w e) = Some x then remove1 e (?rl x) else ?rl x)" for x
  have mem: "a \<in> set (?rl x) \<longleftrightarrow> target (w_if w a) = Some x" and dis: "distinct (?rl x)" for a x
    using c by (simp_all add: consistent_def)
  have tg: "p_target p a = target (w_if w a)" "set_option (target (w_if w a)) \<subseteq> A" "set (?rl a) \<subseteq> A"
    and ls: "is_list (p_heap p) (ly_list L a) (map (ly_node L) (?rl a))" if "a \<in> A" for a
    using r that by (simp_all add: represents_def)
  have sub: "set (r1 x) \<subseteq> set (?rl x)" for x by (simp add: r1_def set_remove1_subset)
  have r1A: "set (r1 x) \<subseteq> A" if "x \<in> A" for x using sub [of x] tg(3) [OF that] by blast
  have d: "set (?rl x) \<inter> set (?rl y) = {}" if "x \<noteq> y" for x y using mem that by auto
  have d1: "set (r1 x) \<inter> set (r1 y) = {}" if "x \<noteq> y" for x y using d [OF that] sub [of x] sub [of y] by blast
  have new: "e \<notin> set (r1 x)" for x using mem [of e x] dis [of x] by (auto simp: r1_def)
  have "\<exists>h. (if p_target p e \<noteq> None then node_remove (ly_node L e) (p_heap p) else Some (p_heap p)) = Some h \<and>
      (\<forall>x \<in> A. is_list h (ly_list L x) (map (ly_node L) (r1 x)))"
  proof (cases "target (w_if w e)")
    case None
    then show ?thesis using ls tg(1) [OF e] by (simp add: r1_def)
  next
    case (Some m)
    have "m \<in> A" "e \<in> set (?rl m)" using tg(2) [OF e] Some mem by auto
    from lists_removed [of L A e ?rl, OF L e tg(3) ls this d] obtain h where
      "node_remove (ly_node L e) (p_heap p) = Some h"
      "\<forall>x \<in> A. is_list h (ly_list L x) (map (ly_node L) ((?rl(m := remove1 e (?rl m))) x))" by blast
    moreover have "?rl(m := remove1 e (?rl m)) = r1" using Some by (auto simp: r1_def fun_eq_iff)
    ultimately show ?thesis using tg(1) [OF e] Some by simp
  qed
  then obtain h where h: "(if p_target p e \<noteq> None then node_remove (ly_node L e) (p_heap p) else Some (p_heap p)) = Some h"
    "\<And>x. x \<in> A \<Longrightarrow> is_list h (ly_list L x) (map (ly_node L) (r1 x))" by blast
  have rs: "rev_list (w_if (set_target t e w) x) = (if t = Some x then r1 x @ [e] else r1 x)" for x
    by (simp add: rev_set r1_def Let_def)
  have rA: "set (rev_list (w_if (set_target t e w) x)) \<subseteq> A" "set_option (target (w_if (set_target t e w) x)) \<subseteq> A"
    "((p_target p)(e := t)) x = target (w_if (set_target t e w) x)" if "x \<in> A" for x
    using r1A [OF that] tg [OF that] e t by (auto simp: rs target_set)
  show ?thesis
  proof (cases t)
    case None
    have "represents target rev_list L A (set_target t e w) \<lparr>p_target = (p_target p)(e := t), p_heap = h\<rparr>"
      unfolding represents_def rs using h(2) rA [unfolded rs] None by simp
    with h(1) None show ?thesis by (simp add: master_set_ptr_def)
  next
    case (Some m)
    with t have m: "m \<in> A" by simp
    from lists_appended [of L A e r1, OF L e r1A h(2) m d1 new] obtain h' where
      h': "list_append (ly_list L m) (ly_node L e) h = Some h'"
        "\<And>x. x \<in> A \<Longrightarrow> is_list h' (ly_list L x) (map (ly_node L) ((r1(m := r1 m @ [e])) x))" by blast
    have "is_list h' (ly_list L x) (map (ly_node L) (if t = Some x then r1 x @ [e] else r1 x))" if "x \<in> A" for x
      using h'(2) [OF that] Some by (cases "x = m") auto
    then have "represents target rev_list L A (set_target t e w) \<lparr>p_target = (p_target p)(e := t), p_heap = h'\<rparr>"
      unfolding represents_def rs using rA [unfolded rs] by simp
    with h(1) h'(1) Some show ?thesis by (simp add: master_set_ptr_def)
  qed
qed

end

lemma link_set_refines:
  assumes "apart L A" and "links_ok w" and "represents i_link i_rev_link L A w p"
    and "set_option entry \<subseteq> A" and "set_option t \<subseteq> A"
  shows "\<exists>p' w'. link_set_ptr L t entry p = Some p' \<and> link_set t entry w = Some (0, w') \<and> represents i_link i_rev_link L A w' p'"
proof (cases entry)
  case (Some e)
  with assms links.set_refines [of L A w p e t] show ?thesis
    by (auto simp: link_set_ptr_eq link_set_assign assign_def links_ok_iff)
qed (use assms in \<open>simp add: link_set_ptr_eq return_err_def\<close>)

lemma master_sets_simulated:
  assumes "apart L A" and "masters_ok w" and "represents i_master i_rev_master L A w p"
    and "\<forall>(t, e) \<in> set cs. e \<in> A \<and> set_option t \<subseteq> A"
  shows "\<exists>p' w'. master_sets_ptr L cs p = Some p' \<and> each_act (\<lambda>(t, e). master_set t e) cs w = Some (0, w') \<and>
    masters_ok w' \<and> represents i_master i_rev_master L A w' p'"
  using assms(2-4)
proof (induction cs arbitrary: w p)
  case (Cons c cs)
  obtain t e where c: "c = (t, e)" by (cases c)
  with Cons.prems have "e \<in> A" "set_option t \<subseteq> A" "masters.consistent w" by (auto simp: masters_ok_iff)
  from masters.set_refines [OF assms(1) this(3) Cons.prems(2) this(1,2)] obtain p1 where
    p1: "master_set_ptr L t e p = Some p1" "represents i_master i_rev_master L A (set_master t e w) p1" by blast
  have "masters_ok (set_master t e w)"
    using masters.consistent_set [OF \<open>masters.consistent w\<close>] by (simp add: masters_ok_iff)
  from Cons.IH [OF this p1(2)] Cons.prems(3) obtain p' w' where
    "master_sets_ptr L cs p1 = Some p'" "each_act (\<lambda>(t, e). master_set t e) cs (set_master t e w) = Some (0, w')"
    "masters_ok w' \<and> represents i_master i_rev_master L A w' p'" by auto
  moreover have "master_set t e w = Some (0, set_master t e w)" by (simp add: master_set_assign assign_def)
  ultimately show ?case using p1(1) c by (simp add: andthen_def)
qed (simp add: ok_act_def)

section \<open>Properties\<close>

text \<open>
  C20: \<open>master_set\<close> on pointers refines \<open>master_set\<close> on lists: from any heap that represents
  consistent relations, a sequence of calls on interfaces that do not overlap in memory
  dereferences no NULL pointer, and the heap it leaves represents the relations that the list
  model computes for the same calls.
\<close>

theorem master_set_refines:
  assumes "apart L A" and "masters_ok w" and "represents i_master i_rev_master L A w p"
    and "\<forall>(t, e) \<in> set cs. e \<in> A \<and> set_option t \<subseteq> A"
  shows "\<exists>p' w'. master_sets_ptr L cs p = Some p' \<and> each_act (\<lambda>(t, e). master_set t e) cs w = Some (0, w') \<and>
    masters_ok w' \<and> represents i_master i_rev_master L A w' p'"
  by (rule master_sets_simulated [OF assms])

text \<open>Three interfaces in memory, one after the other, none related.\<close>

definition ex_layout :: layout where
  "ex_layout = \<lparr>ly_node = (\<lambda>e. 3 * e + 1), ly_list = (\<lambda>e. \<lparr>l_head = 3 * e + 2, l_tail = 3 * e + 3\<rparr>)\<rparr>"

definition ex_pointers :: pointers where
  "ex_pointers = \<lparr>p_target = (\<lambda>_. None),
     p_heap = \<lparr>next_of = (\<lambda>a. if a mod 3 = 2 then a + 1 else 0), prev_of = (\<lambda>a. if a \<noteq> 0 \<and> a mod 3 = 0 then a - 1 else 0)\<rparr>\<rparr>"

lemma ex_layout_apart: "apart ex_layout A"
  by (auto simp: apart_def ex_layout_def ends_def inj_on_def) presburger+

lemma ex_represents:
  assumes "\<And>e. i_master (w_if w e) = None \<and> i_rev_master (w_if w e) = []"
  shows "represents i_master i_rev_master ex_layout A w ex_pointers"
proof -
  have "(3 * x + 2) mod 3 = 2" "(3 * x + 3) mod 3 = 0" for x :: nat by presburger+
  then show ?thesis
    using assms by (simp add: represents_def ex_layout_def ex_pointers_def is_list_def list_nodes_def)
qed

theorem master_set_refines_witness:
  "\<exists>p'. master_sets_ptr ex_layout [(Some 1, 0), (Some 1, 2), (Some 2, 0)] ex_pointers = Some p' \<and>
    is_list (p_heap p') \<lparr>l_head = 5, l_tail = 6\<rparr> [7] \<and> is_list (p_heap p') \<lparr>l_head = 8, l_tail = 9\<rparr> [1]"
proof -
  let ?cs = "[(Some 1, 0), (Some 1, 2), (Some 2, 0)] :: (ifp option \<times> ifp) list"
  have m: "masters_ok example_net" "i_master (w_if example_net e) = None \<and> i_rev_master (w_if example_net e) = []" for e
    by (simp_all add: masters_ok_def example_net_def if_entry0_def)
  have c: "\<forall>(t, e) \<in> set ?cs. e \<in> {0, 1, 2} \<and> set_option t \<subseteq> {0, 1, 2}" by simp
  from master_set_refines [OF ex_layout_apart m(1) ex_represents [OF m(2)] c] obtain p' w' where
    r: "master_sets_ptr ex_layout ?cs ex_pointers = Some p'" "each_act (\<lambda>(t, e). master_set t e) ?cs example_net = Some (0, w')"
      "represents i_master i_rev_master ex_layout {0, 1, 2} w' p'" by blast
  from r(2) have "i_rev_master (w_if w' 1) = [2]" "i_rev_master (w_if w' 2) = [0]"
    by (auto simp: andthen_def master_set_assign assign_def ok_act_def masters.rev_set masters.target_set m Let_def)
  with r(1,3) show ?thesis by (auto simp: represents_def ex_layout_def)
qed

end
