(* ===== verification/Mount.thy ===== *)
theory Mount
  imports Prelude
begin

text \<open>
  The sysfs mount (\<open>sysfs.c\<close>): a directory made once, on which the sysfs of one network name
  space after the other is mounted (by the loop of \<open>netns_fill_list\<close>, theory \<open>Fill\<close>), and the
  clean-up that \<open>atexit\<close> runs however the program ends (theory \<open>MainProg\<close>).  The kernel's side
  is how many file systems are mounted on the directory.  Every call may fail: the outcome of
  \<open>mkdtemp\<close>, \<open>mount\<close> and \<open>rmdir\<close> is 0 or an error number, that of \<open>stat\<close> nothing or whether
  there is a directory.  \<open>umount2\<close> fails by itself when nothing is mounted; otherwise \<open>um\<close>
  gives its outcome, by the number \<open>mp_umounts\<close> of such calls so far.
\<close>

section \<open>The operations\<close>

record mount_state =
  mp_dir :: bool
  mp_mounts :: nat
  mp_atexit :: bool
  mp_umounts :: nat

definition at_start :: mount_state where
  "at_start = \<lparr>mp_dir = False, mp_mounts = 0, mp_atexit = False, mp_umounts = 0\<rparr>"

text \<open>\<open>umount2\<close> detaches what was mounted last; whether it fails is ignored.\<close>

definition sysfs_umount :: "(nat \<Rightarrow> int) \<Rightarrow> mount_state \<Rightarrow> mount_state" where
  "sysfs_umount um s =
     (if mp_mounts s = 0 then s
      else if um (mp_umounts s) = 0 then s\<lparr>mp_mounts := mp_mounts s - 1, mp_umounts := Suc (mp_umounts s)\<rparr>
      else s\<lparr>mp_umounts := Suc (mp_umounts s)\<rparr>)"

text \<open>\<open>rmdir\<close> also fails on a directory that something is mounted on.\<close>

definition sysfs_clean :: "(nat \<Rightarrow> int) \<Rightarrow> bool option \<Rightarrow> int \<Rightarrow> mount_state \<Rightarrow> mount_state" where
  "sysfs_clean um stat rmdir s =
     (case stat of
        None \<Rightarrow> s
      | Some isdir \<Rightarrow>
          let s = (if isdir then sysfs_umount um s else s) in
          if rmdir = 0 \<and> mp_mounts s = 0 then s\<lparr>mp_dir := False\<rparr> else s)"

definition sysfs_init :: "int \<Rightarrow> mount_state \<Rightarrow> int \<times> mount_state" where
  "sysfs_init mkdtemp s = (if mkdtemp \<noteq> 0 then (mkdtemp, s) else (0, s\<lparr>mp_dir := True, mp_atexit := True\<rparr>))"

definition sysfs_mount :: "(nat \<Rightarrow> int) \<Rightarrow> int \<Rightarrow> mount_state \<Rightarrow> int \<times> mount_state" where
  "sysfs_mount um mount s =
     (let s = sysfs_umount um s in
      if mount \<noteq> 0 then (mount, s) else (0, s\<lparr>mp_mounts := mp_mounts s + 1\<rparr>))"

text \<open>What the C library runs when the program ends.\<close>

definition at_exit :: "(nat \<Rightarrow> int) \<Rightarrow> bool option \<Rightarrow> int \<Rightarrow> mount_state \<Rightarrow> mount_state" where
  "at_exit um stat rmdir s = (if mp_atexit s then sysfs_clean um stat rmdir s else s)"

section \<open>Only failed calls leave something mounted\<close>

text \<open>How many calls of \<open>umount2\<close> have failed although something was mounted.\<close>

definition failed_umounts :: "(nat \<Rightarrow> int) \<Rightarrow> mount_state \<Rightarrow> nat" where
  "failed_umounts um s = length (filter (\<lambda>i. um i \<noteq> 0) [0..<mp_umounts s])"

text \<open>
  At most \<open>k\<close> file systems are mounted besides those that could not be unmounted; and the
  clean-up is registered, the directory is there, before anything is mounted.
\<close>

definition mounted_upto :: "nat \<Rightarrow> (nat \<Rightarrow> int) \<Rightarrow> mount_state \<Rightarrow> bool" where
  "mounted_upto k um s \<longleftrightarrow> mp_mounts s \<le> failed_umounts um s + k \<and> (mp_dir s = mp_atexit s) \<and> (0 < mp_mounts s \<longrightarrow> mp_atexit s)"

lemma mounted_at_start: "mounted_upto 0 um at_start"
  by (simp add: mounted_upto_def at_start_def)

lemma mounted_more: "mounted_upto 0 um s \<Longrightarrow> mounted_upto k um s"
  by (simp add: mounted_upto_def)

lemma umount_mounted: "mounted_upto 1 um s \<Longrightarrow> mounted_upto 0 um (sysfs_umount um s)"
  by (auto simp: mounted_upto_def sysfs_umount_def failed_umounts_def)

lemma init_mounted: "mounted_upto 0 um s \<Longrightarrow> sysfs_init r s = (err, s') \<Longrightarrow> mounted_upto 0 um s' \<and> (err = 0 \<longrightarrow> mp_atexit s')"
  by (auto simp: sysfs_init_def mounted_upto_def failed_umounts_def split: if_splits)

lemma mount_mounted:
  assumes "mounted_upto 1 um s" and "mp_atexit s" and "sysfs_mount um r s = (err, s')"
  shows "mounted_upto 1 um s' \<and> mp_atexit s'"
proof -
  have "mp_atexit (sysfs_umount um s)" using assms(2) by (simp add: sysfs_umount_def)
  with umount_mounted [OF assms(1)] assms(3) show ?thesis
    by (auto simp: sysfs_mount_def Let_def mounted_upto_def failed_umounts_def split: if_splits)
qed

text \<open>
  At the end, if there is a directory to be cleaned up, only what could not be unmounted is
  left; and if no call of \<open>umount2\<close> and not \<open>rmdir\<close> failed, the directory is gone.
\<close>

lemma exit_mounted:
  assumes "mounted_upto 1 um s" and "stat = Some True"
  shows "mp_mounts (at_exit um stat r s) \<le> failed_umounts um (at_exit um stat r s)"
    and "failed_umounts um (at_exit um stat r s) = 0 \<Longrightarrow> r = 0 \<Longrightarrow> \<not> mp_dir (at_exit um stat r s)"
proof -
  have m: "mp_mounts (sysfs_umount um s) \<le> failed_umounts um (sysfs_umount um s)" using umount_mounted [OF assms(1)] by (simp add: mounted_upto_def)
  show "mp_mounts (at_exit um stat r s) \<le> failed_umounts um (at_exit um stat r s)"
  proof (cases "mp_atexit s")
    case True
    with m assms(2) show ?thesis by (simp add: at_exit_def sysfs_clean_def Let_def failed_umounts_def)
  qed (use assms(1) in \<open>simp add: at_exit_def mounted_upto_def\<close>)
  assume f: "failed_umounts um (at_exit um stat r s) = 0" "r = 0"
  show "\<not> mp_dir (at_exit um stat r s)"
  proof (cases "mp_atexit s")
    case True
    with f assms(2) have "failed_umounts um (sysfs_umount um s) = 0"
      by (simp add: at_exit_def sysfs_clean_def Let_def failed_umounts_def split: if_splits)
    with m True f assms(2) show ?thesis by (simp add: at_exit_def sysfs_clean_def)
  qed (use assms(1) in \<open>simp add: at_exit_def mounted_upto_def\<close>)
qed

end
