(* ===== verification/Tunnel.thy ===== *)
theory Tunnel
  imports Match
begin

text \<open>
  Finding the interface a tunnel's local address belongs to (\<open>tunnel.c\<close>): the only interface
  of the name space that is up and has the address.
\<close>

unbundle bit_operations_syntax

text \<open>\<open>memcmp\<close> of two addresses reads both raw pointers.\<close>

fun match_addrs :: "int \<Rightarrow> bytes cptr \<Rightarrow> if_addr list \<Rightarrow> int option" where
  "match_addrs family raw [] = Some 0"
| "match_addrs family raw (a # as) =
     (if ad_family (ia_addr a) \<noteq> family then match_addrs family raw as
      else do {
        x \<leftarrow> deref (ad_raw (ia_addr a));
        y \<leftarrow> deref raw;
        if take (addr_len family) x = take (addr_len family) y then Some 1 else match_addrs family raw as })"

definition match_tunnel :: "world \<Rightarrow> int \<Rightarrow> bytes cptr \<Rightarrow> match_callback" where
  "match_tunnel w family raw entry =
     (if i_flags (w_if w entry) AND IF_UP = 0 then Some 0
      else match_addrs family raw (i_addr (w_if w entry)))"

text \<open>The shared end of both searches; a failing search gives NULL.\<close>

definition tunnel_find :: "world \<Rightarrow> nsp \<Rightarrow> int \<Rightarrow> bytes cptr \<Rightarrow> ifp option option" where
  "tunnel_find w n family raw =
     (case match_if w (match_tunnel w family raw) (match_init\<lparr>md_ns := Some n\<rparr>) of
        None \<Rightarrow> None
      | Some (err, d) \<Rightarrow>
          if err \<noteq> 0 then Some None
          else Some (if match_ambiguous d then None else match_found d))"

definition tunnel_find_str :: "pton \<Rightarrow> world \<Rightarrow> nsp \<Rightarrow> string \<Rightarrow> ifp option option" where
  "tunnel_find_str pton w n s =
     (let (family, raw) = addr_parse_raw pton s in
      if family < 0 then Some None else tunnel_find w n family (Ptr raw))"

definition tunnel_find_addr :: "world \<Rightarrow> nsp \<Rightarrow> addr \<Rightarrow> ifp option option" where
  "tunnel_find_addr w n a = tunnel_find w n (ad_family a) (ad_raw a)"

lemma tunnel_find_in: "tunnel_find w n family raw = Some (Some x) \<Longrightarrow> \<exists>n. x \<in> set (n_ifaces (w_ns w n))"
  by (auto simp: tunnel_find_def match_init_def split: option.splits prod.splits if_splits dest!: match_if_listed)

lemma tunnel_find_listed:
  "tunnel_find_str pton w n s = Some (Some x) \<Longrightarrow> \<exists>n. x \<in> set (n_ifaces (w_ns w n))"
  "tunnel_find_addr w n a = Some (Some x) \<Longrightarrow> \<exists>n. x \<in> set (n_ifaces (w_ns w n))"
  by (auto simp: tunnel_find_str_def tunnel_find_addr_def Let_def split: prod.splits if_splits dest: tunnel_find_in)

section \<open>Specification\<close>

text \<open>Addresses as \<open>addr_init\<close> leaves them, and the interfaces that have an address.\<close>

definition addrs_readable :: "world \<Rightarrow> nsp \<Rightarrow> bool" where
  "addrs_readable w n \<longleftrightarrow> (\<forall>e \<in> set (n_ifaces (w_ns w n)). \<forall>a \<in> set (i_addr (w_if w e)). deref (ad_raw (ia_addr a)) \<noteq> None)"

definition has_addr :: "world \<Rightarrow> int \<Rightarrow> bytes \<Rightarrow> ifp \<Rightarrow> bool" where
  "has_addr w family raw e \<longleftrightarrow> i_flags (w_if w e) AND IF_UP \<noteq> 0 \<and>
     (\<exists>a \<in> set (i_addr (w_if w e)). ad_family (ia_addr a) = family \<and>
        map_option (take (addr_len family)) (deref (ad_raw (ia_addr a))) = Some (take (addr_len family) raw))"

definition only_one :: "'a list \<Rightarrow> 'a option" where
  "only_one xs = (case xs of [x] \<Rightarrow> Some x | _ \<Rightarrow> None)"

lemma match_addrs_eq:
  assumes "\<And>a. a \<in> set as \<Longrightarrow> deref (ad_raw (ia_addr a)) \<noteq> None"
  shows "match_addrs family (Ptr raw) as =
    Some (if \<exists>a \<in> set as. ad_family (ia_addr a) = family \<and>
        map_option (take (addr_len family)) (deref (ad_raw (ia_addr a))) = Some (take (addr_len family) raw) then 1 else 0)"
  using assms
proof (induction as)
  case (Cons a as)
  from Cons.prems obtain x where x: "deref (ad_raw (ia_addr a)) = Some x" by fastforce
  from Cons show ?case by (auto simp: x)
qed simp

lemma match_tunnel_eq:
  assumes "addrs_readable w n" "e \<in> set (n_ifaces (w_ns w n))"
  shows "match_tunnel w family (Ptr raw) e = Some (if has_addr w family raw e then 1 else 0)"
proof -
  have "\<And>a. a \<in> set (i_addr (w_if w e)) \<Longrightarrow> deref (ad_raw (ia_addr a)) \<noteq> None"
    using assms by (auto simp: addrs_readable_def)
  from match_addrs_eq [OF this] show ?thesis by (simp add: match_tunnel_def has_addr_def)
qed

lemma top_prio_indicator: "top_prio (\<lambda>e. if P e then 1 else 0) es = (if filter P es = [] then 0 else 1)"
  by (induction es) auto

lemma find_filter: "find P es = (case filter P es of [] \<Rightarrow> None | x # _ \<Rightarrow> Some x)"
  by (induction es) auto

lemma best_indicator:
  "best_match (\<lambda>e. if P e then 1 else 0) es = (case filter P es of [] \<Rightarrow> None | x # _ \<Rightarrow> Some x)"
proof -
  have "(\<lambda>e. (if P e then (1::int) else 0) = 1) = P" by (auto simp: fun_eq_iff)
  then show ?thesis by (simp add: best_match_def top_prio_indicator find_filter)
qed

lemma several_indicator: "several_best (\<lambda>e. if P e then 1 else 0) es \<longleftrightarrow> length (filter P es) > 1"
proof (cases "filter P es = []")
  case False
  then have t: "top_prio (\<lambda>e. if P e then 1 else 0) es = 1" by (simp add: top_prio_indicator)
  have "filter (\<lambda>e. (if P e then (1::int) else 0) = 1) es = filter P es" by (rule filter_cong) auto
  then show ?thesis by (simp only: several_best_def t) simp
qed (simp add: several_best_def top_prio_indicator)

lemma tunnel_find_eq:
  assumes r: "addrs_readable w n"
  shows "tunnel_find w n family (Ptr raw) = Some (only_one (filter (has_addr w family raw) (n_ifaces (w_ns w n))))"
proof -
  let ?d = "match_init\<lparr>md_ns := Some n\<rparr>" and ?p = "\<lambda>e. if has_addr w family raw e then (1::int) else 0"
  have d: "?d = match_init\<lparr>md_exclude := None, md_netns_list := None, md_ns := Some n\<rparr>"
    by (simp add: match_init_def)
  have sc: "scope w ?d = n_ifaces (w_ns w n)"
    by (simp add: scope_def match_init_def candidates_def)
  obtain d' where m: "match_if w (match_tunnel w family (Ptr raw)) ?d = Some (0, d')"
      "match_found d' = best_match ?p (n_ifaces (w_ns w n))" "match_ambiguous d' = several_best ?p (n_ifaces (w_ns w n))"
    using match_if_result [OF _ d, of w "match_tunnel w family (Ptr raw)" ?p] match_tunnel_eq [OF r, of _ family raw]
    unfolding sc by fastforce
  then show ?thesis
    by (auto simp: tunnel_find_def best_indicator several_indicator only_one_def split: list.splits)
qed

text \<open>
  \<open>tunnel_find_addr\<close> never reads a pointer it must not when the addresses of the name
  space's interfaces are set; it returns the interface that is up and has the tunnel's local
  address when there is exactly one, and NULL when there is none or the choice would be
  ambiguous.
\<close>

lemma tunnel_find_addr_unique:
  assumes "addrs_readable w n" and "ad_raw a = Ptr raw"
  shows "tunnel_find_addr w n a = Some (only_one (filter (has_addr w (ad_family a) raw) (n_ifaces (w_ns w n))))"
  unfolding tunnel_find_addr_def assms(2) by (rule tunnel_find_eq [OF assms(1)])

definition example_addr :: addr where
  "example_addr = \<lparr>ad_family = AF_INET, ad_prefixlen = 24, ad_formatted = Ptr ''10.0.0.1/24'', ad_raw = Ptr [10, 0, 0, 1]\<rparr>"

definition example_tunnels :: world where
  "example_tunnels = example_world\<lparr>w_if := (\<lambda>e. if_entry0\<lparr>i_ns := e div 2, i_flags := (if e = 2 then 0 else IF_UP),
     i_addr := [\<lparr>ia_addr = example_addr, ia_peer = addr0\<rparr>]\<rparr>)\<rparr>"

end
