(* ===== verification/Sysfs.thy ===== *)
theory Sysfs
  imports Prelude
begin

text \<open>
  Reading sysfs (\<open>sysfs.c\<close>) and asking drivers through ethtool (\<open>ethtool.c\<close>), in the network
  name space that is current.  What the kernel answers is an argument of the definitions.
  Mounting it is the subject of \<open>Mount\<close>; here the mount point is a directory name.
\<close>

section \<open>sysfs\<close>

text \<open>
  The files below the sysfs mount point: \<open>sf_open\<close> is 0 or the error of \<open>open\<close>, \<open>sf_read\<close>
  the error of \<open>read\<close> or the content, \<open>sf_errno\<close> what \<open>errno\<close> holds after a read of an empty
  file (which does not set it), \<open>sf_realpath\<close> the error or the resolved absolute path.
\<close>

record sysfs =
  sf_mountpoint :: string
  sf_page_size :: nat
  sf_open :: "string \<Rightarrow> int"
  sf_read :: "string \<Rightarrow> int + string"
  sf_errno :: "string \<Rightarrow> int"
  sf_realpath :: "string \<Rightarrow> int + string"

text \<open>The result is the returned length or negative error, and \<open>*dest\<close>.\<close>

definition sysfs_readfile :: "sysfs \<Rightarrow> string \<Rightarrow> mem \<Rightarrow> (int \<times> string option) \<times> mem" where
  "sysfs_readfile fs sys_path m =
     (let (ok, m) = alloc m in
      if \<not> ok then ((- ENOMEM, None), m)
      else let path = sf_mountpoint fs @ ''/'' @ sys_path; e = sf_open fs path in
        if e \<noteq> 0 then ((- e, None), m)
        else let (ok, m) = alloc m in
          if \<not> ok then ((- ENOMEM, None), m)
          else case sf_read fs path of
              Inl e \<Rightarrow> ((- e, None), m)
            | Inr s \<Rightarrow> let s = take (sf_page_size fs) s in
                if s = [] then ((- sf_errno fs path, None), m)
                else ((int (length s), Some (butlast s)), m))"

text \<open>
  \<open>sysfs_realpath\<close> drops the mount point and the slash after it (\<open>LEN\<close> counts the NUL of the
  mount point's name); the error is left in \<open>errno\<close>.
\<close>

definition sysfs_realpath :: "sysfs \<Rightarrow> string \<Rightarrow> mem \<Rightarrow> (int + string) \<times> mem" where
  "sysfs_realpath fs sys_path m =
     (let (ok, m) = alloc m in
      if \<not> ok then (Inl ENOMEM, m)
      else case sf_realpath fs (sf_mountpoint fs @ ''/'' @ sys_path) of
          Inl e \<Rightarrow> (Inl e, m)
        | Inr s \<Rightarrow> (Inr (drop (length (sf_mountpoint fs) + 1) s), m))"

text \<open>\<open>atoi\<close> of the C library: optional white space and sign, then the leading digits.\<close>

definition is_space :: "char \<Rightarrow> bool" where
  "is_space c \<longleftrightarrow> c = CHR '' '' \<or> (9 \<le> (of_char c :: nat) \<and> (of_char c :: nat) \<le> 13)"

definition atoi :: "string \<Rightarrow> int" where
  "atoi s =
     (case dropWhile is_space s of
        [] \<Rightarrow> 0
      | c # cs \<Rightarrow>
          (if c = CHR ''-'' then - int (read_dec 0 (takeWhile is_digit cs))
           else if c = CHR ''+'' then int (read_dec 0 (takeWhile is_digit cs))
           else int (read_dec 0 (takeWhile is_digit (c # cs)))))"

section \<open>ethtool\<close>

text \<open>
  The answers of the driver of an interface: the name and the number of statistics, the
  names of the statistics and their values (with the count the driver reports back), or an
  error.
\<close>

record ethtool =
  et_drvinfo :: "string \<Rightarrow> int + (string \<times> nat)"
  et_strings :: "string \<Rightarrow> nat \<Rightarrow> int + (nat \<times> string list)"
  et_stats :: "string \<Rightarrow> nat \<Rightarrow> int + (nat \<times> u64 list)"

definition ethtool_driver :: "ethtool \<Rightarrow> string \<Rightarrow> mem \<Rightarrow> string option \<times> mem" where
  "ethtool_driver et ifname m =
     (case et_drvinfo et ifname of
        Inl _ \<Rightarrow> (None, m)
      | Inr (driver, _) \<Rightarrow> let (ok, m) = alloc m in (if ok then Some driver else None, m))"

text \<open>The search loop: the value at the first statistic called \<open>peer_ifindex\<close>, 0 without one.\<close>

fun peer_stat :: "string list \<Rightarrow> u64 list \<Rightarrow> u32" where
  "peer_stat (s # ss) (v # vs) = (if s = ''peer_ifindex'' then ucast v else peer_stat ss vs)"
| "peer_stat _ _ = 0"

definition ethtool_veth_peer :: "ethtool \<Rightarrow> string \<Rightarrow> mem \<Rightarrow> u32 \<times> mem" where
  "ethtool_veth_peer et ifname m =
     (case et_drvinfo et ifname of
        Inl _ \<Rightarrow> (0, m)
      | Inr (_, n_stats) \<Rightarrow>
          if n_stats = 0 then (0, m)
          else let (ok, m) = alloc m in
            if \<not> ok then (0, m)
            else case et_strings et ifname n_stats of
                Inl _ \<Rightarrow> (0, m)
              | Inr (len, strs) \<Rightarrow>
                  if len \<noteq> n_stats then (0, m)
                  else let (ok, m) = alloc m in
                    if \<not> ok then (0, m)
                    else case et_stats et ifname n_stats of
                        Inl _ \<Rightarrow> (0, m)
                      | Inr (len, stats) \<Rightarrow>
                          if len \<noteq> n_stats then (0, m)
                          else (peer_stat (take n_stats strs) (take n_stats stats), m))"

end
