(* ===== verification/Handler.thy ===== *)
theory Handler
  imports Master Sysfs
begin

text \<open>
  Driver handlers (\<open>handler.c\<close>, \<open>handler.h\<close>): the registration lists, and the calls of every
  matching handler in each phase.  A handler without driver is called for every interface.
  A callback that is not set is \<open>None\<close>, the size of the private structure with the zeroed
  structure \<open>calloc\<close> makes is \<open>h_private\<close>.
\<close>

record if_handler =
  h_driver :: "string option"
  h_private :: "hpriv option"
  h_netlink :: "(ifp \<Rightarrow> attrs option \<Rightarrow> wact) option"
  h_scan :: "(ifp \<Rightarrow> wact) option"
  h_post :: "(ifp \<Rightarrow> wact) option"
  h_cleanup :: "(ifp \<Rightarrow> wact) option"

record netns_handler =
  nh_scan :: "(nsp \<Rightarrow> wact) option"
  nh_cleanup :: "(nsp \<Rightarrow> wact) option"

record global_handler =
  gh_init :: "wact option"
  gh_post :: "wact option"
  gh_cleanup :: "wact option"

definition no_handler :: if_handler where
  "no_handler = \<lparr>h_driver = None, h_private = None, h_netlink = None, h_scan = None, h_post = None, h_cleanup = None\<rparr>"

definition if_handler_register :: "if_handler \<Rightarrow> if_handler list \<Rightarrow> if_handler list" where
  "if_handler_register h hs = hs @ [h]"

definition netns_handler_register :: "netns_handler \<Rightarrow> netns_handler list \<Rightarrow> netns_handler list" where
  "netns_handler_register h hs = hs @ [h]"

definition global_handler_register :: "global_handler \<Rightarrow> global_handler list \<Rightarrow> global_handler list" where
  "global_handler_register h hs = hs @ [h]"

definition driver_match :: "if_handler \<Rightarrow> if_entry \<Rightarrow> bool" where
  "driver_match h e \<longleftrightarrow> (case h_driver h of None \<Rightarrow> True | Some d \<Rightarrow> i_driver e = Some d)"

definition handler_callback :: "('a \<Rightarrow> wact) option \<Rightarrow> 'a \<Rightarrow> wact" where
  "handler_callback callback x = (case callback of None \<Rightarrow> return_err 0 | Some f \<Rightarrow> f x)"

definition if_handler_callback :: "if_handler \<Rightarrow> (ifp \<Rightarrow> wact) option \<Rightarrow> ifp \<Rightarrow> wact" where
  "if_handler_callback h callback e =
     branch (\<lambda>w. driver_match h (w_if w e)) (handler_callback callback e) (return_err 0)"

fun if_handler_init :: "if_handler list \<Rightarrow> ifp \<Rightarrow> wact" where
  "if_handler_init [] e = return_err 0"
| "if_handler_init (h # hs) e =
     (case h_driver h of
        None \<Rightarrow> if_handler_init hs e
      | Some d \<Rightarrow> reading (\<lambda>w.
          (case i_driver (w_if w e) of
             None \<Rightarrow> crash
           | Some d' \<Rightarrow>
               if d \<noteq> d' then if_handler_init hs e
               else (case h_private h of
                   None \<Rightarrow> return_err 0
                 | Some p \<Rightarrow>
                     if_alloc (assign (upd_if e (\<lambda>i. i\<lparr>i_private := Ptr p\<rparr>)))
                       (andthen (assign (upd_if e (\<lambda>i. i\<lparr>i_private := NullPtr\<rparr>))) (return_err ENOMEM))))))"

definition if_handler_netlink :: "if_handler list \<Rightarrow> ifp \<Rightarrow> attrs option \<Rightarrow> wact" where
  "if_handler_netlink hs e linkinfo =
     each_act (\<lambda>h. if_handler_callback h (map_option (\<lambda>f e. f e linkinfo) (h_netlink h)) e) hs"

definition if_handler_scan :: "if_handler list \<Rightarrow> ifp \<Rightarrow> wact" where
  "if_handler_scan hs e = each_act (\<lambda>h. if_handler_callback h (h_scan h) e) hs"

definition if_handler_post :: "if_handler list \<Rightarrow> wact" where
  "if_handler_post hs = reading (\<lambda>w.
     each_act (\<lambda>n. reading (\<lambda>w.
       each_act (\<lambda>e. each_act (\<lambda>h. if_handler_callback h (h_post h) e) hs) (n_ifaces (w_ns w n)))) (w_list w))"

definition free_private :: "ifp \<Rightarrow> wact" where
  "free_private e = reading (\<lambda>w.
     (case free_ptr (i_private (w_if w e)) of
        None \<Rightarrow> crash
      | Some p \<Rightarrow> assign (upd_if e (\<lambda>i. i\<lparr>i_private := p\<rparr>))))"

definition if_handler_cleanup :: "if_handler list \<Rightarrow> ifp \<Rightarrow> wact" where
  "if_handler_cleanup hs e w =
     (case each_ignore (\<lambda>h. if_handler_callback h (h_cleanup h) e) hs w of
        None \<Rightarrow> None
      | Some w \<Rightarrow> free_private e w)"

definition netns_handler_scan :: "netns_handler list \<Rightarrow> nsp \<Rightarrow> wact" where
  "netns_handler_scan hs n = each_act (\<lambda>h. handler_callback (nh_scan h) n) hs"

definition netns_handler_cleanup :: "netns_handler list \<Rightarrow> nsp \<Rightarrow> world \<Rightarrow> world option" where
  "netns_handler_cleanup hs n = each_ignore (\<lambda>h. handler_callback (nh_cleanup h) n) hs"

definition global_handler_init :: "global_handler list \<Rightarrow> wact" where
  "global_handler_init hs = each_act (\<lambda>h. (case gh_init h of None \<Rightarrow> return_err 0 | Some f \<Rightarrow> f)) hs"

definition global_handler_post :: "global_handler list \<Rightarrow> wact" where
  "global_handler_post hs = each_act (\<lambda>h. (case gh_post h of None \<Rightarrow> return_err 0 | Some f \<Rightarrow> f)) hs"

definition global_handler_cleanup :: "global_handler list \<Rightarrow> world \<Rightarrow> world option" where
  "global_handler_cleanup hs = each_ignore (\<lambda>h. (case gh_cleanup h of None \<Rightarrow> return_err 0 | Some f \<Rightarrow> f)) hs"

section \<open>The contract of a set of handlers\<close>

text \<open>
  A set of handlers keeps a property of the world when every callback does; then so does
  every phase, whatever drivers the interfaces have and however many handlers match.
  \<open>reader\<close> is the contract of the phases that read an interface, \<open>registry\<close> adds the phases
  after all interfaces have been read; \<open>A\<close> holds the listed interfaces.
\<close>

locale reader =
  fixes hs :: "if_handler list" and P :: "world \<Rightarrow> bool"
  assumes on_links_P: "on_links P"
    and netlink_keeps: "h \<in> set hs \<Longrightarrow> h_netlink h = Some f \<Longrightarrow> keeps P (f e li)"
    and scan_keeps: "h \<in> set hs \<Longrightarrow> h_scan h = Some g \<Longrightarrow> keeps P (g e)"
begin

lemma callback_keeps: "(\<And>f. callback = Some f \<Longrightarrow> keeps P (f e)) \<Longrightarrow> keeps P (if_handler_callback h callback e)"
  unfolding if_handler_callback_def handler_callback_def
  by (intro keeps_branch keeps_return_err) (auto split: option.splits intro: keeps_return_err)

lemma keeps_private: "keeps P (assign (upd_if e (\<lambda>i. i\<lparr>i_private := p\<rparr>)))"
  by (rule keeps_assign, rule on_links_upd_if [OF on_links_P]) (simp_all add: if_links_def)

lemma init_keeps: "keeps P (if_handler_init gs e)"
proof (induction gs)
  case (Cons h gs)
  then show ?case
    by (auto split: option.splits intro!: keeps_intros keeps_reading keeps_private on_links_mem [OF on_links_P])
qed (simp add: keeps_return_err)

lemma netlink_phase_keeps: "keeps P (if_handler_netlink hs e li)"
  unfolding if_handler_netlink_def
  by (intro keeps_each callback_keeps) (auto intro: netlink_keeps)

lemma scan_phase_keeps: "keeps P (if_handler_scan hs e)"
  unfolding if_handler_scan_def
  by (intro keeps_each callback_keeps) (auto intro: scan_keeps)

end

locale registry = reader +
  fixes A :: "ifp set"
  assumes listed_in: "P w \<Longrightarrow> set (n_ifaces (w_ns w n)) \<subseteq> A"
    and post_keeps: "h \<in> set hs \<Longrightarrow> h_post h = Some g \<Longrightarrow> e \<in> A \<Longrightarrow> keeps P (g e)"
    and cleanup_keeps: "h \<in> set hs \<Longrightarrow> h_cleanup h = Some g \<Longrightarrow> keeps P (g e)"
begin

lemma post_phase_keeps: "keeps P (if_handler_post hs)"
  unfolding if_handler_post_def
  by (intro keeps_reading keeps_each keeps_reading_in callback_keeps) (use listed_in in \<open>auto intro: post_keeps\<close>)

lemma cleanup_phase_keeps: "keeps P (if_handler_cleanup hs e)"
proof (rule keepsI)
  fix w err w'
  assume p: "P w" and r: "if_handler_cleanup hs e w = Some (err, w')"
  from r obtain v where v: "each_ignore (\<lambda>h. if_handler_callback h (h_cleanup h) e) hs w = Some v" "free_private e v = Some (err, w')"
    by (auto simp: if_handler_cleanup_def split: option.splits)
  have "P v"
    by (rule each_ignore_keeps [OF callback_keeps p v(1)]) (auto intro: cleanup_keeps)
  moreover have "keeps P (free_private e)"
    unfolding free_private_def by (intro keeps_reading keeps_option keeps_crash keeps_private)
  ultimately show "P w'" using v(2) by (auto dest: keepsD)
qed

end

text \<open>
  What the handlers take from outside: the C library's address conversions, and sysfs and
  ethtool as seen in the name space of the interface.
\<close>

record env =
  env_ntop :: ntop
  env_pton :: pton
  env_sysfs :: "nsp \<Rightarrow> sysfs"
  env_ethtool :: "nsp \<Rightarrow> ethtool"

definition sysfs_of :: "env \<Rightarrow> world \<Rightarrow> ifp \<Rightarrow> sysfs" where
  "sysfs_of env w e = env_sysfs env (i_ns (w_if w e))"

definition ethtool_of :: "env \<Rightarrow> world \<Rightarrow> ifp \<Rightarrow> ethtool" where
  "ethtool_of env w e = env_ethtool env (i_ns (w_if w e))"

text \<open>The attributes of \<open>linkinfo\<close>: the driver's data, parsed into a table that is freed again.\<close>

definition IFLA_INFO_KIND :: nat where "IFLA_INFO_KIND = 1"
definition IFLA_INFO_DATA :: nat where "IFLA_INFO_DATA = 2"

definition info_data :: "attrs option \<Rightarrow> nlattr option" where
  "info_data linkinfo = (case linkinfo of None \<Rightarrow> None | Some tb \<Rightarrow> tb IFLA_INFO_DATA)"

definition with_attrs :: "nlattr \<Rightarrow> nat \<Rightarrow> (attrs \<Rightarrow> wact) \<Rightarrow> wact \<Rightarrow> wact" where
  "with_attrs a mx k err = mem_call (nla_nested_attrs a mx) (\<lambda>tb. case tb of None \<Rightarrow> err | Some tb \<Rightarrow> k tb)"

lemma keeps_with_attrs [keeps_intros]:
  assumes P: "on_links P" and k: "\<And>tb. keeps P (k tb)" and err: "keeps P err"
  shows "keeps P (with_attrs a mx k err)"
  unfolding with_attrs_def by (intro keeps_mem_call on_links_mem [OF P] keeps_option k err)

lemma keeps_setting:
  assumes P: "on_links P" and f: "\<And>i. if_links (f i) = if_links i"
  shows "keeps P (assign (upd_if e f))"
  by (intro keeps_assign on_links_upd_if [OF P] f)

text \<open>
  Dispatch when the callbacks leave the interface's driver alone: the handlers called are the
  generic ones and those of the driver, in registration order.
\<close>

definition handlers_for :: "if_handler list \<Rightarrow> string option \<Rightarrow> if_handler list" where
  "handlers_for hs drv = filter (\<lambda>h. h_driver h = None \<or> h_driver h = drv) hs"

definition keeps_driver :: "ifp \<Rightarrow> wact \<Rightarrow> bool" where
  "keeps_driver e f \<longleftrightarrow> (\<forall>d. keeps (\<lambda>w. i_driver (w_if w e) = d) f)"

lemma dispatch:
  assumes "\<And>h. h \<in> set hs \<Longrightarrow> keeps_driver e (handler_callback (sel h) e)" and "i_driver (w_if w e) = drv"
  shows "each_act (\<lambda>h. if_handler_callback h (sel h) e) hs w =
    each_act (\<lambda>h. handler_callback (sel h) e) (handlers_for hs drv) w"
  using assms
proof (induction hs arbitrary: w)
  case (Cons h hs)
  show ?case
  proof (cases "h_driver h = None \<or> h_driver h = drv")
    case True
    then have m: "driver_match h (w_if w e)" using Cons.prems(2) by (auto simp: driver_match_def split: option.splits)
    show ?thesis
    proof (cases "handler_callback (sel h) e w")
      case None
      with True m show ?thesis by (simp add: handlers_for_def andthen_def if_handler_callback_def branch_def)
    next
      case (Some r)
      obtain err v where r: "r = (err, v)" by (cases r)
      have "keeps (\<lambda>w. i_driver (w_if w e) = drv) (handler_callback (sel h) e)"
        using Cons.prems(1) [of h] by (simp add: keeps_driver_def)
      from keepsD [OF this Cons.prems(2)] Some r have "i_driver (w_if v e) = drv" by simp
      with Cons.IH [of v] Cons.prems(1) True m Some r show ?thesis
        by (simp add: handlers_for_def andthen_def if_handler_callback_def branch_def)
    qed
  next
    case False
    then obtain d where d: "h_driver h = Some d" "drv \<noteq> Some d" by auto
    then have "\<not> driver_match h (w_if w e)" using Cons.prems(2) by (simp add: driver_match_def)
    with d Cons show ?thesis
      by (simp add: handlers_for_def andthen_def if_handler_callback_def branch_def return_err_def)
  qed
qed (simp add: handlers_for_def)

end
