(* ===== verification/Bond.thy ===== *)
theory Bond
  imports Handler
begin

text \<open>
  The bonding handler (\<open>handlers/bond.c\<close>): mode and active slave from netlink, else from
  sysfs; after the masters are resolved, the active slave is recorded and the others are
  marked passive.
\<close>

unbundle bit_operations_syntax

definition IFLA_BOND_MODE :: nat where "IFLA_BOND_MODE = 1"
definition IFLA_BOND_ACTIVE_SLAVE :: nat where "IFLA_BOND_ACTIVE_SLAVE = 2"
definition IFLA_BOND_MAX :: nat where "IFLA_BOND_MAX = 23"

definition bond_mode_name :: "string list" where
  "bond_mode_name = ['''', ''balance-rr'', ''active-backup'', ''balance-xor'', ''broadcast'', ''802.3ad'', ''balance-tlb'', ''balance-alb'']"

definition with_bond :: "ifp \<Rightarrow> (bond_private \<Rightarrow> wact) \<Rightarrow> wact" where
  "with_bond e f = reading (\<lambda>w. case i_private (w_if w e) of Ptr (BondPriv b) \<Rightarrow> f b | _ \<Rightarrow> crash)"

definition set_bond :: "ifp \<Rightarrow> bond_private \<Rightarrow> wact" where
  "set_bond e b = assign (upd_if e (\<lambda>i. i\<lparr>i_private := Ptr (BondPriv b)\<rparr>))"

text \<open>\<open>if (priv->mode >= ARRAY_SIZE(bond_mode_name)) priv->mode = 0\<close>\<close>

definition clamp_mode :: "u8 \<Rightarrow> u8" where
  "clamp_mode m = (if unat m \<ge> length bond_mode_name then 0 else m)"

definition bond_netlink :: "ifp \<Rightarrow> attrs option \<Rightarrow> wact" where
  "bond_netlink e linkinfo =
     (case info_data linkinfo of
        None \<Rightarrow> return_err ENOENT
      | Some data \<Rightarrow> with_attrs data IFLA_BOND_MAX
          (\<lambda>bondinfo. andthen
            (case bondinfo IFLA_BOND_MODE of
               None \<Rightarrow> ok_act
             | Some a \<Rightarrow> with_bond e (\<lambda>b. set_bond e (b\<lparr>bp_mode := clamp_mode (nla_read_u8 a + 1)\<rparr>)))
            (case bondinfo IFLA_BOND_ACTIVE_SLAVE of
               None \<Rightarrow> ok_act
             | Some a \<Rightarrow> with_bond e (\<lambda>b. set_bond e (b\<lparr>bp_active_slave_index := nla_read_u32 a\<rparr>))))
          (return_err ENOMEM))"

text \<open>
  \<open>bond_get_sysfs\<close> passes on length or error and the string; on length 0 it frees the address
  of the caller's pointer instead of the pointer (\<open>free(dest)\<close>), which crashes.
\<close>

definition bond_get_sysfs :: "sysfs \<Rightarrow> string \<Rightarrow> string \<Rightarrow> mem \<Rightarrow> (int \<times> string option) option \<times> mem" where
  "bond_get_sysfs fs ifname prop m =
     (let (ok, m) = alloc m in
      if \<not> ok then (Some (- ENOMEM, None), m)
      else let ((len, dest), m) = sysfs_readfile fs (''class/net/'' @ ifname @ ''/bonding/'' @ prop) m in
        if len < 0 then (Some (if len = - ENOENT then 0 else len, dest), m)
        else if len = 0 then (None, m)
        else (Some (len, dest), m))"

definition mode_of_file :: "string \<Rightarrow> u8 \<Rightarrow> u8" where
  "mode_of_file s old = (case dropWhile (\<lambda>c. c \<noteq> CHR '' '') s of [] \<Rightarrow> old | _ # s \<Rightarrow> word_of_int (atoi s + 1))"

definition bond_scan :: "env \<Rightarrow> ifp \<Rightarrow> wact" where
  "bond_scan env e =
     andthen
       (with_bond e (\<lambda>b.
          if bp_mode b = 0 then reading (\<lambda>w.
            mem_call (bond_get_sysfs (sysfs_of env w e) (i_name (w_if w e)) ''mode'') (\<lambda>r.
              (case r of None \<Rightarrow> crash
               | Some (len, dest) \<Rightarrow>
                   set_bond e (b\<lparr>bp_mode := clamp_mode
                     (case dest of Some s \<Rightarrow> (if len > 0 then mode_of_file s (bp_mode b) else bp_mode b) | None \<Rightarrow> bp_mode b)\<rparr>))))
          else ok_act))
       (with_bond e (\<lambda>b.
          if bp_active_slave_index b = 0 then reading (\<lambda>w.
            mem_call (bond_get_sysfs (sysfs_of env w e) (i_name (w_if w e)) ''active_slave'') (\<lambda>r.
              (case r of None \<Rightarrow> crash
               | Some (_, dest) \<Rightarrow> set_bond e (b\<lparr>bp_active_slave_name := dest\<rparr>))))
          else ok_act))"

definition match_active_slave :: "bond_private \<Rightarrow> if_entry \<Rightarrow> bool" where
  "match_active_slave b i =
     (if bp_active_slave_index b \<noteq> 0 \<and> i_index i \<noteq> bp_active_slave_index b then False
      else if bp_active_slave_name b \<noteq> None \<and> bp_active_slave_name b \<noteq> Some (i_name i) then False
      else True)"

definition bond_slave :: "ifp \<Rightarrow> bond_private \<Rightarrow> ifp \<Rightarrow> wact" where
  "bond_slave e b slave = reading (\<lambda>w.
     if match_active_slave b (w_if w slave)
     then andthen (assign (upd_if e (\<lambda>i. i\<lparr>i_active_slave := Some slave\<rparr>)))
            (ignoring (if_add_state e ''active slave'' (i_name (w_if w slave))) ok_act)
     else assign (upd_if slave (\<lambda>i. i\<lparr>i_flags := i_flags i OR IF_PASSIVE_SLAVE\<rparr>)))"

definition bond_post :: "ifp \<Rightarrow> wact" where
  "bond_post e = with_bond e (\<lambda>b.
     andthen
       (if bp_mode b \<noteq> 0 then
          (if unat (bp_mode b) < length bond_mode_name then
             (if bond_mode_name ! unat (bp_mode b) \<noteq> [] then
                ignoring (if_add_config e ''mode'' (bond_mode_name ! unat (bp_mode b))) ok_act
              else ok_act)
           else crash)
        else ok_act)
       (if bp_active_slave_index b \<noteq> 0 \<or> bp_active_slave_name b \<noteq> None
        then reading (\<lambda>w. each_act (bond_slave e b) (i_rev_master (w_if w e)))
        else ok_act))"

text \<open>\<open>bond_cleanup\<close> reads the private structure and frees the name in it.\<close>

definition bond_cleanup :: "ifp \<Rightarrow> wact" where
  "bond_cleanup e = with_bond e (\<lambda>b. set_bond e (b\<lparr>bp_active_slave_name := None\<rparr>))"

definition h_bond :: "env \<Rightarrow> if_handler" where
  "h_bond env = \<lparr>h_driver = Some ''bonding'',
     h_private = Some (BondPriv \<lparr>bp_mode = 0, bp_active_slave_index = 0, bp_active_slave_name = None\<rparr>),
     h_netlink = Some bond_netlink, h_scan = Some (bond_scan env), h_post = Some bond_post, h_cleanup = Some bond_cleanup\<rparr>"

section \<open>Lemmas\<close>

lemma length_bond_mode_name [simp]: "length bond_mode_name = 8"
  by (simp add: bond_mode_name_def)

lemma with_bond_run: "i_private (w_if w e) = Ptr (BondPriv b) \<Longrightarrow> with_bond e f w = f b w"
  by (simp add: with_bond_def reading_def)

lemma andthen_run: "f w = Some (0, v) \<Longrightarrow> andthen f g w = g v"
  by (simp add: andthen_def)

lemma keeps_with_bond [keeps_intros]: "(\<And>b. keeps P (f b)) \<Longrightarrow> keeps P (with_bond e f)"
  unfolding with_bond_def by (rule keeps_reading) (auto split: cptr.splits hpriv.splits intro: keeps_crash)

lemma keeps_set_bond [keeps_intros]: "on_links P \<Longrightarrow> keeps P (set_bond e b)"
  unfolding set_bond_def by (rule keeps_setting) (simp_all add: if_links_def)

lemma keeps_bond:
  assumes P: "on_links P"
  shows "keeps P (bond_netlink e li)" and "keeps P (bond_scan env e)" and "keeps P (bond_post e)" and "keeps P (bond_cleanup e)"
proof -
  show "keeps P (bond_netlink e li)"
    unfolding bond_netlink_def by (intro keeps_intros P)
  show "keeps P (bond_scan env e)"
    unfolding bond_scan_def
    by (intro keeps_intros keeps_reading on_links_mem [OF P] P) (auto split: option.splits intro!: keeps_intros P)
  have s: "keeps P (bond_slave e b x)" for b x
    unfolding bond_slave_def
    by (intro keeps_reading keeps_intros keeps_setting P) (simp_all add: if_links_def)
  show "keeps P (bond_post e)"
    unfolding bond_post_def by (intro keeps_intros keeps_reading P s)
  show "keeps P (bond_cleanup e)"
    unfolding bond_cleanup_def by (intro keeps_intros P)
qed

section \<open>The mode stays within the table of names\<close>

definition bond_mode_ok :: "world \<Rightarrow> bool" where
  "bond_mode_ok w \<longleftrightarrow> (\<forall>e b. i_private (w_if w e) = Ptr (BondPriv b) \<longrightarrow> unat (bp_mode b) < length bond_mode_name)"

lemma bond_mode_ok_upd:
  assumes "\<And>i. i_private (f i) = i_private i" "bond_mode_ok w"
  shows "bond_mode_ok (upd_if e f w)"
  using assms by (auto simp: bond_mode_ok_def)

lemma bond_mode_ok_mem: "bond_mode_ok w \<Longrightarrow> bond_mode_ok (w\<lparr>w_mem := m\<rparr>)"
  by (auto simp: bond_mode_ok_def)

lemma clamp_mode_bound: "unat (clamp_mode m) < 8"
  by (auto simp: clamp_mode_def)

lemma keeps_mode_set: "unat (bp_mode b) < 8 \<Longrightarrow> keeps bond_mode_ok (set_bond e b)"
  unfolding set_bond_def by (rule keeps_assign) (auto simp: bond_mode_ok_def)

lemma keeps_mode_with:
  assumes "\<And>b. unat (bp_mode b) < 8 \<Longrightarrow> keeps bond_mode_ok (f b)"
  shows "keeps bond_mode_ok (with_bond e f)"
proof (rule keepsI)
  fix w err v
  assume ok: "bond_mode_ok w" and r: "with_bond e f w = Some (err, v)"
  then obtain b where b: "i_private (w_if w e) = Ptr (BondPriv b)" "f b w = Some (err, v)"
    by (auto simp: with_bond_def reading_def crash_def split: cptr.splits hpriv.splits)
  from ok b(1) have "unat (bp_mode b) < 8" by (auto simp: bond_mode_ok_def)
  from assms [OF this] ok b(2) show "bond_mode_ok v" by (rule keepsD)
qed

lemma keeps_mode_netlink: "keeps bond_mode_ok (bond_netlink e li)"
  unfolding bond_netlink_def with_attrs_def
  by (intro keeps_return_err keeps_option keeps_mem_call keeps_andthen keeps_ok keeps_mode_with keeps_mode_set bond_mode_ok_mem)
    (simp_all add: clamp_mode_bound)

lemma keeps_mode_scan: "keeps bond_mode_ok (bond_scan env e)"
  unfolding bond_scan_def
  by (intro keeps_andthen keeps_mode_with keeps_if keeps_reading keeps_mem_call keeps_ok bond_mode_ok_mem)
    (auto split: option.splits intro!: keeps_crash keeps_mode_set simp: clamp_mode_bound)

lemma keeps_mode_prop: "keeps bond_mode_ok (if_add_prop type x key val)"
proof (rule keepsI)
  fix w err v
  assume w: "bond_mode_ok w" and r: "if_add_prop type x key val w = Some (err, v)"
  from if_add_prop_total [of type x key val w] r obtain ps m where
    "v = upd_if x (\<lambda>i. i\<lparr>i_properties := ps\<rparr>) (w\<lparr>w_mem := m\<rparr>)" by auto
  with bond_mode_ok_upd [OF _ bond_mode_ok_mem [OF w], of "\<lambda>i. i\<lparr>i_properties := ps\<rparr>"] show "bond_mode_ok v" by simp
qed

lemma keeps_mode_slave: "keeps bond_mode_ok (bond_slave e b slave)"
  unfolding bond_slave_def if_add_state_def
  by (intro keeps_reading keeps_if keeps_andthen keeps_ignoring keeps_mode_prop keeps_ok keeps_assign bond_mode_ok_upd) simp_all

lemma keeps_mode_post: "keeps bond_mode_ok (bond_post e)"
  unfolding bond_post_def if_add_config_def
  by (intro keeps_mode_with keeps_andthen keeps_if keeps_ignoring keeps_mode_prop keeps_ok keeps_crash keeps_reading keeps_each
      keeps_mode_slave)

lemma keeps_mode_cleanup: "keeps bond_mode_ok (bond_cleanup e)"
  unfolding bond_cleanup_def by (intro keeps_mode_with keeps_mode_set) simp

lemma keeps_mode_init: "keeps bond_mode_ok (if_handler_init [h_bond env] e)"
  by (auto simp: h_bond_def intro!: keeps_reading keeps_return_err keeps_if keeps_crash keeps_if_alloc keeps_assign keeps_andthen
      bond_mode_ok_mem split: option.splits)
    (auto simp: bond_mode_ok_def split: if_splits)

section \<open>Active and passive slaves\<close>

lemma bond_slave_step:
  "\<exists>v. bond_slave e b s w = Some (0, v) \<and>
     (\<forall>x. i_flags (w_if v x) = (if x = s \<and> \<not> match_active_slave b (w_if w s) then i_flags (w_if w x) OR IF_PASSIVE_SLAVE else i_flags (w_if w x))) \<and>
     (\<forall>x. i_active_slave (w_if v x) = (if x = e \<and> match_active_slave b (w_if w s) then Some s else i_active_slave (w_if w x))) \<and>
     (\<forall>x. i_index (w_if v x) = i_index (w_if w x) \<and> i_name (w_if v x) = i_name (w_if w x))"
proof (cases "match_active_slave b (w_if w s)")
  case True
  let ?w = "upd_if e (\<lambda>i. i\<lparr>i_active_slave := Some s\<rparr>) w"
  from ignoring_prop_total [of IF_PROP_STATE e "''active slave''" "i_name (w_if w s)" ok_act ?w] obtain ps m where
    "ignoring (if_add_state e ''active slave'' (i_name (w_if w s))) ok_act ?w = Some (0, upd_if e (\<lambda>i. i\<lparr>i_properties := ps\<rparr>) (?w\<lparr>w_mem := m\<rparr>))"
    by (auto simp: if_add_state_def ok_act_def)
  with True show ?thesis by (simp add: bond_slave_def reading_def andthen_def assign_def)
next
  case False
  then show ?thesis by (simp add: bond_slave_def reading_def assign_def)
qed

lemma match_active_slave_cong:
  "i_index i = i_index j \<Longrightarrow> i_name i = i_name j \<Longrightarrow> match_active_slave b i = match_active_slave b j"
  by (simp add: match_active_slave_def)

lemma bond_slaves:
  "\<exists>v. each_act (bond_slave e b) ss w = Some (0, v) \<and>
     (\<forall>x. i_flags (w_if v x) = (if x \<in> set ss \<and> \<not> match_active_slave b (w_if w x) then i_flags (w_if w x) OR IF_PASSIVE_SLAVE else i_flags (w_if w x))) \<and>
     i_active_slave (w_if v e) = (case rev (filter (\<lambda>s. match_active_slave b (w_if w s)) ss) of [] \<Rightarrow> i_active_slave (w_if w e) | s # _ \<Rightarrow> Some s)"
proof (induction ss arbitrary: w)
  case Nil
  then show ?case by (simp add: ok_act_def)
next
  case (Cons s ss)
  from bond_slave_step [of e b s w] obtain u where
    u: "bond_slave e b s w = Some (0, u)"
      "\<And>x. i_flags (w_if u x) = (if x = s \<and> \<not> match_active_slave b (w_if w s) then i_flags (w_if w x) OR IF_PASSIVE_SLAVE else i_flags (w_if w x))"
      "\<And>x. i_active_slave (w_if u x) = (if x = e \<and> match_active_slave b (w_if w s) then Some s else i_active_slave (w_if w x))"
      "\<And>x. i_index (w_if u x) = i_index (w_if w x)" "\<And>x. i_name (w_if u x) = i_name (w_if w x)" by blast
  have m: "match_active_slave b (w_if u x) = match_active_slave b (w_if w x)" for x
    by (rule match_active_slave_cong) (simp_all add: u)
  from Cons.IH [of u] obtain v where v: "each_act (bond_slave e b) ss u = Some (0, v)"
     "\<And>x. i_flags (w_if v x) = (if x \<in> set ss \<and> \<not> match_active_slave b (w_if w x) then i_flags (w_if u x) OR IF_PASSIVE_SLAVE else i_flags (w_if u x))"
     "i_active_slave (w_if v e) = (case rev (filter (\<lambda>s. match_active_slave b (w_if w s)) ss) of [] \<Rightarrow> i_active_slave (w_if u e) | s # _ \<Rightarrow> Some s)"
    unfolding m by blast
  have "each_act (bond_slave e b) (s # ss) w = Some (0, v)" using u(1) v(1) by (simp add: andthen_def)
  moreover have "i_flags (w_if v x) = (if x \<in> set (s # ss) \<and> \<not> match_active_slave b (w_if w x)
      then i_flags (w_if w x) OR IF_PASSIVE_SLAVE else i_flags (w_if w x))" for x
    by (auto simp: v(2) u(2) or.assoc)
  moreover have "i_active_slave (w_if v e) = (case rev (filter (\<lambda>s. match_active_slave b (w_if w s)) (s # ss)) of
      [] \<Rightarrow> i_active_slave (w_if w e) | s # _ \<Rightarrow> Some s)"
    by (auto simp: v(3) u(3) split: list.splits)
  ultimately show ?case by blast
qed

text \<open>
  C26: The bonding mode never indexes past the table of mode names: the allocation of the
  private structure, netlink (where 255 wraps to 0), sysfs (any number in the file), and the
  post and cleanup callbacks of the bonding handler keep the modes of all bonds below 8, and
  with it \<open>bond_post\<close> on a bond with its private structure always returns 0.
\<close>

theorem bond_mode_in_range:
  "keeps bond_mode_ok (if_handler_init [h_bond env] e) \<and>
   keeps bond_mode_ok (bond_netlink e li) \<and> keeps bond_mode_ok (bond_scan env e) \<and>
   keeps bond_mode_ok (bond_post e) \<and> keeps bond_mode_ok (bond_cleanup e) \<and>
   (\<forall>w b. bond_mode_ok w \<and> i_private (w_if w e) = Ptr (BondPriv b) \<longrightarrow> (\<exists>v. bond_post e w = Some (0, v)))"
proof (intro conjI keeps_mode_init keeps_mode_netlink keeps_mode_scan keeps_mode_post keeps_mode_cleanup allI impI)
  fix w b
  assume a: "bond_mode_ok w \<and> i_private (w_if w e) = Ptr (BondPriv b)"
  then have m: "unat (bp_mode b) < length bond_mode_name" by (auto simp: bond_mode_ok_def)
  have r: "\<exists>v. ignoring (if_add_config e k t) ok_act w = Some (0, v)" for k t
    using ignoring_prop_total [of IF_PROP_CONFIG e k t ok_act w] by (auto simp: if_add_config_def ok_act_def)
  have s: "\<exists>v. each_act (bond_slave e b) ss u = Some (0, v)" for ss u
    using bond_slaves [of e b ss u] by blast
  from a show "\<exists>v. bond_post e w = Some (0, v)"
    using m r [of "''mode''" "bond_mode_name ! unat (bp_mode b)"] s
    by (auto simp: bond_post_def with_bond_def reading_def andthen_def ok_act_def split: if_splits)
qed

text \<open>A bond (interface 0) in mode active-backup with active slave index 2, and two slaves.\<close>

definition example_bond :: world where
  "example_bond = example_world\<lparr>w_if := (\<lambda>e. if_entry0\<lparr>i_ns := e div 2, i_index := of_nat e, i_name := ''if'', i_flags := IF_UP,
     i_rev_master := (if e = 0 then [2, 3] else []), i_master := (if e = 2 \<or> e = 3 then Some 0 else None),
     i_private := (if e = 0 then Ptr (BondPriv \<lparr>bp_mode = 2, bp_active_slave_index = 2, bp_active_slave_name = None\<rparr>) else NullPtr)\<rparr>)\<rparr>"

theorem bond_mode_in_range_witness:
  "\<exists>v. bond_post 0 example_bond = Some (0, v)"
proof -
  have "bond_mode_ok example_bond" "\<exists>b. i_private (w_if example_bond 0) = Ptr (BondPriv b)"
    by (simp_all add: bond_mode_ok_def example_bond_def if_entry0_def)
  with bond_mode_in_range [of undefined 0 None] show ?thesis by blast
qed

text \<open>
  \<open>bond_post\<close> of a bond with an active slave index or name marks exactly the slaves
  passive that do not match both of those that are set, leaves the flags of all other
  interfaces alone, and records the last matching slave as active (none matching: what was
  recorded before).
\<close>

lemma bond_post_slaves:
  assumes "i_private (w_if w e) = Ptr (BondPriv b)" and "unat (bp_mode b) < 8"
    and "bp_active_slave_index b \<noteq> 0 \<or> bp_active_slave_name b \<noteq> None"
  shows "\<exists>v. bond_post e w = Some (0, v) \<and>
    (\<forall>x. i_flags (w_if v x) =
       (if x \<in> set (i_rev_master (w_if w e)) \<and> \<not> match_active_slave b (w_if w x)
        then i_flags (w_if w x) OR IF_PASSIVE_SLAVE else i_flags (w_if w x))) \<and>
    i_active_slave (w_if v e) =
      (case rev (filter (\<lambda>s. match_active_slave b (w_if w s)) (i_rev_master (w_if w e))) of
         [] \<Rightarrow> i_active_slave (w_if w e) | s # _ \<Rightarrow> Some s)"
proof -
  let ?first = "if bp_mode b \<noteq> 0 then
          (if unat (bp_mode b) < length bond_mode_name then
             (if bond_mode_name ! unat (bp_mode b) \<noteq> [] then
                ignoring (if_add_config e ''mode'' (bond_mode_name ! unat (bp_mode b))) ok_act
              else ok_act)
           else crash)
        else ok_act"
  let ?same = "\<lambda>u. \<forall>x. i_flags (w_if u x) = i_flags (w_if w x) \<and> i_active_slave (w_if u x) = i_active_slave (w_if w x) \<and>
      i_rev_master (w_if u x) = i_rev_master (w_if w x) \<and> i_index (w_if u x) = i_index (w_if w x) \<and> i_name (w_if u x) = i_name (w_if w x)"
  have "\<exists>u. ?first w = Some (0, u) \<and> ?same u"
  proof (cases "bp_mode b \<noteq> 0 \<and> bond_mode_name ! unat (bp_mode b) \<noteq> []")
    case True
    from ignoring_prop_total [of IF_PROP_CONFIG e "''mode''" "bond_mode_name ! unat (bp_mode b)" ok_act w] obtain ps m where
      r: "ignoring (if_add_config e ''mode'' (bond_mode_name ! unat (bp_mode b))) ok_act w =
        Some (0, upd_if e (\<lambda>i. i\<lparr>i_properties := ps\<rparr>) (w\<lparr>w_mem := m\<rparr>))"
      by (auto simp: if_add_config_def ok_act_def)
    have "?same (upd_if e (\<lambda>i. i\<lparr>i_properties := ps\<rparr>) (w\<lparr>w_mem := m\<rparr>))" by simp
    moreover have "?first w = ignoring (if_add_config e ''mode'' (bond_mode_name ! unat (bp_mode b))) ok_act w"
      using True assms(2) by simp
    ultimately show ?thesis unfolding r by blast
  next
    case False
    with assms(2) show ?thesis by (intro exI [of _ w]) (auto simp: ok_act_def)
  qed
  then obtain u where u0: "?first w = Some (0, u)" "?same u" by blast
  then have u: "?first w = Some (0, u)" "i_flags (w_if u x) = i_flags (w_if w x)"
      "i_active_slave (w_if u x) = i_active_slave (w_if w x)" "i_rev_master (w_if u x) = i_rev_master (w_if w x)"
      "i_index (w_if u x) = i_index (w_if w x)" "i_name (w_if u x) = i_name (w_if w x)" for x
    by simp_all
  have m: "match_active_slave b (w_if u x) = match_active_slave b (w_if w x)" for x
    by (rule match_active_slave_cong) (simp_all add: u)
  have "bond_post e w = each_act (bond_slave e b) (i_rev_master (w_if w e)) u"
    unfolding bond_post_def with_bond_run [OF assms(1)] andthen_run [of ?first w u, OF u(1)]
    using assms(3) by (simp add: reading_def u(4))
  with bond_slaves [of e b "i_rev_master (w_if w e)" u] show ?thesis
    unfolding m u(2,3) by simp
qed

end
