(* ===== verification/Devices.thy ===== *)
theory Devices
  imports Handler
begin

text \<open>
  The handlers that only read facts about one interface: bridge ports (\<open>handlers/bridge.c\<close>),
  VLANs (\<open>vlan.c\<close>), MACsec (\<open>macsec.c\<close>), XFRM interfaces (\<open>xfrm.c\<close>) and SR-IOV virtual
  functions (\<open>iov.c\<close>).
\<close>

section \<open>Bridge ports\<close>

definition bridge_path :: "string \<Rightarrow> string" where
  "bridge_path ifname = fit (33 + 16 + 1) (''/class/net/'' @ ifname @ ''/brport/bridge/ifindex'')"

definition bridge_scan :: "env \<Rightarrow> ifp \<Rightarrow> wact" where
  "bridge_scan env e = reading (\<lambda>w.
     if i_master_index (w_if w e) \<noteq> 0 then return_err 0
     else mem_call (sysfs_readfile (sysfs_of env w e) (bridge_path (i_name (w_if w e)))) (\<lambda>(len, ifindex).
       if len < 0 then (if len = - ENOENT then return_err 0 else return_err (- len))
       else (case ifindex of
           None \<Rightarrow> crash
         | Some s \<Rightarrow> assign (upd_if e (\<lambda>i. i\<lparr>i_master_index := word_of_int (atoi s)\<rparr>)))))"

definition h_bridge :: "env \<Rightarrow> if_handler" where
  "h_bridge env = no_handler\<lparr>h_scan := Some (bridge_scan env)\<rparr>"

section \<open>VLAN, MACsec, XFRM\<close>

definition IFLA_VLAN_ID :: nat where "IFLA_VLAN_ID = 1"
definition IFLA_VLAN_MAX :: nat where "IFLA_VLAN_MAX = 5"
definition IFLA_MACSEC_SCI :: nat where "IFLA_MACSEC_SCI = 1"
definition IFLA_MACSEC_MAX :: nat where "IFLA_MACSEC_MAX = 16"
definition IFLA_XFRM_IF_ID :: nat where "IFLA_XFRM_IF_ID = 2"
definition IFLA_XFRM_MAX :: nat where "IFLA_XFRM_MAX = 2"

text \<open>\<open>asprintf (&entry->edge_label, ...)\<close>.\<close>

definition set_edge_label :: "ifp \<Rightarrow> string \<Rightarrow> wact" where
  "set_edge_label e txt =
     if_alloc (assign (upd_if e (\<lambda>i. i\<lparr>i_edge_label := Some txt\<rparr>))) (return_err ENOMEM)"

definition vlan_netlink :: "ifp \<Rightarrow> attrs option \<Rightarrow> wact" where
  "vlan_netlink e linkinfo =
     (case info_data linkinfo of
        None \<Rightarrow> return_err ENOENT
      | Some data \<Rightarrow> with_attrs data IFLA_VLAN_MAX
          (\<lambda>vlanattr.
            (case vlanattr IFLA_VLAN_ID of
               None \<Rightarrow> return_err ENOENT
             | Some a \<Rightarrow> reading (\<lambda>w.
                 (case i_private (w_if w e) of
                    Ptr (VlanPriv _) \<Rightarrow>
                      andthen (assign (upd_if e (\<lambda>i. i\<lparr>i_private := Ptr (VlanPriv (ucast (nla_read_u16 a)))\<rparr>)))
                        (set_edge_label e (''tag '' @ dec (unat (nla_read_u16 a))))
                  | _ \<Rightarrow> crash))))
          (return_err ENOMEM))"

definition h_vlan :: if_handler where
  "h_vlan = no_handler\<lparr>h_driver := Some ''802.1Q VLAN Support'', h_private := Some (VlanPriv 0), h_netlink := Some vlan_netlink\<rparr>"

definition macsec_netlink :: "ifp \<Rightarrow> attrs option \<Rightarrow> wact" where
  "macsec_netlink e linkinfo =
     (case info_data linkinfo of
        None \<Rightarrow> return_err ENOENT
      | Some data \<Rightarrow> with_attrs data IFLA_MACSEC_MAX
          (\<lambda>macsecinfo.
            (case macsecinfo IFLA_MACSEC_SCI of
               None \<Rightarrow> return_err ENOENT
             | Some a \<Rightarrow> set_edge_label e (''sci '' @ hex (unat (nla_read_be64 a)))))
          (return_err ENOMEM))"

definition h_macsec :: if_handler where
  "h_macsec = no_handler\<lparr>h_driver := Some ''macsec'', h_netlink := Some macsec_netlink\<rparr>"

definition xfrm_netlink :: "ifp \<Rightarrow> attrs option \<Rightarrow> wact" where
  "xfrm_netlink e linkinfo =
     (case info_data linkinfo of
        None \<Rightarrow> return_err ENOENT
      | Some data \<Rightarrow> with_attrs data IFLA_XFRM_MAX
          (\<lambda>xfrminfo. andthen
            (case xfrminfo IFLA_XFRM_IF_ID of
               None \<Rightarrow> ok_act
             | Some a \<Rightarrow> ignoring (if_add_config e ''if_id'' (''0x'' @ hex (unat (nla_read_u32 a)))) ok_act)
            (return_err 0))
          (return_err ENOMEM))"

definition h_xfrm :: if_handler where
  "h_xfrm = no_handler\<lparr>h_driver := Some ''xfrm'', h_netlink := Some xfrm_netlink\<rparr>"

section \<open>Virtual functions\<close>

definition iov_scan :: "env \<Rightarrow> ifp \<Rightarrow> wact" where
  "iov_scan env e =
     if_alloc (reading (\<lambda>w.
       mem_call (sysfs_realpath (sysfs_of env w e) (''class/net/'' @ i_name (w_if w e) @ ''/device'')) (\<lambda>resolved.
         (case resolved of
            Inl err \<Rightarrow> if err = ENOENT then return_err 0 else return_err err
          | Inr p \<Rightarrow>
              andthen (assign (upd_if e (\<lambda>i. i\<lparr>i_pci_path := Some p\<rparr>)))
              (if_alloc
                (mem_call (sysfs_realpath (sysfs_of env w e) (''class/net/'' @ i_name (w_if w e) @ ''/device/physfn'')) (\<lambda>resolved.
                  (case resolved of
                     Inl err \<Rightarrow> if err = ENOENT then return_err 0 else return_err err
                   | Inr p \<Rightarrow> andthen (assign (upd_if e (\<lambda>i. i\<lparr>i_pci_physfn_path := Some p\<rparr>))) (return_err 0))))
                (return_err ENOMEM))))))
       (return_err ENOMEM)"

definition match_physfn :: "world \<Rightarrow> string \<Rightarrow> match_callback" where
  "match_physfn w path physfn = Some (if i_pci_path (w_if w physfn) = Some path then 1 else 0)"

definition iov_post :: "ifp \<Rightarrow> wact" where
  "iov_post e = reading (\<lambda>w.
     (case i_pci_physfn_path (w_if w e) of
        None \<Rightarrow> return_err 0
      | Some path \<Rightarrow>
          if i_physfn (w_if w e) \<noteq> None then return_err 0
          else (case match_if w (match_physfn w path)
                    (match_init\<lparr>md_mode := MM_FIRST, md_netns_list := Some (w_list w), md_exclude := Some e\<rparr>) of
              None \<Rightarrow> crash
            | Some (err, d) \<Rightarrow>
                if err \<noteq> 0 then return_err err
                else andthen (assign (upd_if e (\<lambda>i. i\<lparr>i_physfn := match_found d\<rparr>)))
                  (if match_found d = None then if_add_warning e ''failed to find the iov physfn'' else return_err 0))))"

text \<open>\<open>iov_cleanup\<close> frees both paths.\<close>

definition iov_cleanup :: "ifp \<Rightarrow> wact" where
  "iov_cleanup e = assign (upd_if e (\<lambda>i. i\<lparr>i_pci_path := None, i_pci_physfn_path := None\<rparr>))"

definition h_iov :: "env \<Rightarrow> if_handler" where
  "h_iov env = no_handler\<lparr>h_scan := Some (iov_scan env), h_post := Some iov_post, h_cleanup := Some iov_cleanup\<rparr>"

section \<open>The relations between interfaces are kept\<close>

lemma keeps_set_edge_label [keeps_intros]:
  assumes P: "on_links P"
  shows "keeps P (set_edge_label e txt)"
  unfolding set_edge_label_def
  by (intro keeps_if_alloc keeps_setting keeps_return_err on_links_mem [OF P] P) (simp_all add: if_links_def)

lemma keeps_devices:
  assumes P: "on_links P"
  shows "keeps P (bridge_scan env e)" "keeps P (vlan_netlink e li)" "keeps P (macsec_netlink e li)"
    "keeps P (xfrm_netlink e li)" "keeps P (iov_scan env e)" "keeps P (iov_cleanup e)"
proof -
  have set: "keeps P (assign (upd_if e f))" if "\<And>i. if_links (f i) = if_links i" for f
    by (rule keeps_setting [OF P that])
  show "keeps P (bridge_scan env e)"
    unfolding bridge_scan_def
    by (intro keeps_reading keeps_if keeps_return_err keeps_mem_call on_links_mem [OF P])
      (auto split: prod.splits option.splits intro!: keeps_intros set simp: if_links_def)
  show "keeps P (vlan_netlink e li)"
    unfolding vlan_netlink_def
    by (intro keeps_intros keeps_reading P)
      (auto split: cptr.splits hpriv.splits intro!: keeps_intros set P simp: if_links_def)
  show "keeps P (macsec_netlink e li)"
    unfolding macsec_netlink_def by (intro keeps_intros P)
  show "keeps P (xfrm_netlink e li)"
    unfolding xfrm_netlink_def by (intro keeps_intros P)
  show "keeps P (iov_scan env e)"
    unfolding iov_scan_def
    by (intro keeps_if_alloc keeps_reading keeps_mem_call on_links_mem [OF P] keeps_return_err)
      (auto split: sum.splits intro!: keeps_if_alloc keeps_intros set on_links_mem [OF P] simp: if_links_def)
  show "keeps P (iov_cleanup e)"
    unfolding iov_cleanup_def by (rule keeps_setting [OF P]) (simp add: if_links_def)
qed

text \<open>The physical function that is found is a listed interface.\<close>

context relating begin

lemma iov_post_keeps: "e \<in> A \<Longrightarrow> keeps P (iov_post e)"
  unfolding iov_post_def
  by (rule keeps_reading_in)
    (auto split: option.splits intro!: keeps_intros physfn_keeps links_only dest: found_in simp: match_init_def elem_set)

end

section \<open>Properties\<close>

lemma dec_digits: "list_all is_digit (dec n)"
  by (simp add: dec_def radix10_digits)

lemma takeWhile_all: "list_all P xs \<Longrightarrow> takeWhile P xs = xs"
  by (induction xs) auto

lemma digit_not_special: "is_digit c \<Longrightarrow> \<not> is_space c \<and> c \<noteq> CHR ''-'' \<and> c \<noteq> CHR ''+''"
  by (auto simp: is_digit_def is_space_def)

lemma atoi_dec: "atoi (dec n) = int n"
proof -
  obtain c cs where d: "dec n = c # cs" by (cases "dec n") auto
  with dec_digits [of n] have c: "is_digit c" and all: "list_all is_digit (c # cs)" by simp_all
  from digit_not_special [OF c] have "atoi (dec n) = int (read_dec 0 (takeWhile is_digit (c # cs)))"
    by (simp add: atoi_def d)
  also have "\<dots> = int (read_dec 0 (dec n))" by (simp only: takeWhile_all [OF all] d)
  finally show ?thesis by (simp add: dec_def read_radix10)
qed

lemma bridge_path_fits: "length ifname \<le> 15 \<Longrightarrow> bridge_path ifname = ''/class/net/'' @ ifname @ ''/brport/bridge/ifindex''"
  by (simp add: bridge_path_def fit_def)

text \<open>
  For an interface without master index whose name is within the kernel's limit,
  \<open>bridge_scan\<close> asks for the uncut path of the port's bridge and, when the file holds an
  interface index and a newline, stores exactly that index as master index.
\<close>

lemma bridge_scan_reads_index:
  assumes "i_master_index (w_if w e) = 0" and "length (i_name (w_if w e)) \<le> 15" and "w_mem w = []"
    and "env_sysfs env (i_ns (w_if w e)) = fs" and "path = sf_mountpoint fs @ ''//class/net/'' @ i_name (w_if w e) @ ''/brport/bridge/ifindex''"
    and "sf_open fs path = 0" and "sf_read fs path = Inr (dec (unat (n :: u32)) @ [CHR 0x0A])" and "12 \<le> sf_page_size fs"
  shows "bridge_scan env e w = Some (0, upd_if e (\<lambda>i. i\<lparr>i_master_index := n\<rparr>) w)"
proof -
  have p: "sf_mountpoint fs @ CHR ''/'' # bridge_path (i_name (w_if w e)) = path"
    by (simp add: bridge_path_fits [OF assms(2)] assms(5))
  have "length (dec (unat n) @ [CHR 0x0A]) \<le> sf_page_size fs" using length_dec_u32 [of n] assms(8) by simp
  then have "sysfs_readfile fs (bridge_path (i_name (w_if w e))) [] = ((int (length (dec (unat n)) + 1), Some (dec (unat n))), [])"
    by (simp add: sysfs_readfile_def p assms(6,7) Let_def butlast_append)
  moreover have "w\<lparr>w_mem := []\<rparr> = w" using assms(3) by simp
  ultimately show ?thesis
    using assms(1,3) by (simp add: bridge_scan_def reading_def mem_call_def sysfs_of_def assms(4) assign_def atoi_dec)
qed

definition example_sysfs :: sysfs where
  "example_sysfs = \<lparr>sf_mountpoint = ''/tmp/sys'', sf_page_size = 4096, sf_open = (\<lambda>_. 0),
     sf_read = (\<lambda>_. Inr (dec 7 @ [CHR 0x0A])), sf_errno = (\<lambda>_. 0), sf_realpath = (\<lambda>_. Inl ENOENT)\<rparr>"

definition example_env :: env where
  "example_env = \<lparr>env_ntop = (\<lambda>_ _. Inr ''10.0.0.1''), env_pton = (\<lambda>_ _. None), env_sysfs = (\<lambda>_. example_sysfs),
     env_ethtool = (\<lambda>_. \<lparr>et_drvinfo = (\<lambda>_. Inl 95), et_strings = (\<lambda>_ _. Inl 95), et_stats = (\<lambda>_ _. Inl 95)\<rparr>)\<rparr>"

text \<open>
  For a virtual function whose physical function is not known yet, \<open>iov_post\<close> (with
  enough memory) succeeds and records the first other listed interface that has the PCI path
  of the physical function, or NULL with one more warning when there is none.
\<close>

lemma iov_post_physfn:
  assumes "i_pci_physfn_path (w_if w e) = Some path" and "i_physfn (w_if w e) = None" and "w_mem w = []"
  shows "\<exists>v. iov_post e w = Some (0, v) \<and>
    i_physfn (w_if v e) = find (\<lambda>x. i_pci_path (w_if w x) = Some path) (candidates (Some e) (all_ifs w)) \<and>
    i_warnings (w_if v e) = i_warnings (w_if w e) + (if i_physfn (w_if v e) = None then 1 else 0)"
proof -
  let ?d = "match_init\<lparr>md_mode := MM_FIRST, md_netns_list := Some (w_list w), md_exclude := Some e\<rparr>"
  from match_if_first_result [of w "w_list w" "match_physfn w path" "\<lambda>x. i_pci_path (w_if w x) = Some path" "Some e"]
  obtain d' where m: "match_if w (match_physfn w path) ?d = Some (0, d')"
      "match_found d' = find (\<lambda>x. i_pci_path (w_if w x) = Some path) (candidates (Some e) (all_ifs w))"
    by (auto simp: match_physfn_def all_ifs_def)
  show ?thesis
  proof (cases "match_found d'")
    case None
    let ?w = "upd_if e (\<lambda>i. i\<lparr>i_physfn := None\<rparr>) w"
    have "\<exists>v. if_add_warning e ''failed to find the iov physfn'' ?w = Some (0, v) \<and> i_physfn (w_if v e) = None \<and>
        i_warnings (w_if v e) = i_warnings (w_if w e) + 1"
      using assms(3) by (simp add: if_add_warning_def act_defs if_alloc_def mem_call_def label_add_def Let_def)
    with m None assms(1,2) show ?thesis
      by (auto simp: iov_post_def reading_def andthen_def assign_def)
  next
    case (Some x)
    have "find (\<lambda>x. i_pci_path (w_if w x) = Some path) (candidates (Some e) (all_ifs w)) = Some x"
      using m(2) Some by simp
    moreover have "iov_post e w = Some (0, upd_if e (\<lambda>i. i\<lparr>i_physfn := Some x\<rparr>) w)"
      using m(1) assms(1,2) Some by (simp add: iov_post_def reading_def andthen_def assign_def return_err_def)
    ultimately show ?thesis by simp
  qed
qed

end
