(* ===== verification/Veth.thy ===== *)
theory Veth
  imports Handler
begin

text \<open>
  Virtual Ethernet pairs (\<open>handlers/veth.c\<close>): the peer index from the link attributes or from
  the driver's statistics, and the search for the other end, which must point back.
\<close>

definition veth_scan :: "env \<Rightarrow> ifp \<Rightarrow> wact" where
  "veth_scan env e = reading (\<lambda>w.
     if i_link_index (w_if w e) \<noteq> 0 then
       andthen (assign (upd_if e (\<lambda>i. i\<lparr>i_peer_index := i_link_index i, i_peer_netnsid := i_link_netnsid i,
           i_link_index := 0, i_link_netnsid := -1\<rparr>))) (return_err 0)
     else mem_call (ethtool_veth_peer (ethtool_of env w e) (i_name (w_if w e)))
       (\<lambda>p. andthen (assign (upd_if e (\<lambda>i. i\<lparr>i_peer_index := p\<rparr>))) (return_err 0)))"

definition match_peer :: "world \<Rightarrow> ifp \<Rightarrow> match_callback" where
  "match_peer w link entry =
     (if i_index (w_if w entry) \<noteq> i_peer_index (w_if w link) \<or> i_peer_index (w_if w entry) \<noteq> i_index (w_if w link) then Some 0
      else (case i_driver (w_if w entry) of
          None \<Rightarrow> None
        | Some d \<Rightarrow>
            if d \<noteq> ''veth'' then Some 0
            else if i_peer (w_if w entry) \<noteq> None \<and> i_peer (w_if w entry) \<noteq> Some link then Some 0
            else if i_ns (w_if w entry) = i_ns (w_if w link) then Some 2
            else Some 1))"

definition veth_post :: "ifp \<Rightarrow> wact" where
  "veth_post e = reading (\<lambda>w.
     if i_peer (w_if w e) \<noteq> None then return_err 0
     else if i_peer_index (w_if w e) = 0 then return_err ENOENT
     else (case match_if w (match_peer w e) (match_init\<lparr>md_netns_list := Some (w_list w), md_exclude := Some e\<rparr>) of
         None \<Rightarrow> crash
       | Some (err, d) \<Rightarrow>
           if err \<noteq> 0 then return_err err
           else if match_ambiguous d then if_add_warning e ''failed to find the veth peer reliably''
           else if match_found d = None then if_add_warning e ''failed to find the veth peer''
           else ignoring (peer_set (Some e) (match_found d)) (return_err 0)))"

definition h_veth :: "env \<Rightarrow> if_handler" where
  "h_veth env = no_handler\<lparr>h_driver := Some ''veth'', h_scan := Some (veth_scan env), h_post := Some veth_post\<rparr>"

lemma keeps_veth_scan: "on_links P \<Longrightarrow> keeps P (veth_scan env e)"
  unfolding veth_scan_def
  by (intro keeps_reading keeps_if keeps_mem_call keeps_andthen keeps_return_err keeps_setting)
    (auto simp: if_links_def dest: on_links_mem)

text \<open>The peer that is found is a listed interface.\<close>

context relating begin

lemma veth_post_keeps: "e \<in> A \<Longrightarrow> keeps P (veth_post e)"
  unfolding veth_post_def
  by (rule keeps_reading_in)
    (auto split: option.splits intro!: keeps_intros peer_set_keeps links_only dest: found_in simp: match_init_def elem_set)

end

text \<open>The priority of a candidate end, when all drivers are known.\<close>

definition peer_prio :: "world \<Rightarrow> ifp \<Rightarrow> ifp \<Rightarrow> int" where
  "peer_prio w e x =
     (if i_index (w_if w x) = i_peer_index (w_if w e) \<and> i_peer_index (w_if w x) = i_index (w_if w e) \<and>
         i_driver (w_if w x) = Some ''veth'' \<and> (i_peer (w_if w x) = None \<or> i_peer (w_if w x) = Some e)
      then (if i_ns (w_if w x) = i_ns (w_if w e) then 2 else 1) else 0)"

lemma match_peer_prio: "i_driver (w_if w x) \<noteq> None \<Longrightarrow> match_peer w e x = Some (peer_prio w e x)"
  by (auto simp: match_peer_def peer_prio_def split: option.splits)

text \<open>The other end of a pair: the one best candidate, none when two are as good.\<close>

definition other_end :: "world \<Rightarrow> ifp \<Rightarrow> ifp option" where
  "other_end w e =
     (let es = candidates (Some e) (all_ifs w) in
      if several_best (peer_prio w e) es then None else best_match (peer_prio w e) es)"

text \<open>
  C19: \<open>veth_post\<close> of an interface with a peer index and no peer yet, with all drivers known
  and enough memory, succeeds: it pairs the interface with the other end, the one veth
  interface whose index and peer index mirror its own and that is free or already its peer,
  preferring its own name space; without such an interface, or with two as good, it changes
  no peer and adds one warning.
\<close>

theorem veth_post_pairs:
  assumes "i_peer (w_if w e) = None" and "i_peer_index (w_if w e) \<noteq> 0" and "peers_ok w" and "w_mem w = []"
    and "\<And>x. x \<in> set (all_ifs w) \<Longrightarrow> i_driver (w_if w x) \<noteq> None"
  shows "\<exists>v. veth_post e w = Some (0, v) \<and>
    (case other_end w e of
       Some p \<Rightarrow> i_peer (w_if v e) = Some p \<and> i_peer (w_if v p) = Some e \<and> i_warnings (w_if v e) = i_warnings (w_if w e)
     | None \<Rightarrow> (\<forall>x. i_peer (w_if v x) = i_peer (w_if w x)) \<and> i_warnings (w_if v e) = i_warnings (w_if w e) + 1)"
proof -
  let ?d = "match_init\<lparr>md_netns_list := Some (w_list w), md_exclude := Some e\<rparr>" and ?es = "candidates (Some e) (all_ifs w)"
  have d: "?d = match_init\<lparr>md_exclude := Some e, md_netns_list := Some (w_list w), md_ns := None\<rparr>"
    by (simp add: match_init_def)
  have sc: "scope w ?d = ?es" by (simp add: scope_def all_ifs_def)
  have cb: "match_peer w e x = Some (peer_prio w e x) \<and> 0 \<le> peer_prio w e x" if "x \<in> set ?es" for x
    using that assms(5) [of x] match_peer_prio by (auto simp: candidates_def peer_prio_def)
  obtain d' where m: "match_if w (match_peer w e) ?d = Some (0, d')"
      "match_found d' = best_match (peer_prio w e) ?es" "match_ambiguous d' = several_best (peer_prio w e) ?es"
    using match_if_result [OF _ d, of w "match_peer w e" "peer_prio w e"] cb unfolding sc by auto
  have warn: "\<exists>v. if_add_warning e t w = Some (0, v) \<and> (\<forall>x. i_peer (w_if v x) = i_peer (w_if w x)) \<and>
      i_warnings (w_if v e) = i_warnings (w_if w e) + 1" for t
    using assms(4) by (simp add: if_add_warning_def act_defs if_alloc_def mem_call_def label_add_def Let_def)
  show ?thesis
  proof (cases "other_end w e")
    case None
    with m warn assms(1,2) show ?thesis
      by (auto simp: veth_post_def reading_def other_end_def Let_def split: if_splits)
  next
    case (Some p)
    then have p: "best_match (peer_prio w e) ?es = Some p" "\<not> several_best (peer_prio w e) ?es"
      by (auto simp: other_end_def Let_def split: if_splits)
    then have ne: "p \<noteq> e" by (auto dest!: best_match_in simp: candidates_def)
    obtain v where v: "peer_set (Some e) (Some p) w = Some (0, v)"
      by (simp add: peer_set_def andthen_def assign_def)
    from peer_set_peered [OF assms(3) v] have "i_peer (w_if v x) = peered (Some e) (Some p) (\<lambda>x. i_peer (w_if w x)) x" for x by blast
    then have "i_peer (w_if v e) = Some p" "i_peer (w_if v p) = Some e" using ne by (simp_all add: peered_def)
    moreover have "i_warnings (w_if v e) = i_warnings (w_if w e)"
      using v by (auto simp: peer_set_def andthen_def assign_def peer_set_one_def Let_def split: option.splits)
    moreover have "veth_post e w = Some (0, v)"
      using m p assms(1,2) v by (simp add: veth_post_def reading_def ignoring_def return_err_def)
    ultimately show ?thesis using Some by auto
  qed
qed

definition example_veth :: world where
  "example_veth = example_world\<lparr>w_if := (\<lambda>e. if_entry0\<lparr>i_ns := e div 2, i_driver := Some ''veth'', i_index := of_nat e,
     i_peer_index := (if e = 0 then 3 else if e = 3 then 0 else 9)\<rparr>)\<rparr>"

theorem veth_post_pairs_witness:
  "\<exists>v. veth_post 0 example_veth = Some (0, v) \<and> i_peer (w_if v 3) = Some 0"
proof -
  have a: "all_ifs example_veth = [0, 1, 2, 3]" by (simp add: all_ifs_def example_veth_def example_world_def)
  have o: "other_end example_veth 0 = Some 3"
    unfolding other_end_def a
    by (simp add: best_match_def several_best_def peer_prio_def example_veth_def if_entry0_def)
  have "i_peer (w_if example_veth 0) = None" "i_peer_index (w_if example_veth 0) \<noteq> 0" "peers_ok example_veth"
    "w_mem example_veth = []" "\<And>x. i_driver (w_if example_veth x) \<noteq> None"
    by (simp_all add: example_veth_def example_world_def if_entry0_def peers_ok_def)
  from veth_post_pairs [OF this] o show ?thesis by auto
qed

end
