(* ===== verification/Encap.thy ===== *)
theory Encap
  imports Devices Tunnel
begin

text \<open>
  The tunnel drivers: GRE (\<open>handlers/gre.c\<close>), VTI (\<open>vti.c\<close>), IP over IP (\<open>ipxipy.c\<close>), VXLAN
  (\<open>vxlan.c\<close>) and GENEVE (\<open>geneve.c\<close>).  Their netlink callbacks allocate a private structure
  of their own and free it on errors, leaving \<open>handler_private\<close> pointing to it; the post
  callbacks link a tunnel to the interface that has its local address.
\<close>

unbundle bit_operations_syntax

definition IFLA_GRE_LINK :: nat where "IFLA_GRE_LINK = 1"
definition IFLA_GRE_IKEY :: nat where "IFLA_GRE_IKEY = 4"
definition IFLA_GRE_OKEY :: nat where "IFLA_GRE_OKEY = 5"
definition IFLA_GRE_LOCAL :: nat where "IFLA_GRE_LOCAL = 6"
definition IFLA_GRE_REMOTE :: nat where "IFLA_GRE_REMOTE = 7"
definition IFLA_GRE_MAX :: nat where "IFLA_GRE_MAX = 24"
definition IFLA_VTI_IKEY :: nat where "IFLA_VTI_IKEY = 2"
definition IFLA_VTI_OKEY :: nat where "IFLA_VTI_OKEY = 3"
definition IFLA_VTI_LOCAL :: nat where "IFLA_VTI_LOCAL = 4"
definition IFLA_VTI_REMOTE :: nat where "IFLA_VTI_REMOTE = 5"
definition IFLA_VTI_MAX :: nat where "IFLA_VTI_MAX = 6"
definition IFLA_IPTUN_LINK :: nat where "IFLA_IPTUN_LINK = 1"
definition IFLA_IPTUN_LOCAL :: nat where "IFLA_IPTUN_LOCAL = 2"
definition IFLA_IPTUN_REMOTE :: nat where "IFLA_IPTUN_REMOTE = 3"
definition IFLA_IPTUN_PROTO :: nat where "IFLA_IPTUN_PROTO = 9"
definition IFLA_IPTUN_MAX :: nat where "IFLA_IPTUN_MAX = 20"
definition IFLA_VXLAN_ID :: nat where "IFLA_VXLAN_ID = 1"
definition IFLA_VXLAN_GROUP :: nat where "IFLA_VXLAN_GROUP = 2"
definition IFLA_VXLAN_LOCAL :: nat where "IFLA_VXLAN_LOCAL = 4"
definition IFLA_VXLAN_PORT :: nat where "IFLA_VXLAN_PORT = 15"
definition IFLA_VXLAN_GROUP6 :: nat where "IFLA_VXLAN_GROUP6 = 16"
definition IFLA_VXLAN_LOCAL6 :: nat where "IFLA_VXLAN_LOCAL6 = 17"
definition IFLA_VXLAN_COLLECT_METADATA :: nat where "IFLA_VXLAN_COLLECT_METADATA = 25"
definition IFLA_VXLAN_MAX :: nat where "IFLA_VXLAN_MAX = 28"
definition IFLA_GENEVE_ID :: nat where "IFLA_GENEVE_ID = 1"
definition IFLA_GENEVE_REMOTE :: nat where "IFLA_GENEVE_REMOTE = 2"
definition IFLA_GENEVE_PORT :: nat where "IFLA_GENEVE_PORT = 5"
definition IFLA_GENEVE_COLLECT_METADATA :: nat where "IFLA_GENEVE_COLLECT_METADATA = 6"
definition IFLA_GENEVE_REMOTE6 :: nat where "IFLA_GENEVE_REMOTE6 = 7"
definition IFLA_GENEVE_MAX :: nat where "IFLA_GENEVE_MAX = 14"

section \<open>Shared shapes\<close>

definition set_private :: "ifp \<Rightarrow> hpriv cptr \<Rightarrow> wact" where
  "set_private e p = assign (upd_if e (\<lambda>i. i\<lparr>i_private := p\<rparr>))"

text \<open>
  \<open>goto err_priv\<close>: on an error of \<open>f\<close> the private structure is freed, \<open>entry->handler_private\<close>
  stays as it is and dangles.
\<close>

definition or_free_priv :: "ifp \<Rightarrow> wact \<Rightarrow> wact" where
  "or_free_priv e f w =
     (case f w of
        None \<Rightarrow> None
      | Some (err, w) \<Rightarrow> if err = 0 then Some (0, w) else Some (err, upd_if e (\<lambda>i. i\<lparr>i_private := BadPtr\<rparr>) w))"

definition opt_attr :: "nlattr option \<Rightarrow> (nlattr \<Rightarrow> wact) \<Rightarrow> wact" where
  "opt_attr a f = (case a of None \<Rightarrow> ok_act | Some a \<Rightarrow> f a)"

text \<open>\<open>addr_init\<close> of an address structure, then \<open>k\<close> on it.\<close>

definition read_addr :: "env \<Rightarrow> int \<Rightarrow> int \<Rightarrow> nlattr \<Rightarrow> (int \<Rightarrow> addr \<Rightarrow> wact) \<Rightarrow> wact" where
  "read_addr env family prefixlen a k =
     mem_call (\<lambda>m. let (err, d, m) = addr_init (env_ntop env) addr0 family prefixlen (nla_read a) m in ((err, d), m))
       (\<lambda>(err, d). k err d)"

text \<open>\<open>if (!addr_is_zero (&a)) if_add_config (entry, key, "%s", a.formatted)\<close>\<close>

definition config_addr :: "ifp \<Rightarrow> string \<Rightarrow> addr \<Rightarrow> wact" where
  "config_addr e key d =
     (case addr_is_zero d of
        None \<Rightarrow> crash
      | Some True \<Rightarrow> ok_act
      | Some False \<Rightarrow>
          (case deref (ad_formatted d) of None \<Rightarrow> crash | Some s \<Rightarrow> ignoring (if_add_config e key s) ok_act))"

definition remote_addr :: "env \<Rightarrow> int \<Rightarrow> ifp \<Rightarrow> string \<Rightarrow> nlattr \<Rightarrow> wact" where
  "remote_addr env family e key a =
     read_addr env family (-1) a (\<lambda>err d. if err \<noteq> 0 then return_err err else config_addr e key d)"

definition local_addr :: "env \<Rightarrow> int \<Rightarrow> ifp \<Rightarrow> nlattr \<Rightarrow> wact" where
  "local_addr env family e a =
     read_addr env family (-1) a (\<lambda>err d.
       andthen (set_private e (Ptr (TunPriv d)))
         (if err \<noteq> 0 then return_err err else config_addr e ''local'' d))"

definition config_num :: "ifp \<Rightarrow> string \<Rightarrow> nat \<Rightarrow> wact" where
  "config_num e key n = ignoring (if_add_config e key (dec n)) ok_act"

text \<open>\<open>calloc\<close> of the private structure into \<open>entry->handler_private\<close>; an older one is lost.\<close>

definition new_private :: "ifp \<Rightarrow> hpriv \<Rightarrow> wact \<Rightarrow> wact" where
  "new_private e p f = if_alloc (andthen (set_private e (Ptr p)) f) (return_err ENOMEM)"

definition unset_addr :: addr where
  "unset_addr = addr0\<lparr>ad_family := -1\<rparr>"

section \<open>GRE\<close>

definition gre_common_netlink :: "env \<Rightarrow> int \<Rightarrow> ifp \<Rightarrow> attrs option \<Rightarrow> wact" where
  "gre_common_netlink env family e linkinfo =
     (case info_data linkinfo of
        None \<Rightarrow> return_err ENOENT
      | Some data \<Rightarrow> new_private e (TunPriv addr0) (or_free_priv e (with_attrs data IFLA_GRE_MAX
          (\<lambda>greinfo.
            andthen (set_private e (Ptr (TunPriv unset_addr)))
           (andthen (opt_attr (greinfo IFLA_GRE_LOCAL) (local_addr env family e))
           (andthen (opt_attr (greinfo IFLA_GRE_REMOTE) (remote_addr env family e ''remote''))
           (andthen (opt_attr (greinfo IFLA_GRE_LINK) (\<lambda>a. assign (upd_if e (\<lambda>i. i\<lparr>i_link_index := ucast (nla_read_u8 a)\<rparr>))))
           (andthen (opt_attr (greinfo IFLA_GRE_IKEY) (\<lambda>a. if nla_read_u32 a \<noteq> 0 then config_num e ''ikey'' (unat (ntohl (nla_read_u32 a))) else ok_act))
           (andthen (opt_attr (greinfo IFLA_GRE_OKEY) (\<lambda>a. if nla_read_u32 a \<noteq> 0 then config_num e ''okey'' (unat (ntohl (nla_read_u32 a))) else ok_act))
             (return_err 0)))))))
          (return_err ENOMEM))))"

definition gre_netlink :: "env \<Rightarrow> ifp \<Rightarrow> attrs option \<Rightarrow> wact" where
  "gre_netlink env = gre_common_netlink env AF_INET"

definition gre6_netlink :: "env \<Rightarrow> ifp \<Rightarrow> attrs option \<Rightarrow> wact" where
  "gre6_netlink env = gre_common_netlink env AF_INET6"

text \<open>The end of the post callbacks: link the tunnel to the interface that was found.\<close>

definition link_to :: "ifp \<Rightarrow> ifp option option \<Rightarrow> wact" where
  "link_to e found =
     (case found of
        None \<Rightarrow> crash
      | Some None \<Rightarrow> ok_act
      | Some (Some ife) \<Rightarrow>
          ignoring (link_set (Some ife) (Some e))
            (assign (upd_if e (\<lambda>i. i\<lparr>i_flags := i_flags i OR IF_LINK_WEAK\<rparr>))))"

definition tunnel_ns :: "if_entry \<Rightarrow> nsp" where
  "tunnel_ns i = (case i_link_net i of Some n \<Rightarrow> n | None \<Rightarrow> i_ns i)"

definition gre_post :: "ifp \<Rightarrow> wact" where
  "gre_post e = reading (\<lambda>w.
     (case i_private (w_if w e) of
        Ptr (TunPriv a) \<Rightarrow>
          andthen (if ad_family a \<ge> 0 then link_to e (tunnel_find_addr w (tunnel_ns (w_if w e)) a) else ok_act)
            (return_err 0)
      | _ \<Rightarrow> crash))"

definition h_gre :: "env \<Rightarrow> if_handler list" where
  "h_gre env =
     map (\<lambda>d. no_handler\<lparr>h_driver := Some d, h_private := Some (TunPriv addr0), h_netlink := Some (gre_netlink env), h_post := Some gre_post\<rparr>)
       [''gre'', ''gretap'', ''erspan''] @
     map (\<lambda>d. no_handler\<lparr>h_driver := Some d, h_private := Some (TunPriv addr0), h_netlink := Some (gre6_netlink env), h_post := Some gre_post\<rparr>)
       [''ip6gre'', ''ip6gretap'', ''ip6erspan'']"

section \<open>VTI\<close>

definition vti_netlink :: "env \<Rightarrow> int \<Rightarrow> ifp \<Rightarrow> attrs option \<Rightarrow> wact" where
  "vti_netlink env family e linkinfo =
     (case info_data linkinfo of
        None \<Rightarrow> return_err ENOENT
      | Some data \<Rightarrow> new_private e (TunPriv addr0) (or_free_priv e (with_attrs data IFLA_VTI_MAX
          (\<lambda>vtiinfo.
            andthen (opt_attr (vtiinfo IFLA_VTI_REMOTE) (remote_addr env family e ''remote''))
           (andthen (set_private e (Ptr (TunPriv unset_addr)))
           (andthen (opt_attr (vtiinfo IFLA_VTI_LOCAL) (local_addr env family e))
           (andthen (opt_attr (vtiinfo IFLA_VTI_IKEY) (\<lambda>a. if nla_read_be32 a \<noteq> 0 then config_num e ''ikey'' (unat (nla_read_be32 a)) else ok_act))
           (andthen (opt_attr (vtiinfo IFLA_VTI_OKEY) (\<lambda>a. if nla_read_be32 a \<noteq> 0 then config_num e ''okey'' (unat (nla_read_be32 a)) else ok_act))
             (return_err 0))))))
          (return_err ENOMEM))))"

definition vti4_netlink :: "env \<Rightarrow> ifp \<Rightarrow> attrs option \<Rightarrow> wact" where
  "vti4_netlink env = vti_netlink env AF_INET"

definition vti6_netlink :: "env \<Rightarrow> ifp \<Rightarrow> attrs option \<Rightarrow> wact" where
  "vti6_netlink env = vti_netlink env AF_INET6"

definition vti_post :: "ifp \<Rightarrow> wact" where
  "vti_post e = reading (\<lambda>w.
     (case i_private (w_if w e) of
        Ptr (TunPriv a) \<Rightarrow>
          andthen (if ad_family a \<ge> 0 then link_to e (tunnel_find_addr w (tunnel_ns (w_if w e)) a) else ok_act)
            (return_err 0)
      | _ \<Rightarrow> crash))"

text \<open>The VTI handlers do not set \<open>private_size\<close>.\<close>

definition h_vti :: "env \<Rightarrow> if_handler list" where
  "h_vti env =
     [no_handler\<lparr>h_driver := Some ''vti'', h_netlink := Some (vti4_netlink env), h_post := Some vti_post\<rparr>,
      no_handler\<lparr>h_driver := Some ''vti6'', h_netlink := Some (vti6_netlink env), h_post := Some vti_post\<rparr>]"

section \<open>IP over IP\<close>

definition IPPROTO_IPIP :: u8 where "IPPROTO_IPIP = 4"
definition IPPROTO_IPV6 :: u8 where "IPPROTO_IPV6 = 41"

definition ipxipy_netlink :: "env \<Rightarrow> int \<Rightarrow> ifp \<Rightarrow> attrs option \<Rightarrow> wact" where
  "ipxipy_netlink env family e linkinfo =
     (case info_data linkinfo of
        None \<Rightarrow> return_err ENOENT
      | Some data \<Rightarrow> new_private e (TunPriv addr0) (or_free_priv e (with_attrs data IFLA_IPTUN_MAX
          (\<lambda>info.
            andthen (set_private e (Ptr (TunPriv unset_addr)))
           (andthen (opt_attr (info IFLA_IPTUN_LOCAL) (local_addr env family e))
           (andthen (opt_attr (info IFLA_IPTUN_REMOTE) (remote_addr env family e ''remote''))
           (andthen (opt_attr (info IFLA_IPTUN_LINK) (\<lambda>a. assign (upd_if e (\<lambda>i. i\<lparr>i_link_index := ucast (nla_read_u8 a)\<rparr>))))
           (andthen (opt_attr (if family = AF_INET6 then info IFLA_IPTUN_PROTO else None)
              (\<lambda>a. if nla_read_u8 a = IPPROTO_IPIP then ignoring (if_add_config e ''proto'' ''ipip6'') ok_act
                   else if nla_read_u8 a = IPPROTO_IPV6 then ignoring (if_add_config e ''proto'' ''ip6ip6'') ok_act
                   else if nla_read_u8 a = 0 then ignoring (if_add_config e ''proto'' ''any'') ok_act
                   else ok_act))
             (return_err 0))))))
          (return_err ENOMEM))))"

definition ipip_netlink :: "env \<Rightarrow> ifp \<Rightarrow> attrs option \<Rightarrow> wact" where
  "ipip_netlink env = ipxipy_netlink env AF_INET"

definition sit_netlink :: "env \<Rightarrow> ifp \<Rightarrow> attrs option \<Rightarrow> wact" where
  "sit_netlink env = ipxipy_netlink env AF_INET"

definition ipxip6_netlink :: "env \<Rightarrow> ifp \<Rightarrow> attrs option \<Rightarrow> wact" where
  "ipxip6_netlink env = ipxipy_netlink env AF_INET6"

definition ipxipy_post :: "ifp \<Rightarrow> wact" where
  "ipxipy_post e = reading (\<lambda>w.
     (case i_private (w_if w e) of
        Ptr (TunPriv a) \<Rightarrow>
          andthen (if ad_family a \<ge> 0 then link_to e (tunnel_find_addr w (tunnel_ns (w_if w e)) a) else ok_act)
            (return_err 0)
      | _ \<Rightarrow> crash))"

definition h_ipxipy :: "env \<Rightarrow> if_handler list" where
  "h_ipxipy env =
     map (\<lambda>(d, f). no_handler\<lparr>h_driver := Some d, h_private := Some (TunPriv addr0), h_netlink := Some f, h_post := Some ipxipy_post\<rparr>)
       [(''ipip'', ipip_netlink env), (''sit'', sit_netlink env), (''ip6tnl'', ipxip6_netlink env)]"

section \<open>VXLAN\<close>

definition VXLAN_DEFAULT_PORT :: u16 where "VXLAN_DEFAULT_PORT = 4789"
definition VXLAN_COLLECT_METADATA :: int where "VXLAN_COLLECT_METADATA = 1"

definition vxlan_priv0 :: vxlan_priv where
  "vxlan_priv0 = \<lparr>vx_local = None, vx_group = None, vx_flags = 0\<rparr>"

definition with_vxlan :: "ifp \<Rightarrow> (vxlan_priv \<Rightarrow> wact) \<Rightarrow> wact" where
  "with_vxlan e f = reading (\<lambda>w. case i_private (w_if w e) of Ptr (VxlanPriv p) \<Rightarrow> f p | _ \<Rightarrow> crash)"

text \<open>
  \<open>vxlan_fill_addr\<close> on the member of the private structure that \<open>get\<close> and \<open>put\<close> access;
  an attribute that is missing or a member that is already set is skipped.
\<close>

definition vxlan_fill_addr ::
    "env \<Rightarrow> ifp \<Rightarrow> (vxlan_priv \<Rightarrow> addr option) \<Rightarrow> (addr option \<Rightarrow> vxlan_priv \<Rightarrow> vxlan_priv) \<Rightarrow> int \<Rightarrow> nlattr option \<Rightarrow> wact" where
  "vxlan_fill_addr env e get put ai_family attr = with_vxlan e (\<lambda>p.
     (case attr of
        None \<Rightarrow> return_err 0
      | Some a \<Rightarrow>
          if get p \<noteq> None then return_err 0
          else if_alloc
            (read_addr env ai_family (addr_max_prefix_len ai_family) a (\<lambda>err d.
               if err \<noteq> 0 then andthen (set_private e (Ptr (VxlanPriv (put None p)))) (return_err err)
               else andthen (set_private e (Ptr (VxlanPriv (put (Some d) p)))) (return_err 0)))
            (andthen (set_private e (Ptr (VxlanPriv (put None p)))) (return_err ENOMEM))))"

definition put_local :: "addr option \<Rightarrow> vxlan_priv \<Rightarrow> vxlan_priv" where
  "put_local a p = p\<lparr>vx_local := a\<rparr>"

definition put_group :: "addr option \<Rightarrow> vxlan_priv \<Rightarrow> vxlan_priv" where
  "put_group a p = p\<lparr>vx_group := a\<rparr>"

definition vxlan_netlink :: "env \<Rightarrow> ifp \<Rightarrow> attrs option \<Rightarrow> wact" where
  "vxlan_netlink env e linkinfo =
     new_private e (VxlanPriv vxlan_priv0) (or_free_priv e
       (case info_data linkinfo of
          None \<Rightarrow> return_err ENOENT
        | Some data \<Rightarrow> with_attrs data IFLA_VXLAN_MAX
            (\<lambda>vxlaninfo.
              andthen (opt_attr (vxlaninfo IFLA_VXLAN_ID) (\<lambda>a. config_num e ''VNI'' (unat (nla_read_u32 a))))
             (andthen (opt_attr (vxlaninfo IFLA_VXLAN_PORT)
                (\<lambda>a. if nla_read_be16 a \<noteq> VXLAN_DEFAULT_PORT then config_num e ''port'' (unat (nla_read_be16 a)) else ok_act))
             (andthen (opt_attr (vxlaninfo IFLA_VXLAN_COLLECT_METADATA)
                (\<lambda>a. with_vxlan e (\<lambda>p. set_private e (Ptr (VxlanPriv (p\<lparr>vx_flags :=
                   vx_flags p OR (if nla_read_u8 a \<noteq> 0 then VXLAN_COLLECT_METADATA else 0)\<rparr>))))))
             (andthen (with_vxlan e (\<lambda>p.
                if vx_flags p AND VXLAN_COLLECT_METADATA \<noteq> 0 then ignoring (if_add_config e ''mode'' ''external'') ok_act
                else
                  andthen (vxlan_fill_addr env e vx_group put_group AF_INET (vxlaninfo IFLA_VXLAN_GROUP))
                 (andthen (vxlan_fill_addr env e vx_group put_group AF_INET6 (vxlaninfo IFLA_VXLAN_GROUP6))
                 (andthen (vxlan_fill_addr env e vx_local put_local AF_INET (vxlaninfo IFLA_VXLAN_LOCAL))
                          (vxlan_fill_addr env e vx_local put_local AF_INET6 (vxlaninfo IFLA_VXLAN_LOCAL6))))))
               (return_err 0)))))
            (return_err ENOMEM)))"

definition config_text :: "ifp \<Rightarrow> string \<Rightarrow> addr \<Rightarrow> wact" where
  "config_text e key a = (case deref (ad_formatted a) of None \<Rightarrow> crash | Some s \<Rightarrow> ignoring (if_add_config e key s) ok_act)"

definition vxlan_post :: "ifp \<Rightarrow> wact" where
  "vxlan_post e = with_vxlan e (\<lambda>p.
     andthen
       (case vx_local p of
          None \<Rightarrow> ok_act
        | Some a \<Rightarrow>
            andthen (config_text e ''from'' a)
              (reading (\<lambda>w. link_to e (tunnel_find_addr w (tunnel_ns (w_if w e)) a))))
     (andthen
       (case vx_group p of None \<Rightarrow> ok_act | Some a \<Rightarrow> config_text e ''to'' a)
       (return_err 0)))"

definition h_vxlan :: "env \<Rightarrow> if_handler" where
  "h_vxlan env = no_handler\<lparr>h_driver := Some ''vxlan'', h_private := Some (VxlanPriv vxlan_priv0),
     h_netlink := Some (vxlan_netlink env), h_post := Some vxlan_post\<rparr>"

section \<open>GENEVE\<close>

definition GENEVE_DEFAULT_PORT :: u16 where "GENEVE_DEFAULT_PORT = 6081"

definition geneve_netlink :: "env \<Rightarrow> ifp \<Rightarrow> attrs option \<Rightarrow> wact" where
  "geneve_netlink env e linkinfo =
     new_private e (GenevePriv 0) (or_free_priv e
       (case info_data linkinfo of
          None \<Rightarrow> return_err ENOENT
        | Some data \<Rightarrow> with_attrs data IFLA_GENEVE_MAX
            (\<lambda>geneveinfo.
              andthen (opt_attr (geneveinfo IFLA_GENEVE_ID) (\<lambda>a. config_num e ''VNI'' (unat (nla_read_u32 a))))
             (andthen (opt_attr (geneveinfo IFLA_GENEVE_PORT)
                (\<lambda>a. if nla_read_be16 a \<noteq> GENEVE_DEFAULT_PORT then config_num e ''port'' (unat (nla_read_be16 a)) else ok_act))
             (andthen (opt_attr (geneveinfo IFLA_GENEVE_REMOTE) (remote_addr env AF_INET e ''remote''))
             (andthen (opt_attr (geneveinfo IFLA_GENEVE_REMOTE6) (remote_addr env AF_INET6 e ''remote6''))
             (andthen (opt_attr (geneveinfo IFLA_GENEVE_COLLECT_METADATA) (\<lambda>_. ignoring (if_add_config e ''mode'' ''external'') ok_act))
               (return_err 0))))))
            (return_err ENOMEM)))"

definition h_geneve :: "env \<Rightarrow> if_handler" where
  "h_geneve env = no_handler\<lparr>h_driver := Some ''geneve'', h_private := Some (GenevePriv 0), h_netlink := Some (geneve_netlink env)\<rparr>"

section \<open>The relations between interfaces are kept\<close>

lemma keeps_set_private [keeps_intros]:
  assumes P: "on_links P"
  shows "keeps P (set_private e p)"
  unfolding set_private_def by (rule keeps_setting [OF P]) (simp add: if_links_def)

lemma keeps_or_free_priv [keeps_intros]:
  assumes P: "on_links P" and f: "keeps P f"
  shows "keeps P (or_free_priv e f)"
proof (rule keepsI)
  fix w err v
  assume w: "P w" and r: "or_free_priv e f w = Some (err, v)"
  then obtain err1 u where u: "f w = Some (err1, u)" by (auto simp: or_free_priv_def split: option.splits)
  from keepsD [OF f w u] have p: "P u" .
  have "P (upd_if e (\<lambda>i. i\<lparr>i_private := BadPtr\<rparr>) u)"
    by (rule on_links_upd_if [OF P]) (simp_all add: if_links_def p)
  with r u p show "P v" by (auto simp: or_free_priv_def split: if_splits)
qed

lemma keeps_opt_attr [keeps_intros]: "(\<And>a. keeps P (f a)) \<Longrightarrow> keeps P (opt_attr a f)"
  unfolding opt_attr_def by (intro keeps_intros)

lemma keeps_read_addr [keeps_intros]:
  assumes P: "on_links P" and k: "\<And>err d. keeps P (k err d)"
  shows "keeps P (read_addr env family prefixlen a k)"
  unfolding read_addr_def by (intro keeps_mem_call on_links_mem [OF P]) (auto intro: k split: prod.splits)

lemma keeps_config_addr [keeps_intros]: "on_links P \<Longrightarrow> keeps P (config_addr e key d)"
  unfolding config_addr_def by (auto split: option.splits bool.splits intro!: keeps_intros)

lemma keeps_addrs [keeps_intros]:
  assumes P: "on_links P"
  shows "keeps P (remote_addr env family e key a)" "keeps P (local_addr env family e a)"
    "keeps P (config_num e key n)" "keeps P (config_text e key d)"
  unfolding remote_addr_def local_addr_def config_num_def config_text_def
  by (intro keeps_intros P)+

lemma keeps_new_private [keeps_intros]:
  assumes P: "on_links P" and f: "keeps P f"
  shows "keeps P (new_private e p f)"
  unfolding new_private_def by (intro keeps_if_alloc keeps_intros on_links_mem [OF P] P f)

lemma keeps_with_vxlan [keeps_intros]: "(\<And>p. keeps P (f p)) \<Longrightarrow> keeps P (with_vxlan e f)"
  unfolding with_vxlan_def by (rule keeps_reading) (auto split: cptr.splits hpriv.splits intro: keeps_crash)

lemma keeps_vxlan_fill [keeps_intros]:
  assumes P: "on_links P"
  shows "keeps P (vxlan_fill_addr env e get put ai_family attr)"
  unfolding vxlan_fill_addr_def
  by (intro keeps_with_vxlan keeps_option keeps_if keeps_if_alloc keeps_intros on_links_mem [OF P] P)

lemma keeps_link_index [keeps_intros]:
  assumes P: "on_links P"
  shows "keeps P (assign (upd_if e (\<lambda>i. i\<lparr>i_link_index := x\<rparr>)))"
  by (rule keeps_setting [OF P]) (simp add: if_links_def)

lemma keeps_tunnel_netlink:
  assumes P: "on_links P"
  shows "keeps P (gre_common_netlink env family e li)" "keeps P (vti_netlink env family e li)"
    "keeps P (ipxipy_netlink env family e li)" "keeps P (vxlan_netlink env e li)" "keeps P (geneve_netlink env e li)"
  unfolding gre_common_netlink_def vti_netlink_def ipxipy_netlink_def vxlan_netlink_def geneve_netlink_def
  by (intro keeps_intros P)+

text \<open>The post callbacks link listed interfaces.\<close>

context relating begin

lemma link_to_keeps: "e \<in> A \<Longrightarrow> (\<And>x. found = Some (Some x) \<Longrightarrow> x \<in> A) \<Longrightarrow> keeps P (link_to e found)"
  unfolding link_to_def
  by (auto split: option.splits intro!: keeps_intros keeps_setting links_only link_set_keeps simp: if_links_def)

lemma tunnel_in: "P w \<Longrightarrow> tunnel_find_addr w n a = Some (Some x) \<Longrightarrow> x \<in> A"
  using listed_in by (blast dest: tunnel_find_listed(2))

lemma tunnel_post_keeps:
  assumes "e \<in> A"
  shows "keeps P (gre_post e)" "keeps P (vti_post e)" "keeps P (ipxipy_post e)" "keeps P (vxlan_post e)"
  unfolding gre_post_def vti_post_def ipxipy_post_def vxlan_post_def
  by (intro keeps_reading_in keeps_with_vxlan;
      auto split: cptr.splits hpriv.splits intro!: keeps_intros keeps_reading_in links_only link_to_keeps assms dest: tunnel_in)+

end

section \<open>What a successful netlink callback leaves for the post callback\<close>

definition tun_ready :: "ifp \<Rightarrow> world \<Rightarrow> bool" where
  "tun_ready e w \<longleftrightarrow> (\<exists>a. i_private (w_if w e) = Ptr (TunPriv a) \<and> (0 \<le> ad_family a \<longrightarrow> (\<exists>raw. ad_raw a = Ptr raw)))"

lemma tun_ready_mem [simp]: "tun_ready e (w\<lparr>w_mem := m\<rparr>) = tun_ready e w"
  by (simp add: tun_ready_def)

lemma tun_ready_upd: "(\<And>i. i_private (f i) = i_private i) \<Longrightarrow> tun_ready e (upd_if d f w) = tun_ready e w"
  by (simp add: tun_ready_def)

lemma keeps_ready_set: "(\<And>i. i_private (f i) = i_private i) \<Longrightarrow> keeps (tun_ready e) (assign (upd_if d f))"
  by (rule keeps_assign) (simp add: tun_ready_upd)

lemma keeps_ready_prop: "keeps (tun_ready e) (if_add_prop type d key val)"
proof (rule keepsI)
  fix w err v
  assume "tun_ready e w" "if_add_prop type d key val w = Some (err, v)"
  with if_add_prop_total [of type d key val w] show "tun_ready e v" by (auto simp: tun_ready_upd)
qed

lemma keeps_ready_config: "keeps (tun_ready e) (if_add_config d key val)"
  by (simp add: if_add_config_def keeps_ready_prop)

lemma keeps_ready_config_num: "keeps (tun_ready e) (config_num d key n)"
  unfolding config_num_def by (intro keeps_ignoring keeps_ready_config keeps_ok)

lemma keeps_ready_config_addr: "keeps (tun_ready e) (config_addr d key a)"
  unfolding config_addr_def
  by (auto split: option.splits bool.splits intro!: keeps_ignoring keeps_ready_config keeps_ok keeps_crash)

lemma keeps_ready_remote: "keeps (tun_ready e) (remote_addr env family d key a)"
  unfolding remote_addr_def read_addr_def
  by (intro keeps_mem_call) (auto split: prod.splits intro!: keeps_return_err keeps_ready_config_addr)

lemma addr_init_raw:
  "addr_init ntop d family p raw m = (0, a, m') \<Longrightarrow> \<exists>r. ad_raw a = Ptr r"
  by (auto simp: addr_init_def Let_def ENOMEM_def split: prod.splits if_splits sum.splits)

lemma keeps0_ready_local: "keeps0 (tun_ready e) (local_addr env family e a)"
proof (rule keeps0I)
  fix w v
  assume r: "local_addr env family e a w = Some (0, v)"
  obtain err d m where i: "addr_init (env_ntop env) addr0 family (-1) (nla_read a) (w_mem w) = (err, d, m)"
    by (cases "addr_init (env_ntop env) addr0 family (-1) (nla_read a) (w_mem w)")
  let ?u = "upd_if e (\<lambda>i. i\<lparr>i_private := Ptr (TunPriv d)\<rparr>) (w\<lparr>w_mem := m\<rparr>)"
  from r i have e0: "err = 0" and c: "config_addr e ''local'' d ?u = Some (0, v)"
    by (auto simp: local_addr_def read_addr_def mem_call_def set_private_def andthen_def assign_def return_err_def split: if_splits)
  from i e0 addr_init_raw obtain r where "ad_raw d = Ptr r" by blast
  then have "tun_ready e ?u" by (simp add: tun_ready_def)
  from keepsD [OF keeps_ready_config_addr this c] show "tun_ready e v" .
qed

lemma keeps0_ready_opt: "(\<And>a. keeps0 (tun_ready e) (f a)) \<Longrightarrow> keeps0 (tun_ready e) (opt_attr a f)"
  unfolding opt_attr_def by (rule keeps0_option [OF keeps_keeps0 [OF keeps_ok]])

lemma makes0_ready_unset: "makes0 (tun_ready e) (set_private e (Ptr (TunPriv unset_addr)))"
  by (simp add: makes0_def set_private_def assign_def tun_ready_def unset_addr_def)

lemma makes0_with_attrs:
  "(\<And>tb. makes0 P (k tb)) \<Longrightarrow> makes0 P (with_attrs a mx k (return_err ENOMEM))"
  by (auto simp: makes0_def with_attrs_def mem_call_def return_err_def ENOMEM_def split: prod.splits option.splits)

lemma makes0_or_free: "makes0 P f \<Longrightarrow> makes0 P (or_free_priv e f)"
  by (auto simp: makes0_def or_free_priv_def split: option.splits if_splits)

lemma makes0_new_private:
  assumes "makes0 P f"
  shows "makes0 P (new_private e p f)"
  unfolding makes0_def
proof (intro allI impI)
  fix w v
  assume "new_private e p f w = Some (0, v)"
  then show "P v"
    using makes0D [OF assms]
    by (auto simp: new_private_def if_alloc_def return_err_def ENOMEM_def Let_def set_private_def assign_def andthen_def split: prod.splits if_splits)
qed

lemma makes0_no_data: "makes0 P (return_err ENOENT)"
  by (simp add: makes0_def return_err_def ENOENT_def)

lemmas ready_intros = makes0_no_data makes0_new_private makes0_or_free makes0_with_attrs
  keeps0_andthen keeps0_ready_opt keeps0_ready_local keeps_keeps0 keeps_ready_remote keeps_ready_set
  keeps_ready_config_num keeps_if keeps_ok keeps_return_err keeps_ignoring keeps_ready_config

lemma gre_makes_ready: "makes0 (tun_ready e) (gre_common_netlink env family e li)"
  unfolding gre_common_netlink_def
  by (cases "info_data li"; simp) (intro ready_intros makes0_now [OF makes0_ready_unset]; simp)+

lemma ipxipy_makes_ready: "makes0 (tun_ready e) (ipxipy_netlink env family e li)"
  unfolding ipxipy_netlink_def
  by (cases "info_data li"; simp) (intro ready_intros makes0_now [OF makes0_ready_unset]; simp)+

lemma vti_makes_ready: "makes0 (tun_ready e) (vti_netlink env family e li)"
  unfolding vti_netlink_def
  by (cases "info_data li"; simp) (intro ready_intros makes0_later makes0_now [OF makes0_ready_unset]; simp)+


lemma link_to_returns: "\<exists>u. link_to e (Some r) w = Some (0, u)"
  by (cases r) (simp_all add: link_to_def ok_act_def ignoring_def link_set_assign assign_def)

lemma ready_post:
  assumes "tun_ready e w" and "addrs_readable w (tunnel_ns (w_if w e))"
  shows "\<exists>u. gre_post e w = Some (0, u)" and "\<exists>u. vti_post e w = Some (0, u)" and "\<exists>u. ipxipy_post e w = Some (0, u)"
proof -
  from assms(1) obtain a where a: "i_private (w_if w e) = Ptr (TunPriv a)" "0 \<le> ad_family a \<Longrightarrow> \<exists>raw. ad_raw a = Ptr raw"
    by (auto simp: tun_ready_def)
  have f: "\<exists>r. tunnel_find_addr w (tunnel_ns (w_if w e)) a = Some r" if "0 \<le> ad_family a"
    using a(2) [OF that] tunnel_find_eq [OF assms(2)] by (auto simp: tunnel_find_addr_def)
  have l: "\<exists>u. andthen (if ad_family a \<ge> 0 then link_to e (tunnel_find_addr w (tunnel_ns (w_if w e)) a) else ok_act) (return_err 0) w = Some (0, u)"
  proof (cases "0 \<le> ad_family a")
    case True
    from f [OF True] obtain r where r: "tunnel_find_addr w (tunnel_ns (w_if w e)) a = Some r" by blast
    from link_to_returns [of e r w] r True show ?thesis by (auto simp: andthen_def return_err_def)
  qed (simp add: andthen_def ok_act_def return_err_def)
  show "\<exists>u. gre_post e w = Some (0, u)" using l a(1) by (simp add: gre_post_def reading_def)
  show "\<exists>u. vti_post e w = Some (0, u)" using l a(1) by (simp add: vti_post_def reading_def)
  show "\<exists>u. ipxipy_post e w = Some (0, u)" using l a(1) by (simp add: ipxipy_post_def reading_def)
qed

text \<open>
  C18: When a tunnel's netlink callback (GRE, VTI, IP over IP, any family) succeeds, the
  private structure it leaves is one the post callback can use: with the addresses of the
  name space readable, the post callback returns 0 and follows no NULL or dangling pointer.
\<close>

theorem tunnel_netlink_then_post:
  assumes "addrs_readable w (tunnel_ns (w_if w e))"
  shows "(gre_common_netlink env family e li u = Some (0, w) \<longrightarrow> (\<exists>v. gre_post e w = Some (0, v))) \<and>
    (vti_netlink env family e li u = Some (0, w) \<longrightarrow> (\<exists>v. vti_post e w = Some (0, v))) \<and>
    (ipxipy_netlink env family e li u = Some (0, w) \<longrightarrow> (\<exists>v. ipxipy_post e w = Some (0, v)))"
  using ready_post [OF makes0D [OF gre_makes_ready] assms, of env family li u]
    ready_post [OF makes0D [OF vti_makes_ready] assms, of env family li u]
    ready_post [OF makes0D [OF ipxipy_makes_ready] assms, of env family li u]
  by blast

definition no_attrs :: "attrs option" where
  "no_attrs = Some (Map.empty(IFLA_INFO_DATA \<mapsto> \<lparr>a_type = IFLA_INFO_DATA, a_data = []\<rparr>))"

definition gre_done :: world where
  "gre_done = upd_if 0 (\<lambda>i. i\<lparr>i_private := Ptr (TunPriv unset_addr)\<rparr>) example_world"

lemma gre_runs: "gre_common_netlink env family 0 no_attrs example_world = Some (0, gre_done)"
proof -
  have "for_each_nla_nested \<lparr>a_type = IFLA_INFO_DATA, a_data = []\<rparr> = []"
    by (simp add: for_each_nla_nested_def nla_read_def for_each_nla_buf.simps)
  then show ?thesis
    by (simp add: gre_common_netlink_def info_data_def no_attrs_def new_private_def if_alloc_def or_free_priv_def with_attrs_def
        mem_call_def nla_nested_attrs_def attr_table_def set_private_def opt_attr_def act_defs gre_done_def upd_if_def example_world_def)
qed

theorem tunnel_netlink_then_post_witness:
  "\<exists>v. gre_post 0 gre_done = Some (0, v)"
proof -
  have "addrs_readable gre_done (tunnel_ns (w_if gre_done 0))"
    by (simp add: addrs_readable_def gre_done_def example_world_def if_entry0_def)
  from tunnel_netlink_then_post [OF this] gre_runs show ?thesis by blast
qed

text \<open>
  C25: The post callback of a GRE, VTI or IP tunnel that has its local address links the tunnel
  weakly to the one interface that is up and has the address in the name space the tunnel's
  packets go to (its link name space when set, else its own), at the end of that interface's
  reverse list; without such an interface, or with several, nothing changes.
\<close>

theorem tunnel_post_links:
  assumes "i_private (w_if w e) = Ptr (TunPriv a)" and "ad_raw a = Ptr raw" and "0 \<le> ad_family a"
    and "addrs_readable w (tunnel_ns (w_if w e))"
  shows "\<exists>v. gre_post e w = Some (0, v) \<and> vti_post e w = Some (0, v) \<and> ipxipy_post e w = Some (0, v) \<and>
    (case only_one (filter (has_addr w (ad_family a) raw) (n_ifaces (w_ns w (tunnel_ns (w_if w e))))) of
       Some x \<Rightarrow> i_link (w_if v e) = Some x \<and> i_flags (w_if v e) = i_flags (w_if w e) OR IF_LINK_WEAK \<and>
         (i_link (w_if w e) \<noteq> Some x \<longrightarrow> i_rev_link (w_if v x) = i_rev_link (w_if w x) @ [e])
     | None \<Rightarrow> v = w)"
proof -
  let ?r = "only_one (filter (has_addr w (ad_family a) raw) (n_ifaces (w_ns w (tunnel_ns (w_if w e)))))"
  have f: "tunnel_find_addr w (tunnel_ns (w_if w e)) a = Some ?r"
    using tunnel_find_eq [OF assms(4)] by (simp add: tunnel_find_addr_def assms(2))
  have run: "gre_post e w = andthen (link_to e (Some ?r)) (return_err 0) w"
    "vti_post e w = andthen (link_to e (Some ?r)) (return_err 0) w" "ipxipy_post e w = andthen (link_to e (Some ?r)) (return_err 0) w"
    using assms(1,3) f by (simp_all add: gre_post_def vti_post_def ipxipy_post_def reading_def)
  show ?thesis
  proof (cases ?r)
    case None
    then show ?thesis by (simp add: run link_to_def andthen_def ok_act_def return_err_def)
  next
    case (Some x)
    let ?v = "upd_if e (\<lambda>i. i\<lparr>i_flags := i_flags i OR IF_LINK_WEAK\<rparr>) (set_link (Some x) e w)"
    have "andthen (link_to e (Some ?r)) (return_err 0) w = Some (0, ?v)"
      unfolding Some by (simp add: link_to_def andthen_def ignoring_def link_set_assign assign_def return_err_def)
    moreover have "i_flags (w_if (set_link (Some x) e w) e) = i_flags (w_if w e)"
      by (auto simp: set_link_def link_set_def assign_def Let_def split: option.splits)
    ultimately show ?thesis
      unfolding run Some by (auto simp: links.target_set links.rev_set)
  qed
qed

definition example_gre :: world where
  "example_gre = example_world\<lparr>w_if := (\<lambda>e. if_entry0\<lparr>i_flags := IF_UP,
     i_addr := (if e = 2 then [\<lparr>ia_addr = example_addr, ia_peer = addr0\<rparr>] else []), i_link_net := Some 1,
     i_private := (if e = 0 then Ptr (TunPriv example_addr) else NullPtr)\<rparr>)\<rparr>"

theorem tunnel_post_links_witness:
  "\<exists>v. gre_post 0 example_gre = Some (0, v) \<and> i_link (w_if v 0) = Some 2"
proof -
  have p: "i_private (w_if example_gre 0) = Ptr (TunPriv example_addr)" "ad_raw example_addr = Ptr [10, 0, 0, 1]"
    "0 \<le> ad_family example_addr" "addrs_readable example_gre (tunnel_ns (w_if example_gre 0))"
    by (simp_all add: example_gre_def example_addr_def AF_INET_def addrs_readable_def)
  have "only_one (filter (has_addr example_gre (ad_family example_addr) [10, 0, 0, 1])
      (n_ifaces (w_ns example_gre (tunnel_ns (w_if example_gre 0))))) = Some 2"
    by (simp add: example_gre_def example_world_def tunnel_ns_def has_addr_def example_addr_def only_one_def if_flag_defs)
  with tunnel_post_links [OF p] show ?thesis by (auto simp: example_gre_def if_entry0_def)
qed

end
