(* ===== verification/Team.thy ===== *)
theory Team
  imports Handler
begin

text \<open>
  The team handler (\<open>handlers/team.c\<close>): it asks the daemon that controls the device for its
  state over a socket, takes runner and active port from the JSON reply, and marks the other
  ports passive.  The socket and the JSON library are arguments: what each system call gives,
  and how a reply is decoded.
\<close>

unbundle bit_operations_syntax

text \<open>
  The daemon's socket: the result of setting it up (a descriptor or a negative error), of
  writing, of waiting (an error, or whether there is something to read), and of each
  \<open>read\<close>; when the reads are used up, the end of the stream.
\<close>

record teamd =
  td_connect :: int
  td_write :: "int + nat"
  td_select :: "int + bool"
  td_reads :: "(int + string) list"

text \<open>
  Decoding with the JSON library: loading a text, the member of an object, the string or the
  integer a value is, and the text of the last error.
\<close>

record 'j json_reader =
  jr_loads :: "string \<Rightarrow> 'j option"
  jr_get :: "'j \<Rightarrow> string \<Rightarrow> 'j option"
  jr_string :: "'j \<Rightarrow> string option"
  jr_integer :: "'j \<Rightarrow> int option"
  jr_error :: "string \<Rightarrow> string"
  jr_strerror :: "int \<Rightarrow> string"

definition TEAMD_REQ :: string where
  "TEAMD_REQ = ''REQUEST'' @ [CHR 0x0A] @ ''StateDump'' @ [CHR 0x0A]"

definition TEAMD_SUCC_PREFIX :: string where "TEAMD_SUCC_PREFIX = ''REPLY_SUCCESS''"
definition TEAMD_ERR_PREFIX :: string where "TEAMD_ERR_PREFIX = ''REPLY_ERROR''"

definition with_team :: "ifp \<Rightarrow> (string option option \<Rightarrow> wact) \<Rightarrow> wact" where
  "with_team e f = reading (\<lambda>w. case i_private (w_if w e) of Ptr (TeamPriv p) \<Rightarrow> f p | _ \<Rightarrow> crash)"

definition warn :: "ifp \<Rightarrow> string \<Rightarrow> wact" where
  "warn e s = ignoring (if_add_warning e s) (return_err 0)"

section \<open>The conversation\<close>

definition team_wait :: "teamd \<Rightarrow> int" where
  "team_wait td = (case td_select td of Inl err \<Rightarrow> err | Inr ready \<Rightarrow> if ready then 0 else ETIMEDOUT)"

text \<open>
  The read loop: \<open>size\<close> is the size of the buffer, \<open>buf\<close> its content.  The result is the
  content with the buffer's final size, an error, or NULL after a failed \<open>realloc\<close>.
\<close>

fun team_read :: "nat \<Rightarrow> string \<Rightarrow> (int + string) list \<Rightarrow> mem \<Rightarrow> (int + string \<times> nat) \<times> mem" where
  "team_read sz buf [] m = (Inr (buf, sz), m)"
| "team_read sz buf (Inl err # rs) m = (Inl err, m)"
| "team_read sz buf (Inr s # rs) m =
     (let s = take (sz - length buf) s in
      if s = [] then (Inr (buf, sz), m)
      else let buf = buf @ s in
        if length buf < sz then (Inr (buf, sz), m)
        else let (ok, m) = alloc m in
          if \<not> ok then (Inl ENOMEM, m) else team_read (sz * 2) buf rs m)"

text \<open>The terminating NUL is written behind the content, which must be inside the buffer.\<close>

definition team_recv :: "teamd \<Rightarrow> mem \<Rightarrow> (int + string) option \<times> mem" where
  "team_recv td m =
     (let (ok, m) = alloc m in
      if \<not> ok then (Some (Inl ENOMEM), m)
      else case team_read 4096 [] (td_reads td) m of
          (Inl err, m) \<Rightarrow> (Some (Inl err), m)
        | (Inr (buf, sz), m) \<Rightarrow> (if length buf < sz then Some (Inr buf) else None, m))"

definition team_getline :: "string \<Rightarrow> string \<times> string" where
  "team_getline reply =
     (case dropWhile (\<lambda>c. c \<noteq> CHR 0x0A) reply of
        [] \<Rightarrow> (reply, [])
      | _ # rest \<Rightarrow> (takeWhile (\<lambda>c. c \<noteq> CHR 0x0A) reply, rest))"

section \<open>Decoding the reply\<close>

text \<open>\<open>team_check_if\<close> is 0 only for the interface's own index and name.\<close>

definition team_check_if :: "'j json_reader \<Rightarrow> 'j \<Rightarrow> if_entry \<Rightarrow> bool" where
  "team_check_if J jdev i \<longleftrightarrow>
     (case jr_get J jdev ''ifinfo'' of
        None \<Rightarrow> False
      | Some info \<Rightarrow>
          (case (Option.bind (jr_get J info ''ifindex'') (jr_integer J), Option.bind (jr_get J info ''ifname'') (jr_string J)) of
             (Some ifindex, Some ifname) \<Rightarrow> word_of_int ifindex = i_index i \<and> ifname = i_name i
           | _ \<Rightarrow> False))"

definition team_parse_setup :: "'j json_reader \<Rightarrow> 'j \<Rightarrow> ifp \<Rightarrow> wact \<Rightarrow> wact \<Rightarrow> wact" where
  "team_parse_setup J jsetup e ok err =
     (case Option.bind (jr_get J jsetup ''runner_name'') (jr_string J) of
        None \<Rightarrow> err
      | Some runner_name \<Rightarrow> ignoring (if_add_config e ''runner'' runner_name) ok)"

definition team_parse_runner :: "'j json_reader \<Rightarrow> 'j option \<Rightarrow> ifp \<Rightarrow> wact" where
  "team_parse_runner J jrunner e =
     (case jrunner of
        None \<Rightarrow> return_err 0
      | Some r \<Rightarrow>
          (case jr_get J r ''active_port'' of
             None \<Rightarrow> return_err 0
           | Some jport \<Rightarrow> with_team e (\<lambda>_. assign (upd_if e (\<lambda>i. i\<lparr>i_private := Ptr (TeamPriv (Some (jr_string J jport)))\<rparr>)))))"

definition team_parse_json :: "'j json_reader \<Rightarrow> string \<Rightarrow> ifp \<Rightarrow> wact" where
  "team_parse_json J json e =
     (let fail = (\<lambda>errstr. warn e (''Team: Error parsing reply ('' @ errstr @ '')'')) in
      case jr_loads J json of
        None \<Rightarrow> fail ''Failed to parse JSON.''
      | Some jroot \<Rightarrow>
          (case (jr_get J jroot ''setup'', jr_get J jroot ''team_device'') of
             (Some jsetup, Some jdev) \<Rightarrow>
               branch (\<lambda>w. team_check_if J jdev (w_if w e))
                 (team_parse_setup J jsetup e (team_parse_runner J (jr_get J jroot ''runner'') e) (fail (jr_error J json)))
                 (fail ''Daemon controling different device'')
           | _ \<Rightarrow> fail (jr_error J json)))"

definition team_parse_reply :: "'j json_reader \<Rightarrow> string \<Rightarrow> ifp \<Rightarrow> wact" where
  "team_parse_reply J reply e =
     (let (line, rest) = team_getline reply in
      if line = TEAMD_SUCC_PREFIX then team_parse_json J rest e
      else if line = TEAMD_ERR_PREFIX then
        (let (line, rest) = team_getline rest in
         warn e (''Team: Received error reply ('' @ line @ '': '' @ rest @ '')''))
      else warn e ''Team: Cannot parse reply'')"

section \<open>The callbacks\<close>

definition team_scan :: "'j json_reader \<Rightarrow> (string \<Rightarrow> teamd) \<Rightarrow> ifp \<Rightarrow> wact" where
  "team_scan J teamds e = reading (\<lambda>w.
     let td = teamds (fit 108 (''/var/run/teamd/'' @ i_name (w_if w e) @ ''.sock'')) in
     if td_connect td < 0 then
       warn e (''Team: Failed to connect to teamd ('' @ jr_strerror J (- td_connect td) @ '')'')
     else case (case td_write td of Inl err \<Rightarrow> Some err | Inr k \<Rightarrow> if k < length TEAMD_REQ + 1 then Some 0 else None) of
         Some err \<Rightarrow> warn e (''Team: Failed to send request ('' @ jr_strerror J err @ '')'')
       | None \<Rightarrow>
           if team_wait td \<noteq> 0 then
             warn e (''Team: Failed to get status ('' @ jr_strerror J (team_wait td) @ '')'')
           else mem_call (team_recv td) (\<lambda>reply.
             (case reply of
                None \<Rightarrow> crash
              | Some (Inl err) \<Rightarrow> warn e (''Team: Failed to receive reply ('' @ jr_strerror J err @ '')'')
              | Some (Inr s) \<Rightarrow> ignoring (team_parse_reply J s e) (return_err 0))))"

definition team_port :: "ifp \<Rightarrow> string option \<Rightarrow> ifp \<Rightarrow> wact" where
  "team_port master active_name slave =
     (case active_name of
        None \<Rightarrow> crash
      | Some active_name \<Rightarrow>
          branch (\<lambda>w. i_name (w_if w slave) \<noteq> active_name)
            (assign (upd_if slave (\<lambda>i. i\<lparr>i_flags := i_flags i OR IF_PASSIVE_SLAVE\<rparr>)))
            (andthen (assign (upd_if master (\<lambda>i. i\<lparr>i_active_slave := Some slave\<rparr>)))
              (ignoring (if_add_state master ''active port'' active_name) ok_act)))"

definition team_post :: "ifp \<Rightarrow> wact" where
  "team_post master = with_team master (\<lambda>p. reading (\<lambda>w.
     (case p of
        Some active_name \<Rightarrow>
          if i_active_slave (w_if w master) = None
          then each_act (team_port master active_name) (i_rev_master (w_if w master))
          else return_err 0
      | None \<Rightarrow> return_err 0)))"

text \<open>\<open>team_cleanup\<close> reads the private structure and drops the reference to the JSON value in it.\<close>

definition team_cleanup :: "ifp \<Rightarrow> wact" where
  "team_cleanup e = with_team e (\<lambda>_. assign (upd_if e (\<lambda>i. i\<lparr>i_private := Ptr (TeamPriv None)\<rparr>)))"

definition h_team :: "'j json_reader \<Rightarrow> (string \<Rightarrow> teamd) \<Rightarrow> if_handler" where
  "h_team J teamds = no_handler\<lparr>h_driver := Some ''team'', h_private := Some (TeamPriv None),
     h_scan := Some (team_scan J teamds), h_post := Some team_post, h_cleanup := Some team_cleanup\<rparr>"

section \<open>Lemmas\<close>

lemma keeps_with_team [keeps_intros]: "(\<And>p. keeps P (f p)) \<Longrightarrow> keeps P (with_team e f)"
  unfolding with_team_def by (rule keeps_reading) (auto split: cptr.splits hpriv.splits intro: keeps_crash)

lemma keeps_warn [keeps_intros]: "on_links P \<Longrightarrow> keeps P (warn e s)"
  unfolding warn_def by (intro keeps_intros)

lemma keeps_team_parse_runner [keeps_intros]:
  assumes P: "on_links P"
  shows "keeps P (team_parse_runner J r e)"
  unfolding team_parse_runner_def
  by (intro keeps_option keeps_with_team keeps_setting keeps_return_err P) (simp add: if_links_def)

lemma keeps_team_parse_json [keeps_intros]:
  assumes P: "on_links P"
  shows "keeps P (team_parse_json J s e)"
  unfolding team_parse_json_def team_parse_setup_def Let_def
  by (auto split: option.splits prod.splits intro!: keeps_intros P)

lemma keeps_team_parse_reply [keeps_intros]: "on_links P \<Longrightarrow> keeps P (team_parse_reply J s e)"
  unfolding team_parse_reply_def Let_def by (auto split: prod.splits intro!: keeps_intros)

lemma keeps_team:
  assumes P: "on_links P"
  shows "keeps P (team_scan J teamds e)" "keeps P (team_post e)" "keeps P (team_cleanup e)"
proof -
  show "keeps P (team_scan J teamds e)"
    unfolding team_scan_def Let_def
    by (intro keeps_reading keeps_if keeps_option keeps_mem_call on_links_mem [OF P])
      (auto split: option.splits sum.splits intro!: keeps_intros P)
  have "keeps P (team_port e a s)" for a s
    unfolding team_port_def
    by (intro keeps_option keeps_crash keeps_branch keeps_andthen keeps_ignoring keeps_setting keeps_if_add_state keeps_ok P)
      (simp_all add: if_links_def)
  then show "keeps P (team_post e)"
    unfolding team_post_def by (intro keeps_with_team keeps_reading) (auto split: option.splits intro!: keeps_intros)
  show "keeps P (team_cleanup e)"
    unfolding team_cleanup_def by (intro keeps_with_team keeps_setting P) (simp add: if_links_def)
qed

lemma team_read_fits:
  "length buf < sz \<Longrightarrow> team_read sz buf rs m = (Inr (s, sz'), m') \<Longrightarrow> length s < sz'"
proof (induction rs arbitrary: sz buf m)
  case (Cons r rs)
  show ?case
  proof (cases r)
    case (Inr s0)
    obtain ok m1 where a: "alloc m = (ok, m1)" by (cases "alloc m")
    have l: "length (buf @ take (sz - length buf) s0) < sz * 2" using Cons.prems(1) by auto
    from Cons.prems show ?thesis
      by (auto simp: Inr a Let_def split: if_splits intro: Cons.IH [OF l])
  qed (use Cons.prems in simp)
qed simp

lemma team_recv_terminated_result: "fst (team_recv td m) \<noteq> None"
  by (auto simp: team_recv_def split: prod.splits sum.splits dest!: team_read_fits [of "[]" 4096, simplified])

end
