(* ===== verification/IfScan.thy ===== *)
theory IfScan
  imports Handler Nlsock
begin

text \<open>
  Reading the interfaces of a name space (\<open>if.c\<close>): the link dump, with name, flags, relations,
  driver and XDP programs of each interface, then its addresses from the address dump, and
  the handlers' netlink and scan phases.
\<close>

unbundle bit_operations_syntax

section \<open>Constants of the kernel interface\<close>

definition RTM_NEWLINK :: nat where "RTM_NEWLINK = 16"
definition RTM_GETLINK :: nat where "RTM_GETLINK = 18"
definition RTM_NEWADDR :: nat where "RTM_NEWADDR = 20"
definition RTM_GETADDR :: nat where "RTM_GETADDR = 22"
definition IFLA_ADDRESS :: nat where "IFLA_ADDRESS = 1"
definition IFLA_IFNAME :: nat where "IFLA_IFNAME = 3"
definition IFLA_MTU :: nat where "IFLA_MTU = 4"
definition IFLA_LINK :: nat where "IFLA_LINK = 5"
definition IFLA_MASTER :: nat where "IFLA_MASTER = 10"
definition IFLA_LINKINFO :: nat where "IFLA_LINKINFO = 18"
definition IFLA_LINK_NETNSID :: nat where "IFLA_LINK_NETNSID = 37"
definition IFLA_XDP :: nat where "IFLA_XDP = 43"
definition IFLA_MAX :: nat where "IFLA_MAX = 64"
definition IFLA_INFO_MAX :: nat where "IFLA_INFO_MAX = 5"
definition IFF_UP :: u32 where "IFF_UP = 1"
definition IFF_LOOPBACK :: u32 where "IFF_LOOPBACK = 8"
definition IFF_RUNNING :: u32 where "IFF_RUNNING = 64"
definition IFA_ADDRESS :: nat where "IFA_ADDRESS = 1"
definition IFA_LOCAL :: nat where "IFA_LOCAL = 2"
definition IFA_MAX :: nat where "IFA_MAX = 11"
definition IFLA_XDP_ATTACHED :: nat where "IFLA_XDP_ATTACHED = 2"
definition IFLA_XDP_PROG_ID :: nat where "IFLA_XDP_PROG_ID = 4"
definition IFLA_XDP_DRV_PROG_ID :: nat where "IFLA_XDP_DRV_PROG_ID = 5"
definition IFLA_XDP_SKB_PROG_ID :: nat where "IFLA_XDP_SKB_PROG_ID = 6"
definition IFLA_XDP_HW_PROG_ID :: nat where "IFLA_XDP_HW_PROG_ID = 7"
definition IFLA_XDP_MAX :: nat where "IFLA_XDP_MAX = 7"
definition XDP_ATTACHED_NONE :: nat where "XDP_ATTACHED_NONE = 0"
definition XDP_ATTACHED_DRV :: nat where "XDP_ATTACHED_DRV = 1"
definition XDP_ATTACHED_SKB :: nat where "XDP_ATTACHED_SKB = 2"
definition XDP_ATTACHED_HW :: nat where "XDP_ATTACHED_HW = 3"
definition XDP_ATTACHED_MULTI :: nat where "XDP_ATTACHED_MULTI = 4"

section \<open>XDP programs\<close>

definition xdp_mode_name :: "string list" where
  "xdp_mode_name = ['''', ''driver'', ''generic'', ''offloaded'']"

definition fill_if_xdp_prog :: "ifp \<Rightarrow> nat \<Rightarrow> nlattr option \<Rightarrow> wact" where
  "fill_if_xdp_prog e mode prog_id_nla =
     (let prog_id = (case prog_id_nla of None \<Rightarrow> 0 | Some a \<Rightarrow> nla_read_u32 a) in
      if prog_id = 0 then return_err 0
      else if_alloc
        (assign (upd_if e (\<lambda>i. i\<lparr>i_xdp := i_xdp i @
          [\<lparr>xdp_mode = fit 16 (if mode < length xdp_mode_name then xdp_mode_name ! mode else ''['' @ dec mode @ '']''),
            xdp_prog_id = prog_id\<rparr>]\<rparr>)))
        (return_err ENOMEM))"

definition fill_if_xdp :: "ifp \<Rightarrow> nlattr option \<Rightarrow> wact" where
  "fill_if_xdp e xdp_nla =
     (case xdp_nla of
        None \<Rightarrow> return_err 0
      | Some a \<Rightarrow> with_attrs a IFLA_XDP_MAX
          (\<lambda>tb. let mode = (case tb IFLA_XDP_ATTACHED of None \<Rightarrow> XDP_ATTACHED_NONE | Some b \<Rightarrow> unat (nla_read_u8 b)) in
             if mode = XDP_ATTACHED_NONE then return_err 0
             else if mode = XDP_ATTACHED_MULTI then
               andthen (fill_if_xdp_prog e XDP_ATTACHED_DRV (tb IFLA_XDP_DRV_PROG_ID))
              (andthen (fill_if_xdp_prog e XDP_ATTACHED_SKB (tb IFLA_XDP_SKB_PROG_ID))
                       (fill_if_xdp_prog e XDP_ATTACHED_HW (tb IFLA_XDP_HW_PROG_ID)))
             else fill_if_xdp_prog e mode (tb IFLA_XDP_PROG_ID))
          (return_err ENOMEM))"

section \<open>Links\<close>

text \<open>\<open>struct ifinfomsg\<close>, 16 bytes: the index at offset 4, the flags at offset 8.\<close>

definition ifi_index :: "bytes \<Rightarrow> u32" where "ifi_index bs = rd_u32 (drop 4 bs)"
definition ifi_flags :: "bytes \<Rightarrow> u32" where "ifi_flags bs = rd_u32 (drop 8 bs)"

text \<open>\<open>goto\<close> an error label: on an error of \<open>f\<close> the assignments after the label are done.\<close>

definition or_undo :: "wact \<Rightarrow> (world \<Rightarrow> world) \<Rightarrow> wact" where
  "or_undo f g w =
     (case f w of
        None \<Rightarrow> None
      | Some (err, w) \<Rightarrow> if err = 0 then Some (0, w) else Some (err, g w))"

definition set_if :: "ifp \<Rightarrow> (if_entry \<Rightarrow> if_entry) \<Rightarrow> wact" where
  "set_if e f = assign (upd_if e f)"

definition link_flags :: "u32 \<Rightarrow> u32 \<Rightarrow> u32" where
  "link_flags flags i =
     (if flags AND IFF_UP \<noteq> 0 then (let i = i OR IF_UP in if flags AND IFF_RUNNING \<noteq> 0 then i OR IF_HAS_LINK else i) else i)"

text \<open>The attributes that are copied into the interface.\<close>

definition copy_attrs :: "attrs \<Rightarrow> if_entry \<Rightarrow> if_entry" where
  "copy_attrs tb i =
     (let i = (case tb IFLA_MASTER of None \<Rightarrow> i | Some a \<Rightarrow> i\<lparr>i_master_index := nla_read_u32 a\<rparr>);
          i = (case tb IFLA_LINK of None \<Rightarrow> i | Some a \<Rightarrow> i\<lparr>i_link_index := nla_read_u32 a\<rparr>);
          i = (case tb IFLA_LINK_NETNSID of None \<Rightarrow> i | Some a \<Rightarrow> i\<lparr>i_link_netnsid := nla_read_s32 a\<rparr>) in
      case tb IFLA_MTU of None \<Rightarrow> i | Some a \<Rightarrow> i\<lparr>i_mtu := sint (nla_read_u32 a)\<rparr>)"

definition fill_mac :: "ifp \<Rightarrow> nlattr option \<Rightarrow> wact" where
  "fill_mac e nla =
     (case nla of
        None \<Rightarrow> ok_act
      | Some a \<Rightarrow> reading (\<lambda>w.
          (case mac_addr_fill_netlink (i_mac_addr (w_if w e)) a (w_mem w) of
             None \<Rightarrow> crash
           | Some (err, mac, m) \<Rightarrow>
               andthen (assign (\<lambda>w. upd_if e (\<lambda>i. i\<lparr>i_mac_addr := mac\<rparr>) (w\<lparr>w_mem := m\<rparr>))) (return_err err))))"

text \<open>
  The driver: loopback, what ethtool says, the kind of the link information, or a
  placeholder; \<open>strdup\<close> may fail at each of them.
\<close>

definition set_driver :: "ifp \<Rightarrow> string \<Rightarrow> wact" where
  "set_driver e s = if_alloc (set_if e (\<lambda>i. i\<lparr>i_driver := Some s\<rparr>)) (set_if e (\<lambda>i. i\<lparr>i_driver := None\<rparr>))"

definition fill_driver :: "env \<Rightarrow> ifp \<Rightarrow> u32 \<Rightarrow> attrs option \<Rightarrow> wact" where
  "fill_driver env e flags linkinfo =
     andthen
       (if flags AND IFF_LOOPBACK \<noteq> 0 then
          andthen (set_driver e ''loopback'') (set_if e (\<lambda>i. i\<lparr>i_flags := i_flags i OR IF_LOOPBACK\<rparr>))
        else reading (\<lambda>w. mem_call (ethtool_driver (ethtool_of env w e) (i_name (w_if w e)))
               (\<lambda>d. set_if e (\<lambda>i. i\<lparr>i_driver := d\<rparr>))))
    (andthen
       (branch (\<lambda>w. i_driver (w_if w e) = None)
          (case linkinfo of
             None \<Rightarrow> ok_act
           | Some tb \<Rightarrow> (case tb IFLA_INFO_KIND of None \<Rightarrow> ok_act | Some a \<Rightarrow> set_driver e (nla_read_str a)))
          ok_act)
       (branch (\<lambda>w. i_driver (w_if w e) = None)
          (set_driver e ''unknown driver, please report a bug'') ok_act))"

definition err_ifname :: "ifp \<Rightarrow> world \<Rightarrow> world" where
  "err_ifname e = upd_if e (\<lambda>i. i\<lparr>i_name := []\<rparr>)"

definition err_driver :: "ifp \<Rightarrow> world \<Rightarrow> world" where
  "err_driver e = upd_if e (\<lambda>i. i\<lparr>i_driver := None\<rparr>)"

text \<open>\<open>ENOENT\<close> of the netlink phase is no error.\<close>

definition tolerate :: "int \<Rightarrow> wact \<Rightarrow> wact" where
  "tolerate err f w = (case f w of None \<Rightarrow> None | Some (e, w) \<Rightarrow> Some (if e = err then 0 else e, w))"

text \<open>
  \<open>fill_if_link\<close> from the driver on (label \<open>err_driver\<close>), from the name on (\<open>err_ifname\<close>), and
  as a whole.
\<close>

definition link_driver :: "if_handler list \<Rightarrow> env \<Rightarrow> ifp \<Rightarrow> u32 \<Rightarrow> attrs \<Rightarrow> attrs option \<Rightarrow> wact" where
  "link_driver hs env e flags tb linkinfo =
     or_undo
       (andthen (fill_driver env e flags linkinfo)
       (andthen (fill_if_xdp e (tb IFLA_XDP))
       (andthen (if_handler_init hs e)
                (tolerate ENOENT (if_handler_netlink hs e linkinfo)))))
       (err_driver e)"

definition link_info :: "attrs \<Rightarrow> mem \<Rightarrow> (int + attrs option) \<times> mem" where
  "link_info tb m =
     (case tb IFLA_LINKINFO of
        None \<Rightarrow> (Inr None, m)
      | Some a \<Rightarrow> (case nla_nested_attrs a IFLA_INFO_MAX m of
            (None, m) \<Rightarrow> (Inl ENOMEM, m) | (Some li, m) \<Rightarrow> (Inr (Some li), m)))"

definition link_details :: "if_handler list \<Rightarrow> env \<Rightarrow> ifp \<Rightarrow> u32 \<Rightarrow> attrs \<Rightarrow> wact" where
  "link_details hs env e flags tb =
     andthen (set_if e (\<lambda>i. i\<lparr>i_flags := link_flags flags (i_flags i)\<rparr>))
    (andthen (set_if e (copy_attrs tb))
    (mem_call (link_info tb) (\<lambda>r. case r of
        Inl err \<Rightarrow> return_err err
      | Inr linkinfo \<Rightarrow> andthen (fill_mac e (tb IFLA_ADDRESS)) (link_driver hs env e flags tb linkinfo))))"

definition link_named :: "if_handler list \<Rightarrow> env \<Rightarrow> ifp \<Rightarrow> u32 \<Rightarrow> attrs \<Rightarrow> nlattr \<Rightarrow> wact" where
  "link_named hs env e flags tb name =
     or_undo
       (if_alloc
         (andthen (set_if e (\<lambda>i. i\<lparr>i_name := nla_read_str name\<rparr>)) (link_details hs env e flags tb))
         (return_err ENOMEM))
       (err_ifname e)"

definition fill_if_link :: "if_handler list \<Rightarrow> env \<Rightarrow> ifp \<Rightarrow> nlmsg \<Rightarrow> wact" where
  "fill_if_link hs env e msg =
     (if hdr_type (m_data msg) \<noteq> RTM_NEWLINK then return_err ENOENT
      else case nlmsg_get msg 16 of
          (None, _) \<Rightarrow> return_err ENOENT
        | (Some ifi, msg) \<Rightarrow>
            mem_call (nlmsg_attrs msg IFLA_MAX) (\<lambda>tb.
              (case tb of
                 None \<Rightarrow> return_err ENOMEM
               | Some tb \<Rightarrow>
                   (case tb IFLA_IFNAME of
                      None \<Rightarrow> return_err ENOENT
                    | Some name \<Rightarrow>
                        andthen (set_if e (\<lambda>i. i\<lparr>i_index := ifi_index ifi\<rparr>))
                          (link_named hs env e (ifi_flags ifi) tb name)))))"

section \<open>Addresses\<close>

definition ifaddrmsg_of :: "bytes \<Rightarrow> ifaddrmsg" where
  "ifaddrmsg_of bs = \<lparr>ifa_family = uint (bs ! 0), ifa_prefixlen = uint (bs ! 1), ifa_index = rd_u32 (drop 4 bs)\<rparr>"

definition addr_mem :: "ntop \<Rightarrow> ifaddrmsg \<Rightarrow> nlattr \<Rightarrow> mem \<Rightarrow> (int \<times> addr) \<times> mem" where
  "addr_mem ntop ifa a m = (let (err, d, m) = addr_init_netlink ntop addr0 ifa a m in ((err, d), m))"

definition add_if_addr :: "ifp \<Rightarrow> addr \<Rightarrow> addr \<Rightarrow> wact" where
  "add_if_addr e a p = set_if e (\<lambda>i. i\<lparr>i_addr := i_addr i @ [\<lparr>ia_addr = a, ia_peer = p\<rparr>]\<rparr>)"

text \<open>
  One message of the address dump.  The new entry is on the list before its addresses are
  set, so it stays there when \<open>addr_init\<close> fails.
\<close>

definition fill_one_addr :: "env \<Rightarrow> ifp \<Rightarrow> nlmsg \<Rightarrow> wact" where
  "fill_one_addr env e ainfo =
     (case nlmsg_get ainfo 8 of
        (None, _) \<Rightarrow> return_err ENOENT
      | (Some bs, msg) \<Rightarrow> let ifa = ifaddrmsg_of bs in
          branch (\<lambda>w. ifa_index ifa \<noteq> i_index (w_if w e)) ok_act
           (if hdr_type (m_data msg) \<noteq> RTM_NEWADDR then ok_act
            else if ifa_family ifa \<noteq> AF_INET \<and> ifa_family ifa \<noteq> AF_INET6 then ok_act
            else mem_call (nlmsg_attrs msg IFA_MAX) (\<lambda>tb.
              (case tb of
                 None \<Rightarrow> return_err ENOMEM
               | Some tb \<Rightarrow>
                   (case (case tb IFA_LOCAL of
                            Some l \<Rightarrow> Some (l, tb IFA_ADDRESS)
                          | None \<Rightarrow> (case tb IFA_ADDRESS of Some a \<Rightarrow> Some (a, None) | None \<Rightarrow> None)) of
                      None \<Rightarrow> ok_act
                    | Some (l, other) \<Rightarrow>
                        if_alloc
                          (mem_call (addr_mem (env_ntop env) ifa l) (\<lambda>(err, a).
                             if err \<noteq> 0 then andthen (add_if_addr e a addr0) (return_err err)
                             else (case other of
                                 Some p \<Rightarrow>
                                   if take (addr_len (ifa_family ifa)) (nla_read p) \<noteq> take (addr_len (ifa_family ifa)) (nla_read l)
                                   then mem_call (addr_mem (env_ntop env) ifa p) (\<lambda>(err, p).
                                          andthen (add_if_addr e a p) (return_err err))
                                   else add_if_addr e a addr0
                               | None \<Rightarrow> add_if_addr e a addr0)))
                          (return_err ENOMEM))))))"

definition fill_if_addr :: "env \<Rightarrow> ifp \<Rightarrow> nlmsg list \<Rightarrow> wact" where
  "fill_if_addr env e alist = andthen (each_act (fill_one_addr env e) alist) (return_err 0)"

section \<open>The interfaces of a name space\<close>

text \<open>
  A netlink socket that is about to be opened: the outcomes of \<open>nl_open\<close>'s system calls, the
  port, and what arrives.
\<close>

record sock =
  sk_open :: "int list"
  sk_pid :: u32
  sk_rx :: "rx list"
  sk_tx :: "int list"

definition sock_env :: "sock \<Rightarrow> world \<Rightarrow> nlenv" where
  "sock_env sk w = \<lparr>e_rx = sk_rx sk, e_tx = sk_tx sk, e_mem = w_mem w\<rparr>"

definition read_link :: "if_handler list \<Rightarrow> env \<Rightarrow> nsp \<Rightarrow> nlmsg list \<Rightarrow> nlmsg \<Rightarrow> wact" where
  "read_link hs env n ainfo l w =
     (case if_create w of
        (None, w) \<Rightarrow> Some (ENOMEM, w)
      | (Some e, w) \<Rightarrow>
          andthen (assign (upd_ns n (\<lambda>s. s\<lparr>n_ifaces := n_ifaces s @ [e]\<rparr>)))
         (andthen (set_if e (\<lambda>i. i\<lparr>i_ns := n\<rparr>))
         (andthen (fill_if_link hs env e l)
         (andthen (fill_if_addr env e ainfo)
                  (if_handler_scan hs e)))) w)"

text \<open>The two dumps, with the memory they leave.\<close>

definition if_dumps :: "sock \<Rightarrow> world \<Rightarrow> (int \<times> nlmsg list \<times> nlmsg list \<times> mem) option" where
  "if_dumps sk w =
     (let (err, hnd) = nl_open (sk_open sk) (sk_pid sk) in
      if err \<noteq> 0 then Some (err, [], [], w_mem w)
      else do {
        (err, linfo, hnd, nle) \<leftarrow> rtnl_ifi_dump hnd RTM_GETLINK 0 (sock_env sk w);
        if err \<noteq> 0 then Some (err, [], [], e_mem nle)
        else do {
          (err, ainfo, hnd, nle) \<leftarrow> rtnl_ifi_dump hnd RTM_GETADDR 0 nle;
          Some (err, linfo, ainfo, e_mem nle) } })"

definition if_list :: "if_handler list \<Rightarrow> env \<Rightarrow> sock \<Rightarrow> nsp \<Rightarrow> wact" where
  "if_list hs env sk n =
     andthen (assign (upd_ns n (\<lambda>s. s\<lparr>n_ifaces := []\<rparr>)))
    (\<lambda>w. case if_dumps sk w of
        None \<Rightarrow> None
      | Some (err, linfo, ainfo, m) \<Rightarrow>
          if err \<noteq> 0 then Some (err, w\<lparr>w_mem := m\<rparr>)
          else andthen (each_act (read_link hs env n ainfo) linfo) (return_err 0) (w\<lparr>w_mem := m\<rparr>))"

section \<open>Reading an interface\<close>

text \<open>
  What the reading of \<open>e\<close> leaves alone once name space, index and name are set: everything
  but addresses, driver and the handlers' bookkeeping.  \<open>ident_only P e\<close>: \<open>P\<close> is such a
  property of the world.
\<close>

definition if_ident ::
    "if_entry \<Rightarrow> nsp \<times> u32 \<times> string \<times> ifp option \<times> ifp option \<times> ifp option \<times> ifp option \<times> ifp list \<times> ifp list" where
  "if_ident i = (i_ns i, i_index i, i_name i, i_master i, i_link i, i_peer i, i_physfn i, i_rev_master i, i_rev_link i)"

definition ident_only :: "(world \<Rightarrow> bool) \<Rightarrow> ifp \<Rightarrow> bool" where
  "ident_only P e \<longleftrightarrow> on_links P \<and> (\<forall>f. (\<forall>i. if_ident (f i) = if_ident i) \<longrightarrow> (\<forall>w. P w \<longrightarrow> P (upd_if e f w)))"

lemma ident_only_links: "ident_only P e \<Longrightarrow> on_links P"
  by (simp add: ident_only_def)

lemma ident_only_upd: "ident_only P e \<Longrightarrow> (\<And>i. if_ident (f i) = if_ident i) \<Longrightarrow> P w \<Longrightarrow> P (upd_if e f w)"
  unfolding ident_only_def by blast

lemma keeps_ident: "ident_only P e \<Longrightarrow> (\<And>i. if_ident (f i) = if_ident i) \<Longrightarrow> keeps P (set_if e f)"
  unfolding set_if_def by (intro keeps_assign ident_only_upd [of P e f]) auto

lemma keeps_mem: "on_links P \<Longrightarrow> (\<And>x. keeps P (k x)) \<Longrightarrow> keeps P (mem_call f k)"
  by (intro keeps_mem_call) (rule on_links_mem)

lemma keeps_alloc: "on_links P \<Longrightarrow> keeps P f \<Longrightarrow> keeps P g \<Longrightarrow> keeps P (if_alloc f g)"
  by (intro keeps_if_alloc) (rule on_links_mem)

lemma or_undo_0: "or_undo f g w = Some (0, w') \<longleftrightarrow> f w = Some (0, w')"
  by (auto simp: or_undo_def split: option.splits if_splits)

lemma keeps0_or_undo: "keeps0 P f \<Longrightarrow> keeps0 P (or_undo f g)"
  by (auto simp: keeps0_def or_undo_0)

lemma makes0_or_undo: "makes0 P f \<Longrightarrow> makes0 P (or_undo f g)"
  by (auto simp: makes0_def or_undo_0)

lemma keeps_or_undo:
  assumes "keeps P f" and "\<And>w. P w \<Longrightarrow> P (g w)"
  shows "keeps P (or_undo f g)"
proof (rule keepsI)
  fix w err w'
  assume p: "P w" and r: "or_undo f g w = Some (err, w')"
  from r obtain v where v: "f w = Some (err, v)" "w' = v \<or> w' = g v"
    by (auto simp: or_undo_def split: option.splits if_splits)
  from keepsD [OF assms(1) p v(1)] v(2) assms(2) show "P w'" by auto
qed

lemma keeps_tolerate: "keeps P f \<Longrightarrow> keeps P (tolerate err f)"
  by (rule keepsI) (auto simp: tolerate_def split: option.splits dest: keepsD)

lemma keeps_fill_mac:
  assumes P: "ident_only P e"
  shows "keeps P (fill_mac e a)"
proof -
  have a: "keeps P (assign (\<lambda>w. upd_if e (\<lambda>i. i\<lparr>i_mac_addr := mac\<rparr>) (w\<lparr>w_mem := m\<rparr>)))" for mac m
    by (intro keeps_assign ident_only_upd [OF P] on_links_mem [OF ident_only_links [OF P]]) (simp_all add: if_ident_def)
  show ?thesis
    unfolding fill_mac_def
    by (cases a) (auto split: option.splits intro!: keeps_ok keeps_reading keeps_crash keeps_andthen keeps_return_err a)
qed

lemma keeps_set_driver: "ident_only P e \<Longrightarrow> keeps P (set_driver e s)"
  unfolding set_driver_def by (intro keeps_alloc ident_only_links keeps_ident) (simp_all add: if_ident_def)

lemma keeps_fill_driver:
  assumes P: "ident_only P e"
  shows "keeps P (fill_driver env e flags li)"
  unfolding fill_driver_def
  by (intro keeps_andthen keeps_if keeps_branch keeps_option keeps_reading keeps_ok keeps_set_driver keeps_ident
      keeps_mem [OF ident_only_links [OF P]] P)
    (simp_all add: if_ident_def)

lemma keeps_fill_if_xdp:
  assumes P: "on_links P"
  shows "keeps P (fill_if_xdp e a)"
proof -
  have p: "keeps P (fill_if_xdp_prog e mode a)" for mode a
    unfolding fill_if_xdp_prog_def Let_def
    by (intro keeps_if keeps_return_err keeps_alloc [OF P] keeps_setting [OF P]) (simp add: if_links_def)
  then show ?thesis
    unfolding fill_if_xdp_def Let_def
    by (intro keeps_option keeps_with_attrs [OF P] keeps_if keeps_andthen keeps_return_err)
qed

lemma keeps_link_driver:
  assumes P: "ident_only P e" and hs: "reader hs P"
  shows "keeps P (link_driver hs env e flags tb li)"
  unfolding link_driver_def err_driver_def
  by (intro keeps_or_undo keeps_andthen keeps_fill_driver keeps_fill_if_xdp keeps_tolerate P ident_only_links [OF P]
      reader.init_keeps [OF hs] reader.netlink_phase_keeps [OF hs] ident_only_upd [OF P])
    (simp_all add: if_ident_def)

lemma copy_attrs_ident: "if_ident (copy_attrs tb i) = if_ident i"
  by (simp add: copy_attrs_def if_ident_def Let_def split: option.splits)

lemma flags_ident: "if_ident (i\<lparr>i_flags := fl\<rparr>) = if_ident i"
  by (simp add: if_ident_def)

lemma keeps_link_details:
  assumes P: "ident_only P e" and hs: "reader hs P"
  shows "keeps P (link_details hs env e flags tb)"
  unfolding link_details_def
  by (intro keeps_andthen keeps_ident [OF P] keeps_mem [OF ident_only_links [OF P]])
    (auto simp: copy_attrs_ident flags_ident split: sum.splits
      intro!: keeps_andthen keeps_return_err keeps_fill_mac keeps_link_driver P hs)

lemma keeps_fill_addr_links:
  assumes P: "on_links P" and a: "\<And>d p. keeps P (add_if_addr e d p)"
  shows "keeps P (fill_if_addr env e alist)"
proof -
  have "keeps P (fill_one_addr env e ainfo)" for ainfo
    unfolding fill_one_addr_def Let_def
    by (cases "nlmsg_get ainfo 8")
      (auto split: option.splits prod.splits
        intro!: keeps_branch keeps_if keeps_ok keeps_return_err keeps_mem [OF P] keeps_alloc [OF P] keeps_andthen a)
  then show ?thesis
    unfolding fill_if_addr_def by (intro keeps_andthen keeps_each keeps_return_err)
qed

lemma keeps_fill_if_addr:
  assumes P: "ident_only P e"
  shows "keeps P (fill_if_addr env e alist)"
  unfolding add_if_addr_def
  by (rule keeps_fill_addr_links [OF ident_only_links [OF P]], unfold add_if_addr_def)
    (intro keeps_ident [OF P], simp add: if_ident_def)

text \<open>\<open>blind P e\<close>: of \<open>e\<close> itself \<open>P\<close> only looks at the relations, which reading never sets.\<close>

definition blind :: "(world \<Rightarrow> bool) \<Rightarrow> ifp \<Rightarrow> bool" where
  "blind P e \<longleftrightarrow> on_links P \<and> (\<forall>f. (\<forall>i. if_relations (f i) = if_relations i) \<longrightarrow> (\<forall>w. P w \<longrightarrow> P (upd_if e f w)))"

lemma blind_ident: "blind P e \<Longrightarrow> ident_only P e"
  by (auto simp: blind_def ident_only_def if_ident_def if_relations_def)

lemma blind_upd: "blind P e \<Longrightarrow> (\<And>i. if_relations (f i) = if_relations i) \<Longrightarrow> P w \<Longrightarrow> P (upd_if e f w)"
  unfolding blind_def by blast

lemma keeps_blind: "blind P e \<Longrightarrow> (\<And>i. if_relations (f i) = if_relations i) \<Longrightarrow> keeps P (set_if e f)"
  unfolding set_if_def by (intro keeps_assign blind_upd [of P e f]) auto

lemma keeps_fill_if_link:
  assumes P: "blind P e" and hs: "reader hs P"
  shows "keeps P (fill_if_link hs env e msg)"
proof -
  note links = ident_only_links [OF blind_ident [OF P]]
  have "keeps P (link_named hs env e flags tb name)" for flags tb name
    unfolding link_named_def err_ifname_def
    by (intro keeps_or_undo keeps_alloc [OF links] keeps_andthen keeps_blind [OF P] keeps_return_err
        keeps_link_details blind_ident P hs blind_upd [OF P]) (simp_all add: if_relations_def)
  then show ?thesis
    unfolding fill_if_link_def
    by (cases "nlmsg_get msg 16")
      (auto simp: if_relations_def split: option.splits
        intro!: keeps_return_err keeps_mem [OF links] keeps_andthen keeps_blind [OF P])
qed

text \<open>
  What a link message says of an interface of name space \<open>n\<close>: its index, its name, and that
  its driver has been found out.
\<close>

definition shows_link :: "nsp \<Rightarrow> nlmsg \<Rightarrow> if_entry \<Rightarrow> bool" where
  "shows_link n l i \<longleftrightarrow> i_ns i = n \<and> i_driver i \<noteq> None \<and>
     (\<exists>ifi msg name. nlmsg_get l 16 = (Some ifi, msg) \<and> i_index i = ifi_index ifi \<and>
        attr_table IFLA_MAX (for_each_nla msg) IFLA_IFNAME = Some name \<and> i_name i = nla_read_str name)"

lemma on_links_driver: "on_links (\<lambda>w. i_driver (w_if w e) \<noteq> None)"
  and on_links_ident: "on_links (\<lambda>w. i_ns (w_if w e) = n \<and> i_index (w_if w e) = ix \<and> i_name (w_if w e) = nm)"
  by (auto simp: on_links_def same_links_def if_links_def)

lemma ident_only_ident: "ident_only (\<lambda>w. i_ns (w_if w e) = n \<and> i_index (w_if w e) = ix \<and> i_name (w_if w e) = nm) e"
  by (auto simp: ident_only_def on_links_ident if_ident_def)

lemma init_finds_driver:
  assumes "h_driver h \<noteq> None" and hs: "reader (h # hs) (\<lambda>w. i_driver (w_if w e) \<noteq> None)"
  shows "makes0 (\<lambda>w. i_driver (w_if w e) \<noteq> None) (if_handler_init (h # hs) e)"
  unfolding makes0_def
proof (intro allI impI)
  fix w w'
  assume r: "if_handler_init (h # hs) e w = Some (0, w')"
  then have "i_driver (w_if w e) \<noteq> None"
    using assms(1) by (auto simp: reading_def crash_def split: option.splits)
  from keepsD [OF reader.init_keeps [OF hs] this r] show "i_driver (w_if w' e) \<noteq> None" .
qed

lemma details_find_driver:
  assumes "h_driver h \<noteq> None" and hs: "reader (h # hs) (\<lambda>w. i_driver (w_if w e) \<noteq> None)"
  shows "makes0 (\<lambda>w. i_driver (w_if w e) \<noteq> None) (link_details (h # hs) env e flags tb)"
proof -
  have d: "makes0 (\<lambda>w. i_driver (w_if w e) \<noteq> None) (link_driver (h # hs) env e flags tb li)" for li
    unfolding link_driver_def
    by (intro makes0_or_undo makes0_later makes0_now init_finds_driver [OF assms] keeps_keeps0 keeps_tolerate
        reader.netlink_phase_keeps [OF hs])
  have "makes0 (\<lambda>w. i_driver (w_if w e) \<noteq> None) (mem_call (link_info tb) (\<lambda>r. case r of
        Inl err \<Rightarrow> return_err err
      | Inr linkinfo \<Rightarrow> andthen (fill_mac e (tb IFLA_ADDRESS)) (link_driver (h # hs) env e flags tb linkinfo)))"
    unfolding makes0_def
    using makes0_later [OF d, unfolded makes0_def]
    by (auto simp: mem_call_def link_info_def return_err_def errno_defs split: option.splits prod.splits)
  then show ?thesis unfolding link_details_def by (intro makes0_later)
qed

lemma fill_if_link_shows:
  assumes h: "h_driver h \<noteq> None" and hs: "\<And>P. on_links P \<Longrightarrow> reader (h # hs) P"
    and n: "i_ns (w_if w e) = n" and r: "fill_if_link (h # hs) env e l w = Some (0, w')"
  shows "shows_link n l (w_if w' e)"
proof -
  from r obtain ifi msg name m where g: "nlmsg_get l 16 = (Some ifi, msg)"
    "attr_table IFLA_MAX (for_each_nla msg) IFLA_IFNAME = Some name"
    "link_named (h # hs) env e (ifi_flags ifi) (attr_table IFLA_MAX (for_each_nla msg)) name
       (upd_if e (\<lambda>i. i\<lparr>i_index := ifi_index ifi\<rparr>) (w\<lparr>w_mem := m\<rparr>)) = Some (0, w')"
    by (auto simp: fill_if_link_def return_err_def errno_defs mem_call_def nlmsg_attrs_def andthen_0 set_if_def assign_def
        split: prod.splits option.splits if_splits)
  let ?Q = "\<lambda>w. i_ns (w_if w e) = n \<and> i_index (w_if w e) = ifi_index ifi \<and> i_name (w_if w e) = nla_read_str name"
  from g(3) obtain m' where d: "link_details (h # hs) env e (ifi_flags ifi) (attr_table IFLA_MAX (for_each_nla msg))
      (upd_if e (\<lambda>i. i\<lparr>i_name := nla_read_str name\<rparr>)
        (upd_if e (\<lambda>i. i\<lparr>i_index := ifi_index ifi\<rparr>) (w\<lparr>w_mem := m'\<rparr>))) = Some (0, w')"
    by (auto simp: link_named_def or_undo_0 if_alloc_def Let_def return_err_def errno_defs andthen_0 set_if_def assign_def
        upd_if_def split: prod.splits if_splits)
  from n have "?Q (upd_if e (\<lambda>i. i\<lparr>i_name := nla_read_str name\<rparr>)
      (upd_if e (\<lambda>i. i\<lparr>i_index := ifi_index ifi\<rparr>) (w\<lparr>w_mem := m'\<rparr>)))" by simp
  from keepsD [OF keeps_link_details [OF ident_only_ident hs [OF on_links_ident]] this d] have "?Q w'" .
  moreover from makes0D [OF details_find_driver [OF h hs [OF on_links_driver]] d] have "i_driver (w_if w' e) \<noteq> None" .
  ultimately show ?thesis using g(1,2) by (auto simp: shows_link_def)
qed

text \<open>Everything but the entry \<open>e\<close> stays as it is described.\<close>

definition framed :: "ifp \<Rightarrow> nat \<Rightarrow> (nsp \<Rightarrow> ifp list) \<Rightarrow> world \<Rightarrow> world \<Rightarrow> bool" where
  "framed e k N v w \<longleftrightarrow> w_next w = k \<and> (\<forall>n. n_ifaces (w_ns w n) = N n) \<and> (\<forall>x. x \<noteq> e \<longrightarrow> if_links (w_if w x) = if_links (w_if v x))"

lemma blind_framed: "blind (framed e k N v) e"
  by (auto simp: blind_def framed_def on_links_def same_links_def)

lemma on_links_shows: "on_links (\<lambda>w. shows_link n l (w_if w e))"
  by (auto simp: on_links_def same_links_def if_links_def shows_link_def)

lemma keeps_shows_addr: "keeps (\<lambda>w. shows_link n l (w_if w e)) (add_if_addr e d p)"
  unfolding add_if_addr_def set_if_def by (rule keeps_assign) (simp add: shows_link_def)

lemma read_link_result:
  assumes h: "h_driver h \<noteq> None" and hs: "\<And>P. on_links P \<Longrightarrow> reader (h # hs) P"
    and r: "read_link (h # hs) env n ainfo l w = Some (0, w')"
  shows "framed (w_next w) (Suc (w_next w)) ((\<lambda>k. n_ifaces (w_ns w k))(n := n_ifaces (w_ns w n) @ [w_next w])) w w' \<and>
    shows_link n l (w_if w' (w_next w))"
proof -
  let ?e = "w_next w"
  let ?F = "framed ?e (Suc ?e) ((\<lambda>k. n_ifaces (w_ns w k))(n := n_ifaces (w_ns w n) @ [?e])) w"
  from r obtain m where
    "andthen (fill_if_link (h # hs) env ?e l) (andthen (fill_if_addr env ?e ainfo) (if_handler_scan (h # hs) ?e))
      (upd_if ?e (\<lambda>i. i\<lparr>i_ns := n\<rparr>) (upd_ns n (\<lambda>s. s\<lparr>n_ifaces := n_ifaces s @ [?e]\<rparr>)
        (w\<lparr>w_mem := m, w_if := (w_if w)(?e := if_entry0), w_next := Suc ?e\<rparr>))) = Some (0, w')"
    by (auto simp: read_link_def if_create_def Let_def errno_defs andthen_0 set_if_def assign_def split: prod.splits if_splits)
  then obtain w1 w2 w3 where
    w1: "w1 = upd_if ?e (\<lambda>i. i\<lparr>i_ns := n\<rparr>) (upd_ns n (\<lambda>s. s\<lparr>n_ifaces := n_ifaces s @ [?e]\<rparr>)
        (w\<lparr>w_mem := m, w_if := (w_if w)(?e := if_entry0), w_next := Suc ?e\<rparr>))"
    and r1: "fill_if_link (h # hs) env ?e l w1 = Some (0, w2)"
    and r2: "fill_if_addr env ?e ainfo w2 = Some (0, w3)"
    and r3: "if_handler_scan (h # hs) ?e w3 = Some (0, w')"
    by (auto simp: andthen_0)
  note F = blind_framed [of ?e "Suc ?e" "(\<lambda>k. n_ifaces (w_ns w k))(n := n_ifaces (w_ns w n) @ [?e])" w]
  note fl = ident_only_links [OF blind_ident [OF F]]
  have "?F w1" by (auto simp: framed_def w1)
  from keepsD [OF keeps_fill_if_link [OF F hs [OF fl]] this r1] have "?F w2" .
  from keepsD [OF keeps_fill_if_addr [OF blind_ident [OF F]] this r2] have "?F w3" .
  from keepsD [OF reader.scan_phase_keeps [OF hs [OF fl]] this r3] have f: "?F w'" .
  have "i_ns (w_if w1 ?e) = n" by (simp add: w1)
  from fill_if_link_shows [OF h hs this r1] have "shows_link n l (w_if w2 ?e)" .
  from keepsD [OF keeps_fill_addr_links [OF on_links_shows keeps_shows_addr] this r2] have "shows_link n l (w_if w3 ?e)" .
  from keepsD [OF reader.scan_phase_keeps [OF hs [OF on_links_shows]] this r3] f show ?thesis by blast
qed

text \<open>A name space whose interfaces are the entries from \<open>k\<close> on, one per link message, in order.\<close>

definition read_so_far :: "nsp \<Rightarrow> nat \<Rightarrow> world \<Rightarrow> nlmsg list \<Rightarrow> world \<Rightarrow> bool" where
  "read_so_far n k v ls w \<longleftrightarrow> w_next w = k + length ls \<and> n_ifaces (w_ns w n) = [k..<w_next w] \<and>
     list_all2 (\<lambda>e l. shows_link n l (w_if w e)) [k..<w_next w] ls \<and>
     (\<forall>m. m \<noteq> n \<longrightarrow> n_ifaces (w_ns w m) = n_ifaces (w_ns v m)) \<and>
     (\<forall>x<k. if_links (w_if w x) = if_links (w_if v x))"

lemma read_links_result:
  assumes h: "h_driver h \<noteq> None" and hs: "\<And>P. on_links P \<Longrightarrow> reader (h # hs) P"
    and "each_act (read_link (h # hs) env n ainfo) ls w = Some (0, w')" and "read_so_far n k v ls0 w"
  shows "read_so_far n k v (ls0 @ ls) w'"
  using assms(3,4)
proof (induction ls arbitrary: ls0 w)
  case Nil
  then show ?case by (simp add: ok_act_def)
next
  case (Cons l ls)
  from Cons.prems(1) obtain w1 where r: "read_link (h # hs) env n ainfo l w = Some (0, w1)"
    "each_act (read_link (h # hs) env n ainfo) ls w1 = Some (0, w')" by (auto simp: andthen_0)
  from read_link_result [OF h hs r(1)]
  have fr: "w_next w1 = Suc (w_next w)" "\<And>m. n_ifaces (w_ns w1 m) = (if m = n then n_ifaces (w_ns w n) @ [w_next w] else n_ifaces (w_ns w m))"
    "\<And>x. x \<noteq> w_next w \<Longrightarrow> if_links (w_if w1 x) = if_links (w_if w x)" and sh: "shows_link n l (w_if w1 (w_next w))"
    by (auto simp: framed_def)
  have same: "shows_link n l' (w_if w1 x) = shows_link n l' (w_if w x)" if "x \<noteq> w_next w" for l' x
    using fr(3) [OF that] by (simp add: shows_link_def if_links_def)
  have up: "[k..<w_next w1] = [k..<w_next w] @ [w_next w]"
    using Cons.prems(2) by (simp add: fr(1) read_so_far_def)
  have "list_all2 (\<lambda>e l. shows_link n l (w_if w1 e)) [k..<w_next w] ls0"
    using Cons.prems(2) by (auto simp: read_so_far_def same elim!: list_all2_mono intro: list.rel_mono_strong)
  with Cons.prems(2) fr sh up have "read_so_far n k v (ls0 @ [l]) w1"
    by (auto simp: read_so_far_def intro: list_all2_appendI)
  from Cons.IH [OF r(2) this] show ?case by simp
qed

lemma if_list_result:
  assumes h: "h_driver h \<noteq> None" and hs: "\<And>P. on_links P \<Longrightarrow> reader (h # hs) P"
    and d: "if_dumps sk (upd_ns n (\<lambda>s. s\<lparr>n_ifaces := []\<rparr>) w) = Some (0, linfo, ainfo, m)"
    and r: "if_list (h # hs) env sk n w = Some (0, w')"
  shows "read_so_far n (w_next w) w linfo w'"
proof -
  let ?w = "(upd_ns n (\<lambda>s. s\<lparr>n_ifaces := []\<rparr>) w)\<lparr>w_mem := m\<rparr>"
  from r d have e: "each_act (read_link (h # hs) env n ainfo) linfo ?w = Some (0, w')"
    by (auto simp: if_list_def andthen_0 assign_def return_err_def)
  have "read_so_far n (w_next w) w [] ?w" by (simp add: read_so_far_def)
  from read_links_result [OF h hs e this] show ?thesis by simp
qed

text \<open>Reading relates no interfaces, and leaves the list of name spaces and what Open vSwitch knows alone.\<close>

definition unrelated :: "nsp list \<Rightarrow> world \<Rightarrow> bool" where
  "unrelated ns w \<longleftrightarrow> w_list w = ns \<and> (\<forall>e. if_relations (w_if w e) = (None, None, None, None, [], [])) \<and> ovs_unlinked (w_ovs w)"

lemma blind_unrelated: "blind (unrelated ns) e"
  by (auto simp: blind_def unrelated_def if_relations_def on_links_def same_links_def if_links_def)

lemma keeps_read_link:
  assumes hs: "reader hs (unrelated ns)"
  shows "keeps (unrelated ns) (read_link hs env n ainfo l)"
proof (rule keepsI)
  fix w err w'
  assume u: "unrelated ns w" and r: "read_link hs env n ainfo l w = Some (err, w')"
  note links = ident_only_links [OF blind_ident [OF blind_unrelated]]
  have k: "keeps (unrelated ns) (andthen (assign (upd_ns n (\<lambda>s. s\<lparr>n_ifaces := n_ifaces s @ [e]\<rparr>)))
      (andthen (set_if e (\<lambda>i. i\<lparr>i_ns := n\<rparr>))
      (andthen (fill_if_link hs env e l)
      (andthen (fill_if_addr env e ainfo) (if_handler_scan hs e)))))" for e
    by (intro keeps_andthen keeps_fill_if_link [OF blind_unrelated hs] keeps_fill_if_addr blind_ident blind_unrelated
        reader.scan_phase_keeps [OF hs] keeps_blind [OF blind_unrelated] keeps_assign)
      (simp_all add: if_relations_def unrelated_def)
  obtain c w1 where c: "if_create w = (c, w1)" by (cases "if_create w")
  have w1: "unrelated ns w1" using u c
    by (auto simp: if_create_def unrelated_def if_relations_def if_entry0_def Let_def split: prod.splits if_splits)
  show "unrelated ns w'"
  proof (cases c)
    case None
    with r c w1 show ?thesis by (simp add: read_link_def)
  next
    case (Some e)
    with r c have "andthen (assign (upd_ns n (\<lambda>s. s\<lparr>n_ifaces := n_ifaces s @ [e]\<rparr>)))
      (andthen (set_if e (\<lambda>i. i\<lparr>i_ns := n\<rparr>))
      (andthen (fill_if_link hs env e l)
      (andthen (fill_if_addr env e ainfo) (if_handler_scan hs e)))) w1 = Some (err, w')" by (simp add: read_link_def)
    from keepsD [OF k w1 this] show ?thesis .
  qed
qed

lemma keeps_if_list:
  assumes hs: "reader hs (unrelated ns)"
  shows "keeps (unrelated ns) (if_list hs env sk n)"
proof (rule keepsI)
  fix w err w'
  assume u: "unrelated ns w" and r: "if_list hs env sk n w = Some (err, w')"
  let ?w = "upd_ns n (\<lambda>s. s\<lparr>n_ifaces := []\<rparr>) w"
  have m: "unrelated ns (?w\<lparr>w_mem := m\<rparr>)" for m using u by (simp add: unrelated_def)
  from r obtain e1 linfo ainfo m where d: "if_dumps sk ?w = Some (e1, linfo, ainfo, m)"
    by (auto simp: if_list_def andthen_def assign_def split: option.splits)
  have k: "keeps (unrelated ns) (andthen (each_act (read_link hs env n ainfo) linfo) (return_err 0))"
    by (intro keeps_andthen keeps_each keeps_read_link hs keeps_return_err)
  show "unrelated ns w'"
  proof (cases "e1 = 0")
    case True
    with r d have "andthen (each_act (read_link hs env n ainfo) linfo) (return_err 0) (?w\<lparr>w_mem := m\<rparr>) = Some (err, w')"
      by (simp add: if_list_def andthen_def assign_def)
    from keepsD [OF k m this] show ?thesis .
  next
    case False
    with r d m show ?thesis by (auto simp: if_list_def andthen_def assign_def)
  qed
qed

end
