(* ===== verification/RouteH.thy ===== *)
theory RouteH
  imports IfScan Devices "HOL-Library.Multiset"
begin

text \<open>
  Routes (\<open>handlers/route.c\<close>, \<open>route.c\<close>): the dump of a name space's routes, decoded message by
  message, linked to the interfaces of the name space and sorted into tables by their 8-bit
  identifier; and the names of the numbers a route holds.
\<close>

section \<open>Constants of the kernel interface\<close>

definition RTM_NEWROUTE :: nat where "RTM_NEWROUTE = 24"
definition RTM_GETROUTE :: nat where "RTM_GETROUTE = 26"
definition RTA_DST :: nat where "RTA_DST = 1"
definition RTA_SRC :: nat where "RTA_SRC = 2"
definition RTA_IIF :: nat where "RTA_IIF = 3"
definition RTA_OIF :: nat where "RTA_OIF = 4"
definition RTA_GATEWAY :: nat where "RTA_GATEWAY = 5"
definition RTA_PRIORITY :: nat where "RTA_PRIORITY = 6"
definition RTA_PREFSRC :: nat where "RTA_PREFSRC = 7"
definition RTA_METRICS :: nat where "RTA_METRICS = 8"
definition RTA_TABLE :: nat where "RTA_TABLE = 15"
definition RTA_MAX :: nat where "RTA_MAX = 30"
definition RTAX_CC_ALGO :: nat where "RTAX_CC_ALGO = 16"

lemmas route_consts = RTM_NEWROUTE_def RTM_GETROUTE_def RTA_DST_def RTA_SRC_def RTA_IIF_def RTA_OIF_def
  RTA_GATEWAY_def RTA_PRIORITY_def RTA_PREFSRC_def RTA_METRICS_def RTA_TABLE_def RTA_MAX_def RTAX_CC_ALGO_def

section \<open>Names\<close>

definition route_unknown :: "int \<Rightarrow> string" where
  "route_unknown num = fit 64 (''unknown ('' @ dec (nat (num mod 2 ^ 32)) @ '')'')"

text \<open>A \<open>switch\<close> over constants that returns names, with \<open>route_unknown\<close> behind it.\<close>

definition switch_name :: "(int \<times> string) list \<Rightarrow> int \<Rightarrow> string" where
  "switch_name tab num = (case map_of tab num of Some s \<Rightarrow> s | None \<Rightarrow> route_unknown num)"

definition route_metric :: "int \<Rightarrow> string" where
  "route_metric = switch_name [(2, ''mtu''), (3, ''window''), (4, ''rtt''), (5, ''rttvar''), (6, ''ssthresh''),
     (7, ''cwnd''), (8, ''advmss''), (9, ''reordering''), (10, ''hoplimit''), (11, ''initcwnd''), (12, ''features''),
     (13, ''rto_min''), (14, ''initrwnd''), (15, ''quickack''), (16, ''congctl'')]"

definition route_protocol :: "int \<Rightarrow> string" where
  "route_protocol = switch_name [(0, ''unspec''), (1, ''redirect''), (2, ''kernel''), (3, ''boot''), (4, ''static''),
     (8, ''gated''), (9, ''ra''), (10, ''mrt''), (11, ''zebra''), (12, ''bird''), (13, ''dnrouted''), (14, ''xorp''),
     (15, ''ntk''), (16, ''dhcp''), (17, ''mrouted''), (42, ''babel'')]"

definition route_scope :: "int \<Rightarrow> string" where
  "route_scope = switch_name [(0, ''universe''), (200, ''site''), (253, ''link''), (254, ''host'')]"

definition route_table :: "int \<Rightarrow> string" where
  "route_table = switch_name [(0, ''unspec''), (252, ''compat''), (253, ''default''), (254, ''main''), (255, ''local'')]"

definition route_type :: "int \<Rightarrow> string" where
  "route_type = switch_name [(0, ''unspec''), (1, ''unicast''), (2, ''local''), (3, ''broadcast''), (4, ''anycast''),
     (5, ''multicast''), (6, ''blackhole''), (7, ''unreachable''), (8, ''prohibit''), (9, ''throw''), (10, ''nat'')]"

section \<open>Decoding a route\<close>

fun route_add_metrics :: "rtmetric list \<Rightarrow> nlattr list \<Rightarrow> mem \<Rightarrow> (int \<times> rtmetric list) \<times> mem" where
  "route_add_metrics metrics [] m = ((0, metrics), m)"
| "route_add_metrics metrics (a # as) m =
     (if a_type a \<ge> RTAX_CC_ALGO then route_add_metrics metrics as m
      else let (ok, m) = alloc m in
        if \<not> ok then ((ENOMEM, metrics), m)
        else route_add_metrics (metrics @ [\<lparr>rm_type = int (a_type a), rm_value = sint (nla_read_u32 a)\<rparr>]) as m)"

definition route_parse_metrics :: "rtmetric list \<Rightarrow> nlattr \<Rightarrow> mem \<Rightarrow> (int \<times> rtmetric list) \<times> mem" where
  "route_parse_metrics metrics mxrta = route_add_metrics metrics (for_each_nla_nested mxrta)"

definition route0 :: route where
  "route0 = \<lparr>r_iif = None, r_oif = None, r_metrics = [], r_dst = addr0, r_gw = addr0, r_prefsrc = addr0, r_src = addr0,
     r_iifindex = 0, r_oifindex = 0, r_priority = 0, r_table_id = 0, r_tos = 0, r_protocol = 0, r_type = 0,
     r_family = 0, r_scope = 0\<rparr>"

text \<open>An address attribute; the error number of \<open>addr_init\<close> is not looked at.\<close>

definition route_addr :: "ntop \<Rightarrow> u8 \<Rightarrow> int \<Rightarrow> nlattr option \<Rightarrow> mem \<Rightarrow> addr \<times> mem" where
  "route_addr ntop family prefixlen nla m =
     (case nla of
        None \<Rightarrow> (addr0, m)
      | Some a \<Rightarrow> (let (_, d, m) = addr_init ntop addr0 (uint family) prefixlen (nla_read a) m in (d, m)))"

definition index_of :: "nlattr option \<Rightarrow> u32" where
  "index_of nla = (case nla of None \<Rightarrow> 0 | Some a \<Rightarrow> nla_read_u32 a)"

text \<open>
  \<open>struct rtmsg\<close>, 12 bytes: family, length of destination and source, tos, table, protocol,
  scope and type, one byte each, and 32 bits of flags.
\<close>

definition route_create_netlink :: "ntop \<Rightarrow> nlmsg \<Rightarrow> mem \<Rightarrow> (int + route) \<times> mem" where
  "route_create_netlink ntop msg m =
     (if hdr_type (m_data msg) \<noteq> RTM_NEWROUTE then (Inl ENOENT, m)
      else case nlmsg_get msg 12 of
          (None, _) \<Rightarrow> (Inl ENOENT, m)
        | (Some rtm, msg) \<Rightarrow>
          (let (ok, m) = alloc m in
           if \<not> ok then (Inl ENOMEM, m)
           else let r = route0\<lparr>r_family := rtm ! 0, r_protocol := rtm ! 5, r_scope := rtm ! 6, r_tos := rtm ! 3, r_type := rtm ! 7\<rparr> in
             case nlmsg_attrs msg RTA_MAX m of
               (None, m) \<Rightarrow> (Inl ENOMEM, m)
             | (Some tb, m) \<Rightarrow>
                 let r = r\<lparr>r_table_id := (case tb RTA_TABLE of Some a \<Rightarrow> ucast (nla_read_u32 a) | None \<Rightarrow> rtm ! 4)\<rparr>;
                     (src, m) = route_addr ntop (r_family r) (uint (rtm ! 2)) (tb RTA_SRC) m;
                     (dst, m) = route_addr ntop (r_family r) (uint (rtm ! 1)) (tb RTA_DST) m;
                     (gw, m) = route_addr ntop (r_family r) (-1) (tb RTA_GATEWAY) m;
                     (prefsrc, m) = route_addr ntop (r_family r) (-1) (tb RTA_PREFSRC) m;
                     r = r\<lparr>r_src := src, r_dst := dst, r_gw := gw, r_prefsrc := prefsrc,
                           r_oifindex := index_of (tb RTA_OIF), r_iifindex := index_of (tb RTA_IIF),
                           r_priority := index_of (tb RTA_PRIORITY)\<rparr> in
                 (case tb RTA_METRICS of
                    None \<Rightarrow> (Inr r, m)
                  | Some a \<Rightarrow>
                     (let ((err, metrics), m) = route_parse_metrics [] a m in
                      if err \<noteq> 0 then (Inl err, m) else (Inr (r\<lparr>r_metrics := metrics\<rparr>), m)))))"

section \<open>Tables\<close>

type_synonym rtables = "u8 \<Rightarrow> route list option"

definition find_if_by_ifindex :: "world \<Rightarrow> nsp \<Rightarrow> u32 \<Rightarrow> ifp option" where
  "find_if_by_ifindex w n ifindex = find (\<lambda>e. i_index (w_if w e) = ifindex) (n_ifaces (w_ns w n))"

definition link_route :: "world \<Rightarrow> nsp \<Rightarrow> route \<Rightarrow> route" where
  "link_route w n r = r\<lparr>r_oif := find_if_by_ifindex w n (r_oifindex r), r_iif := find_if_by_ifindex w n (r_iifindex r)\<rparr>"

text \<open>The loop over the answer; a table is allocated when its first route comes.\<close>

fun add_routes :: "ntop \<Rightarrow> (route \<Rightarrow> route) \<Rightarrow> nlmsg list \<Rightarrow> rtables \<Rightarrow> mem \<Rightarrow> (int \<times> rtables) \<times> mem" where
  "add_routes ntop lnk [] tables m = ((0, tables), m)"
| "add_routes ntop lnk (nle # resp) tables m =
     (case route_create_netlink ntop nle m of
        (Inl err, m) \<Rightarrow> ((err, tables), m)
      | (Inr r, m) \<Rightarrow>
         (let r = lnk r in
          case tables (r_table_id r) of
            Some rs \<Rightarrow> add_routes ntop lnk resp (tables(r_table_id r \<mapsto> rs @ [r])) m
          | None \<Rightarrow>
             (let (ok, m) = alloc m in
              if \<not> ok then ((ENOMEM, tables), m)
              else add_routes ntop lnk resp (tables(r_table_id r \<mapsto> [r])) m)))"

definition mk_rtable :: "rtables \<Rightarrow> nat \<Rightarrow> rtable list" where
  "mk_rtable tables i =
     (case tables (word_of_nat i) of None \<Rightarrow> [] | Some rs \<Rightarrow> [\<lparr>rt_id = int i, rt_routes = rs\<rparr>])"

text \<open>The final loop, from 255 down to 0.\<close>

definition list_tables :: "rtables \<Rightarrow> rtable list" where
  "list_tables tables = concat (map (mk_rtable tables) (rev [0..<256]))"

section \<open>The handler\<close>

text \<open>The request (a zeroed \<open>struct rtmsg\<close>) and its exchange.\<close>

definition route_dump :: "sock \<Rightarrow> world \<Rightarrow> (int \<times> nlmsg list \<times> mem) option" where
  "route_dump sk w =
     (let (err, hnd) = nl_open (sk_open sk) (sk_pid sk) in
      if err \<noteq> 0 then Some (err, [], w_mem w)
      else do {
        (req, m) \<leftarrow> nlmsg_new RTM_GETROUTE NLM_F_DUMP (w_mem w);
        case req of
          None \<Rightarrow> Some (ENOMEM, [], m)
        | Some req \<Rightarrow> do {
            (err, req, m) \<leftarrow> nlmsg_put req (replicate 12 0) m;
            if err \<noteq> 0 then Some (err, [], m)
            else do {
              (err, resp, hnd, nle) \<leftarrow> nl_exchange hnd req ((sock_env sk w)\<lparr>e_mem := m\<rparr>);
              Some (err, resp, e_mem nle) } } })"

definition route_scan :: "env \<Rightarrow> (nsp \<Rightarrow> sock) \<Rightarrow> nsp \<Rightarrow> wact" where
  "route_scan env sks n w =
     (let w = upd_ns n (\<lambda>s. s\<lparr>n_rtables := []\<rparr>) w in
      case route_dump (sks n) w of
        None \<Rightarrow> None
      | Some (err, resp, m) \<Rightarrow>
          if err \<noteq> 0 then Some (err, w\<lparr>w_mem := m\<rparr>)
          else let ((err, tables), m) = add_routes (env_ntop env) (link_route w n) resp Map.empty m in
            if err \<noteq> 0 then Some (err, w\<lparr>w_mem := m\<rparr>)
            else Some (0, upd_ns n (\<lambda>s. s\<lparr>n_rtables := list_tables tables\<rparr>) (w\<lparr>w_mem := m\<rparr>)))"

definition route_cleanup :: "nsp \<Rightarrow> wact" where
  "route_cleanup n = assign (upd_ns n (\<lambda>s. s\<lparr>n_rtables := []\<rparr>))"

definition h_route :: "env \<Rightarrow> (nsp \<Rightarrow> sock) \<Rightarrow> netns_handler" where
  "h_route env sks = \<lparr>nh_scan = Some (route_scan env sks), nh_cleanup = Some route_cleanup\<rparr>"

section \<open>Lemmas\<close>

lemma keeps_route_scan [keeps_intros]:
  assumes P: "on_links P"
  shows "keeps P (route_scan env sks n)" "keeps P (route_cleanup n)"
proof -
  have u: "P (upd_ns n (\<lambda>s. s\<lparr>n_rtables := t\<rparr>) w)" if "P w" for t w
    by (rule on_links_upd_ns [OF P _ that]) simp
  have m: "P (w\<lparr>w_mem := m\<rparr>)" if "P w" for m w by (rule on_links_mem [OF P that])
  show "keeps P (route_scan env sks n)"
    by (rule keepsI) (auto simp: route_scan_def Let_def split: option.splits prod.splits if_splits intro: u m)
  show "keeps P (route_cleanup n)"
    unfolding route_cleanup_def by (intro keeps_assign u)
qed

text \<open>The routes of the tables, and what the loop adds to each of them.\<close>

definition of_table :: "u8 \<Rightarrow> route list \<Rightarrow> route list" where
  "of_table k = filter (\<lambda>r. r_table_id r = k)"

definition decodes :: "ntop \<Rightarrow> (route \<Rightarrow> route) \<Rightarrow> nlmsg \<Rightarrow> route \<Rightarrow> bool" where
  "decodes ntop lnk msg r \<longleftrightarrow> (\<exists>m m' r0. route_create_netlink ntop msg m = (Inr r0, m') \<and> r = lnk r0)"

definition put_routes :: "rtables \<Rightarrow> route list \<Rightarrow> rtables" where
  "put_routes t rs k = (case t k of Some xs \<Rightarrow> Some (xs @ of_table k rs)
     | None \<Rightarrow> (if of_table k rs = [] then None else Some (of_table k rs)))"

definition put_route :: "rtables \<Rightarrow> route \<Rightarrow> rtables" where
  "put_route t r = t(r_table_id r \<mapsto> (case t (r_table_id r) of None \<Rightarrow> [r] | Some rs \<Rightarrow> rs @ [r]))"

lemma put_routes_Nil: "put_routes t [] = t"
  by (rule ext) (simp add: put_routes_def of_table_def split: option.splits)

lemma put_routes_Cons: "put_routes (put_route t r) rs = put_routes t (r # rs)"
  by (rule ext) (auto simp: put_routes_def put_route_def of_table_def split: option.splits)

lemma route_create_error: "route_create_netlink ntop msg m \<noteq> (Inl 0, m')"
  by (auto simp: route_create_netlink_def Let_def errno_defs split: prod.splits option.splits if_splits)

lemma add_routes_step:
  assumes "add_routes ntop lnk (nle # resp) t m = ((0, t'), m')"
  obtains r m1 m2 where "route_create_netlink ntop nle m = (Inr r, m1)"
    "add_routes ntop lnk resp (put_route t (lnk r)) m2 = ((0, t'), m')"
  using assms
  by (auto simp: put_route_def Let_def ENOMEM_def split: prod.splits sum.splits option.splits if_splits)
    (use route_create_error in \<open>force+\<close>)

lemma add_routes_result:
  "add_routes ntop lnk resp t m = ((0, t'), m') \<Longrightarrow> \<exists>rs. list_all2 (decodes ntop lnk) resp rs \<and> t' = put_routes t rs"
proof (induction resp arbitrary: t m)
  case Nil
  then show ?case by (auto simp: put_routes_Nil)
next
  case (Cons nle resp)
  from add_routes_step [OF Cons.prems] obtain r m1 m2 where
    r: "route_create_netlink ntop nle m = (Inr r, m1)" "add_routes ntop lnk resp (put_route t (lnk r)) m2 = ((0, t'), m')" .
  from Cons.IH [OF r(2)] obtain rs where
    "list_all2 (decodes ntop lnk) resp rs" "t' = put_routes (put_route t (lnk r)) rs" by blast
  with r(1) show ?case
    by (intro exI [of _ "lnk r # rs"]) (auto simp: put_routes_Cons decodes_def [of _ _ nle])
qed

lemma mset_groups:
  "distinct ks \<Longrightarrow> mset (concat (map (\<lambda>k. filter (\<lambda>x. f x = k) xs) ks)) = mset (filter (\<lambda>x. f x \<in> set ks) xs)"
proof (induction ks)
  case (Cons k ks)
  have "mset (filter (\<lambda>x. f x = k) xs) + mset (filter (\<lambda>x. f x \<in> set ks) xs) =
      mset (filter (\<lambda>x. f x = k \<or> f x \<in> set ks) xs)"
    using Cons.prems by (induction xs) auto
  with Cons show ?case by simp
qed simp

definition tables_of :: "route list \<Rightarrow> rtable list" where
  "tables_of rs = map (\<lambda>i. \<lparr>rt_id = int i, rt_routes = of_table (word_of_nat i) rs\<rparr>)
     (filter (\<lambda>i. of_table (word_of_nat i) rs \<noteq> []) (rev [0..<256]))"

lemma list_tables_put: "list_tables (put_routes Map.empty rs) = tables_of rs"
proof -
  have "concat (map (mk_rtable (put_routes Map.empty rs)) is) =
      map (\<lambda>i. \<lparr>rt_id = int i, rt_routes = of_table (word_of_nat i) rs\<rparr>) (filter (\<lambda>i. of_table (word_of_nat i) rs \<noteq> []) is)" for "is"
    by (induction "is") (auto simp: mk_rtable_def put_routes_def)
  then show ?thesis by (simp only: list_tables_def tables_of_def)
qed

lemma unat_lt256: "unat (b :: u8) < 256"
  using unsigned_less [of b] by simp

lemma tables_of_partition: "mset (concat (map rt_routes (tables_of rs))) = mset rs"
proof -
  have drop_empty: "concat (map g (filter (\<lambda>i. g i \<noteq> []) is)) = concat (map g is)" for g :: "nat \<Rightarrow> route list" and "is"
    by (induction "is") auto
  have "concat (map rt_routes (tables_of rs)) = concat (map (\<lambda>i. of_table (word_of_nat i) rs) (rev [0..<256]))"
    unfolding tables_of_def by (simp add: comp_def drop_empty)
  also have "map (\<lambda>i. of_table (word_of_nat i) rs) (rev [0..<256]) =
      map (\<lambda>i. filter (\<lambda>r. unat (r_table_id r) = i) rs) (rev [0..<256])"
    by (intro map_cong refl) (auto simp: of_table_def unat_of_nat intro!: filter_cong)
  also have "mset (concat \<dots>) = mset (filter (\<lambda>r. unat (r_table_id r) \<in> set (rev [0..<256])) rs)"
    by (rule mset_groups) simp
  also have "filter (\<lambda>r. unat (r_table_id r) \<in> set (rev [0..<256])) rs = rs"
    by (intro filter_True ballI) (simp add: unat_lt256)
  finally show ?thesis .
qed

lemma route_scan_result:
  assumes d: "route_dump (sks n) (upd_ns n (\<lambda>s. s\<lparr>n_rtables := []\<rparr>) w) = Some (0, resp, m)"
    and r: "route_scan env sks n w = Some (0, w')"
  shows "\<exists>rs. list_all2 (decodes (env_ntop env) (link_route w n)) resp rs \<and> n_rtables (w_ns w' n) = tables_of rs"
proof -
  let ?w = "upd_ns n (\<lambda>s. s\<lparr>n_rtables := []\<rparr>) w"
  have lnk: "link_route ?w n = link_route w n"
    by (rule ext) (simp add: link_route_def find_if_by_ifindex_def)
  obtain err t m' where a: "add_routes (env_ntop env) (link_route w n) resp Map.empty m = ((err, t), m')"
    by (metis surj_pair)
  from r have "err = 0" "w' = upd_ns n (\<lambda>s. s\<lparr>n_rtables := list_tables t\<rparr>) (?w\<lparr>w_mem := m'\<rparr>)"
    by (auto simp: route_scan_def Let_def d lnk a split: if_splits)
  with add_routes_result [of "env_ntop env" "link_route w n" resp Map.empty m t m'] a show ?thesis
    by (auto simp: list_tables_put)
qed

text \<open>
  C28: The routing tables of a name space are the routes of the dump, sorted: when the scan
  succeeds every message of the answer has been decoded into a route linked to the interfaces
  of this name space; the tables are listed by descending identifier, none is empty, each
  holds its routes in the order of the dump, and together they hold every route exactly once.
\<close>

theorem route_scan_tables:
  assumes "route_dump (sks n) (upd_ns n (\<lambda>s. s\<lparr>n_rtables := []\<rparr>) w) = Some (0, resp, m)"
    and "route_scan env sks n w = Some (0, w')"
  shows "\<exists>rs. list_all2 (decodes (env_ntop env) (link_route w n)) resp rs \<and>
    n_rtables (w_ns w' n) = map (\<lambda>i. \<lparr>rt_id = int i, rt_routes = filter (\<lambda>r. r_table_id r = word_of_nat i) rs\<rparr>)
      (filter (\<lambda>i. \<exists>r \<in> set rs. r_table_id r = word_of_nat i) (rev [0..<256])) \<and>
    mset (concat (map rt_routes (n_rtables (w_ns w' n)))) = mset rs"
proof -
  from route_scan_result [OF assms] obtain rs where
    "list_all2 (decodes (env_ntop env) (link_route w n)) resp rs" "n_rtables (w_ns w' n) = tables_of rs" by blast
  with tables_of_partition [of rs] show ?thesis
    by (intro exI [of _ rs]) (simp add: tables_of_def of_table_def filter_empty_conv)
qed

text \<open>One route by interface 2 in table 254, of a name space with the interfaces 1 and 2.\<close>

definition route_msg :: bytes where
  "route_msg = [36,0,0,0, 24,0, 2,0, 1,0,0,0, 7,0,0,0, 2,24,0,0, 254,3,0,1, 0,0,0,0, 8,0,4,0, 2,0,0,0]"

definition done_msg :: bytes where
  "done_msg = [16,0,0,0, 3,0, 2,0, 1,0,0,0, 7,0,0,0]"

definition route_sock :: sock where
  "route_sock = \<lparr>sk_open = [], sk_pid = 7, sk_rx = [Datagram 0 (route_msg @ done_msg)], sk_tx = []\<rparr>"

definition route_world :: world where
  "route_world = example_world\<lparr>w_if := (\<lambda>e. if_entry0\<lparr>i_index := word_of_nat (e + 1)\<rparr>)\<rparr>"

lemma route_msgs: "nlmsgs (take 16384 (route_msg @ done_msg)) = [route_msg @ done_msg, done_msg]"
  by (simp add: nlmsgs_more nlmsgs_short route_msg_def done_msg_def hdr_defs align4_def)

lemma route_collect: "collect \<lparr>nl_pid = 7, nl_seq = 1\<rparr> True [route_msg @ done_msg, done_msg] [] = Ret 0 [entry_of route_msg]"
  by (simp add: for_us_def msg_of_def route_msg_def done_msg_def hdr_defs NLMSG_DONE_def NLMSG_ERROR_def entry_of_def)

lemma route_dump_example:
  assumes wm: "w_mem w = []"
  shows "route_dump route_sock w = Some (0, [entry_of route_msg], [])"
proof -
  have ni: "\<not> nl_check_interrupted_dump [entry_of route_msg]"
    by (simp add: nl_check_interrupted_dump_def entry_of_def msg_of_def route_msg_def hdr_defs NLM_F_DUMP_INTR_def)
  define hd :: bytes where "hd = [16,0,0,0, 26,0, 1,3, 0,0,0,0, 0,0,0,0]"
  define msg :: bytes where "msg = [28,0,0,0, 26,0, 1,3, 0,0,0,0, 0,0,0,0] @ replicate 12 0"
  have new: "nlmsg_new RTM_GETROUTE NLM_F_DUMP [] = Some (Some \<lparr>m_data = hd, m_start = 0, m_alloc = 16384\<rparr>, [])"
    by (simp add: nlmsg_new_def nlmsg_alloc_def nlmsg_put_def nlmsg_put_raw_def nlmsg_realloc_def set_hdr_len_def
        NLMSG_BASIC_SIZE_def nlmsghdr_def le_bytes_numeral RTM_GETROUTE_def NLM_F_DUMP_def NLM_F_REQUEST_def align4_def hd_def)
  have put: "nlmsg_put \<lparr>m_data = hd, m_start = 0, m_alloc = 16384\<rparr> (replicate 12 0) [] =
      Some (0, \<lparr>m_data = msg, m_start = 0, m_alloc = 16384\<rparr>, [])"
    by (simp add: nlmsg_put_def nlmsg_put_raw_def nlmsg_realloc_def set_hdr_len_def le_bytes_numeral align4_def hd_def msg_def)
  have fl: "hdr_flags msg AND NLM_F_DUMP \<noteq> 0" by (simp add: msg_def hdr_defs NLM_F_DUMP_def)
  have "nl_exchange \<lparr>nl_pid = 7, nl_seq = 0\<rparr> \<lparr>m_data = msg, m_start = 0, m_alloc = 16384\<rparr>
      \<lparr>e_rx = [Datagram 0 (route_msg @ done_msg)], e_tx = [], e_mem = []\<rparr> =
      Some (0, [entry_of route_msg], \<lparr>nl_pid = 7, nl_seq = 1\<rparr>, \<lparr>e_rx = [], e_tx = [], e_mem = []\<rparr>)"
    using dump_exchange [of "\<lparr>nl_pid = 7, nl_seq = 0\<rparr>" "route_msg @ done_msg" "[entry_of route_msg]"
        "\<lparr>m_data = msg, m_start = 0, m_alloc = 16384\<rparr>" "[]"] route_collect route_msgs ni fl by simp
  then show ?thesis
    by (simp add: route_dump_def route_sock_def sock_env_def wm new put)
qed

lemma route_decoded: "add_routes ntop (link_route w n) [entry_of route_msg] Map.empty [] =
    ((0, [254 \<mapsto> [route0\<lparr>r_family := 2, r_table_id := 254, r_protocol := 3, r_type := 1, r_oifindex := 2,
       r_oif := find_if_by_ifindex w n 2, r_iif := find_if_by_ifindex w n 0\<rparr>]]), [])"
proof -
  have buf: "for_each_nla_buf [8,0,4,0, 2,0,0,0] = [\<lparr>a_type = 4, a_data = [2,0,0,0]\<rparr>]"
    by (simp add: for_each_nla_buf.simps [of "[8,0,4,0, 2,0,0,0]"] for_each_nla_buf.simps [of "[]"] rd_u16_def align4_def)
  have attrs: "for_each_nla \<lparr>m_data = route_msg, m_start = 28, m_alloc = al\<rparr> = [\<lparr>a_type = 4, a_data = [2,0,0,0]\<rparr>]" for al
    using buf by (simp add: for_each_nla_def route_msg_def)
  have e: "entry_of route_msg = \<lparr>m_data = route_msg, m_start = 16, m_alloc = 36\<rparr>"
    by (simp add: entry_of_def msg_of_def route_msg_def hdr_defs)
  have g: "nlmsg_get \<lparr>m_data = route_msg, m_start = 16, m_alloc = 36\<rparr> 12 =
      (Some [2,24,0,0, 254,3,0,1, 0,0,0,0, 8,0,4,0, 2,0,0,0], \<lparr>m_data = route_msg, m_start = 28, m_alloc = 36\<rparr>)"
    by (simp add: nlmsg_get_def route_msg_def align4_def)
  have t: "hdr_type route_msg = 24" by (simp add: route_msg_def hdr_defs)
  show ?thesis
    by (simp add: e g t attrs route_create_netlink_def Let_def nlmsg_attrs_def attr_table_def route_consts
        route_addr_def index_of_def nla_read_u32_def route0_def link_route_def)
qed

lemma route_scan_example:
  assumes "w_mem w = []"
  shows "\<exists>t. route_scan env (\<lambda>_. route_sock) n w = Some (0, upd_ns n (\<lambda>s. s\<lparr>n_rtables := t\<rparr>) (w\<lparr>w_mem := []\<rparr>))"
proof -
  let ?w = "upd_ns n (\<lambda>s. s\<lparr>n_rtables := []\<rparr>) w"
  have "w_mem ?w = []" using assms by simp
  note d = route_dump_example [OF this]
  have u: "upd_ns n (\<lambda>s. s\<lparr>n_rtables := t\<rparr>) (?w\<lparr>w_mem := m\<rparr>) = upd_ns n (\<lambda>s. s\<lparr>n_rtables := t\<rparr>) (w\<lparr>w_mem := m\<rparr>)" for t m
    by (simp add: upd_ns_def)
  obtain t where a: "add_routes (env_ntop env) (link_route ?w n) [entry_of route_msg] Map.empty [] = ((0, t), [])"
    using route_decoded [of "env_ntop env" ?w n] by blast
  have "route_scan env (\<lambda>_. route_sock) n w = Some (0, upd_ns n (\<lambda>s. s\<lparr>n_rtables := list_tables t\<rparr>) (w\<lparr>w_mem := []\<rparr>))"
    by (simp add: route_scan_def d Let_def a u del: add_routes.simps)
  then show ?thesis by blast
qed

theorem route_scan_tables_witness:
  "\<exists>w'. route_scan example_env (\<lambda>_. route_sock) 0 route_world = Some (0, w') \<and>
    size (mset (concat (map rt_routes (n_rtables (w_ns w' 0))))) = 1"
proof -
  let ?w = "upd_ns 0 (\<lambda>s. s\<lparr>n_rtables := []\<rparr>) route_world"
  have d: "route_dump ((\<lambda>_. route_sock) 0) ?w = Some (0, [entry_of route_msg], [])"
    by (rule route_dump_example) (simp add: route_world_def example_world_def)
  have "w_mem route_world = []" by (simp add: route_world_def example_world_def)
  from route_scan_example [OF this] obtain w' where r: "route_scan example_env (\<lambda>_. route_sock) 0 route_world = Some (0, w')" by blast
  from route_scan_tables [OF d r] obtain rs where
    rs: "list_all2 (decodes (env_ntop example_env) (link_route route_world 0)) [entry_of route_msg] rs"
      "mset (concat (map rt_routes (n_rtables (w_ns w' 0)))) = mset rs" by blast
  have "size (mset (concat (map rt_routes (n_rtables (w_ns w' 0))))) = 1"
    unfolding rs(2) using list_all2_lengthD [OF rs(1)] by simp
  with r show ?thesis by blast
qed

end
