(* ===== verification/Registry.thy ===== *)
theory Registry
  imports Bond Devices Encap Team Veth RouteH
begin

text \<open>
  The handlers of the program together (\<open>register_handlers\<close> of \<open>main.c\<close>), and what the contract
  of \<open>handler.c\<close> gives for them: every phase keeps the relations between interfaces
  consistent, the reading phases keep everything but the handlers' own bookkeeping, and the
  callbacks run are those of the interface's driver.
\<close>

definition register_handlers :: "'j json_reader \<Rightarrow> (string \<Rightarrow> teamd) \<Rightarrow> env \<Rightarrow> if_handler list" where
  "register_handlers J teamds env =
     foldl (\<lambda>hs h. if_handler_register h hs) []
       ([h_bond env, h_bridge env, h_geneve env] @ h_gre env @ [h_iov env] @ h_ipxipy env @
        [h_macsec, h_team J teamds, h_veth env, h_vlan] @ h_vti env @ [h_vxlan env, h_xfrm])"

definition register_netns_handlers :: "env \<Rightarrow> (nsp \<Rightarrow> sock) \<Rightarrow> netns_handler list" where
  "register_netns_handlers env sks = netns_handler_register (h_route env sks) []"

lemma foldl_register: "foldl (\<lambda>hs h. if_handler_register h hs) gs hs = gs @ hs"
  by (induction hs arbitrary: gs) (simp_all add: if_handler_register_def)

lemmas handler_defs = h_bond_def h_bridge_def h_geneve_def h_gre_def h_iov_def h_ipxipy_def h_macsec_def h_team_def
  h_veth_def h_vlan_def h_vti_def h_vxlan_def h_xfrm_def no_handler_def

lemma handlers_list:
  "register_handlers J teamds env = [h_bond env, h_bridge env, h_geneve env] @ h_gre env @ [h_iov env] @ h_ipxipy env @
     [h_macsec, h_team J teamds, h_veth env, h_vlan] @ h_vti env @ [h_vxlan env, h_xfrm]"
  by (simp only: register_handlers_def foldl_register append_Nil)

lemmas reading_callbacks = keeps_bond(1,2) keeps_devices(1-5) keeps_team(1) keeps_veth_scan

lemma keeps_variants:
  assumes P: "on_links P"
  shows "keeps P (gre_netlink env e li)" "keeps P (gre6_netlink env e li)" "keeps P (vti4_netlink env e li)"
    "keeps P (vti6_netlink env e li)" "keeps P (ipip_netlink env e li)" "keeps P (sit_netlink env e li)"
    "keeps P (ipxip6_netlink env e li)"
  by (simp_all add: gre_netlink_def gre6_netlink_def vti4_netlink_def vti6_netlink_def ipip_netlink_def sit_netlink_def
      ipxip6_netlink_def keeps_tunnel_netlink [OF P])

lemma all_netlink:
  assumes P: "on_links P" and h: "h \<in> set (register_handlers J teamds env)" "h_netlink h = Some f"
  shows "keeps P (f e li)"
  using h by (auto simp: handlers_list handler_defs keeps_variants [OF P] keeps_tunnel_netlink [OF P]
      keeps_bond(1) [OF P] keeps_devices [OF P])

lemma all_scan:
  assumes P: "on_links P" and h: "h \<in> set (register_handlers J teamds env)" "h_scan h = Some f"
  shows "keeps P (f e)"
  using h by (auto simp: handlers_list handler_defs keeps_bond(2) [OF P] keeps_devices [OF P] keeps_team [OF P]
      keeps_veth_scan [OF P])

lemma all_cleanup:
  assumes P: "on_links P" and h: "h \<in> set (register_handlers J teamds env)" "h_cleanup h = Some f"
  shows "keeps P (f e)"
  using h by (auto simp: handlers_list handler_defs keeps_bond(4) [OF P] keeps_devices [OF P] keeps_team [OF P])

lemma reads_all: "on_links P \<Longrightarrow> reader (register_handlers J teamds env) P"
  by unfold_locales (auto intro: all_netlink all_scan)

context relating begin

lemma all_post:
  assumes h: "h \<in> set (register_handlers J teamds env)" "h_post h = Some f" and e: "e \<in> A"
  shows "keeps P (f e)"
  using h by (auto simp: handlers_list handler_defs keeps_bond(3) [OF links_only] keeps_devices [OF links_only]
      keeps_team [OF links_only] iov_post_keeps [OF e] veth_post_keeps [OF e] tunnel_post_keeps [OF e])

end

text \<open>What resolution keeps, every phase of the registered handlers keeps.\<close>

sublocale relating \<subseteq> phases: registry "register_handlers J teamds env" P A for J teamds env
  by unfold_locales (auto intro: all_netlink all_scan all_cleanup all_post links_only dest: listed_in)

text \<open>
  Every listed interface is listed once, below the next free entry, knows its name space and
  has a driver or is internal to Open vSwitch.
\<close>

definition placed :: "world \<Rightarrow> bool" where
  "placed w \<longleftrightarrow> (\<forall>n. distinct (n_ifaces (w_ns w n)) \<and>
     (\<forall>e \<in> set (n_ifaces (w_ns w n)). i_ns (w_if w e) = n \<and>
        (i_driver (w_if w e) \<noteq> None \<or> i_internal_ns (w_if w e) \<noteq> None) \<and> e < w_next w))"

lemma on_links_placed: "on_links placed"
  unfolding on_links_def
proof (intro allI impI)
  fix v w assume p: "placed v" and s: "same_links v w"
  have "if_links (w_if w e) = if_links (w_if v e)" for e using s by (simp add: same_links_def)
  then have e: "i_ns (w_if w e) = i_ns (w_if v e)" "i_driver (w_if w e) = i_driver (w_if v e)"
    "i_internal_ns (w_if w e) = i_internal_ns (w_if v e)" for e by (simp_all add: if_links_def)
  from p s show "placed w" unfolding placed_def e by (simp add: same_links_def)
qed

lemma placed_if:
  assumes "\<And>i. i_ns (f i) = i_ns i \<and> i_driver (f i) = i_driver i \<and> i_internal_ns (f i) = i_internal_ns i"
  shows "placed w \<Longrightarrow> placed (upd_if e f w)"
  using assms by (simp add: placed_def)

lemma placed_peer_one: "placed w \<Longrightarrow> placed (peer_set_one a b w)"
  by (auto simp: peer_set_one_def Let_def split: option.splits intro!: placed_if)

interpretation placing: relating placed UNIV
proof unfold_locales
  show "keeps placed (master_set t e)" for t e
    unfolding master_set_def Let_def by (intro keeps_assign) (auto split: option.splits intro!: placed_if)
  show "keeps placed (link_set t e)" for t e
    unfolding link_set_def Let_def
    by (cases e) (auto split: option.splits intro!: keeps_assign keeps_return_err placed_if)
  show "keeps placed (peer_set a b)" for a b
    unfolding peer_set_def by (intro keeps_andthen keeps_assign placed_peer_one)
  show "keeps placed (assign (upd_if e (\<lambda>i. i\<lparr>i_physfn := t\<rparr>)))" for e t
    by (intro keeps_assign placed_if) simp_all
qed (auto simp: on_links_placed)

text \<open>
  Whatever the kernel and the files say, no phase of the handlers the program registers
  (initialisation, netlink, scan, post, cleanup) breaks the relations between interfaces:
  reverse lists and peers stay consistent, also where a callback fails.
\<close>

lemma handler_phases_consistent:
  "keeps relations_ok (if_handler_init (register_handlers J teamds env) e) \<and>
   keeps relations_ok (if_handler_netlink (register_handlers J teamds env) e li) \<and>
   keeps relations_ok (if_handler_scan (register_handlers J teamds env) e) \<and>
   keeps relations_ok (if_handler_post (register_handlers J teamds env)) \<and>
   keeps relations_ok (if_handler_cleanup (register_handlers J teamds env) e)"
  by (intro conjI consistency.phases.init_keeps consistency.phases.netlink_phase_keeps consistency.phases.scan_phase_keeps
      consistency.phases.post_phase_keeps consistency.phases.cleanup_phase_keeps)

section \<open>Dispatch\<close>

lemma on_links_driver_is: "on_links (\<lambda>w. i_driver (w_if w e) = d)"
  by (auto simp: on_links_def same_links_def if_links_def)

lemma keeps_driver_callback:
  assumes "\<And>P f. on_links P \<Longrightarrow> callback = Some f \<Longrightarrow> keeps P (f e)"
  shows "keeps_driver e (handler_callback callback e)"
  unfolding keeps_driver_def handler_callback_def
  by (auto split: option.splits intro!: keeps_return_err assms on_links_driver_is)

lemma one_of_distinct: "distinct xs \<Longrightarrow> filter (\<lambda>x. x = y) xs = (if y \<in> set xs then [y] else [])"
  by (induction xs) (auto simp: filter_empty_conv)

lemma one_per_driver:
  assumes "distinct (filter (\<lambda>d. d \<noteq> None) (map h_driver hs))"
  shows "map h_driver (filter (\<lambda>h. h_driver h \<noteq> None) (handlers_for hs (Some d))) =
    (if Some d \<in> h_driver ` set hs then [Some d] else [])"
proof -
  have "map h_driver (filter (\<lambda>h. h_driver h \<noteq> None) (handlers_for hs (Some d))) =
      filter (\<lambda>x. x = Some d) (filter (\<lambda>d. d \<noteq> None) (map h_driver hs))"
    by (induction hs) (auto simp: handlers_for_def)
  then show ?thesis using one_of_distinct [OF assms, of "Some d"] by auto
qed

lemma distinct_drivers: "distinct (filter (\<lambda>d. d \<noteq> None) (map h_driver (register_handlers J teamds env)))"
  by (simp add: handlers_list handler_defs)

lemma scan_dispatch:
  "if_handler_scan (register_handlers J teamds env) e w =
     each_act (\<lambda>h. handler_callback (h_scan h) e) (handlers_for (register_handlers J teamds env) (i_driver (w_if w e))) w"
  unfolding if_handler_scan_def
  by (rule dispatch) (auto intro!: keeps_driver_callback all_scan)

lemma netlink_dispatch:
  "if_handler_netlink (register_handlers J teamds env) e li w =
     each_act (\<lambda>h. handler_callback (map_option (\<lambda>f e. f e li) (h_netlink h)) e)
       (handlers_for (register_handlers J teamds env) (i_driver (w_if w e))) w"
  unfolding if_handler_netlink_def
  by (rule dispatch) (auto intro!: keeps_driver_callback intro: all_netlink)

text \<open>
  An interface is handled by its driver: the netlink and the scan phase call exactly the
  handlers registered for its driver and those for all drivers, in the order of registration,
  although each callback may change the interface; and no driver has two handlers.
\<close>

lemma handlers_dispatched:
  "if_handler_scan (register_handlers J teamds env) e w =
     each_act (\<lambda>h. handler_callback (h_scan h) e) (handlers_for (register_handlers J teamds env) (i_driver (w_if w e))) w \<and>
   if_handler_netlink (register_handlers J teamds env) e li w =
     each_act (\<lambda>h. handler_callback (map_option (\<lambda>f e. f e li) (h_netlink h)) e)
       (handlers_for (register_handlers J teamds env) (i_driver (w_if w e))) w \<and>
   map h_driver (filter (\<lambda>h. h_driver h \<noteq> None) (handlers_for (register_handlers J teamds env) (Some d))) =
     (if Some d \<in> h_driver ` set (register_handlers J teamds env) then [Some d] else [])"
  by (intro conjI scan_dispatch netlink_dispatch one_per_driver [OF distinct_drivers])

section \<open>Reading a name space\<close>

lemma first_handler: "\<exists>hs. register_handlers J teamds env = h_bond env # hs \<and> h_driver (h_bond env) \<noteq> None"
  by (simp add: handlers_list h_bond_def)

lemma if_list_read:
  assumes "if_dumps sk (upd_ns n (\<lambda>s. s\<lparr>n_ifaces := []\<rparr>) w) = Some (0, linfo, ainfo, m)"
    and "if_list (register_handlers J teamds env) env sk n w = Some (0, w')"
  shows "read_so_far n (w_next w) w linfo w'"
proof -
  from first_handler [of J teamds env] obtain hs where
    h: "register_handlers J teamds env = h_bond env # hs" "h_driver (h_bond env) \<noteq> None" by blast
  show ?thesis
    by (rule if_list_result [OF h(2) _ assms(1) assms(2) [unfolded h(1)]]) (use reads_all [of _ J teamds env] h(1) in simp)
qed

lemma if_list_dumped:
  "if_list hs env sk n w = Some (0, w') \<Longrightarrow>
    \<exists>linfo ainfo m. if_dumps sk (upd_ns n (\<lambda>s. s\<lparr>n_ifaces := []\<rparr>) w) = Some (0, linfo, ainfo, m)"
  by (auto simp: if_list_def andthen_0 assign_def split: option.splits if_splits)

lemma if_list_placed:
  assumes r: "if_list (register_handlers J teamds env) env sk n w = Some (0, w')" and p: "placed w"
  shows "placed w'"
proof -
  from if_list_dumped [OF r] obtain linfo ainfo m where
    "if_dumps sk (upd_ns n (\<lambda>s. s\<lparr>n_ifaces := []\<rparr>) w) = Some (0, linfo, ainfo, m)" by blast
  from if_list_read [OF this r]
  have x: "w_next w \<le> w_next w'" "n_ifaces (w_ns w' n) = [w_next w..<w_next w']"
    "list_all2 (\<lambda>e l. shows_link n l (w_if w' e)) [w_next w..<w_next w'] linfo"
    "\<And>k. k \<noteq> n \<Longrightarrow> n_ifaces (w_ns w' k) = n_ifaces (w_ns w k)"
    "\<And>x. x < w_next w \<Longrightarrow> if_links (w_if w' x) = if_links (w_if w x)" by (auto simp: read_so_far_def)
  have same: "i_ns (w_if w' x) = i_ns (w_if w x) \<and> i_driver (w_if w' x) = i_driver (w_if w x) \<and>
      i_internal_ns (w_if w' x) = i_internal_ns (w_if w x)" if "x < w_next w" for x
    using x(5) [OF that] by (simp add: if_links_def)
  have new: "i_ns (w_if w' e) = n \<and> i_driver (w_if w' e) \<noteq> None" if "e \<in> set [w_next w..<w_next w']" for e
    using that list_all2_nthD [OF x(3), of "e - w_next w"] by (auto simp: shows_link_def)
  show ?thesis
    unfolding placed_def
  proof (intro allI conjI ballI)
    fix k
    show "distinct (n_ifaces (w_ns w' k))" using p x(2,4) by (cases "k = n") (auto simp: placed_def)
    fix e
    assume e: "e \<in> set (n_ifaces (w_ns w' k))"
    show "i_ns (w_if w' e) = k" "i_driver (w_if w' e) \<noteq> None \<or> i_internal_ns (w_if w' e) \<noteq> None" "e < w_next w'"
      using e p x(1,2,4) new same by (cases "k = n"; fastforce simp: placed_def)+
  qed
qed

text \<open>A dump with the loopback interface only, and no addresses.\<close>

definition lo_msg :: bytes where
  "lo_msg = [40,0,0,0, 16,0, 2,0, 1,0,0,0, 7,0,0,0, 0,0,4,3, 1,0,0,0, 73,0,1,0, 0,0,0,0, 7,0,3,0, 108,111,0,0]"

definition end_msg :: "u8 \<Rightarrow> bytes" where
  "end_msg k = [16,0,0,0, 3,0, 2,0, k,0,0,0, 7,0,0,0]"

definition lo_sock :: sock where
  "lo_sock = \<lparr>sk_open = [], sk_pid = 7, sk_rx = [Datagram 0 (lo_msg @ end_msg 1), Datagram 0 (end_msg 2)], sk_tx = []\<rparr>"

definition empty_world :: world where
  "empty_world = example_world\<lparr>w_if := (\<lambda>_. if_entry0), w_next := 0\<rparr>"

definition dump_req :: "u8 \<Rightarrow> nlmsg" where
  "dump_req ty = \<lparr>m_data = [32,0,0,0, ty,0, 1,3, 0,0,0,0, 0,0,0,0] @ 0 # replicate 15 0, m_start = 0, m_alloc = 16384\<rparr>"

lemma dump_reqs:
  "rtnlmsg_new 18 0 NLM_F_DUMP ifinfomsg_size [] = Some (Some (dump_req 18), [])"
  "rtnlmsg_new 22 0 NLM_F_DUMP ifinfomsg_size [] = Some (Some (dump_req 22), [])"
  by (simp_all add: rtnlmsg_new_def nlmsg_new_def nlmsg_alloc_def nlmsg_put_def nlmsg_put_padded_def nlmsg_put_raw_def
      nlmsg_realloc_def set_hdr_len_def NLMSG_BASIC_SIZE_def nlmsghdr_def le_bytes_numeral NLM_F_DUMP_def
      NLM_F_REQUEST_def align4_def ifinfomsg_size_def dump_req_def)

lemma dump_req_flags: "hdr_flags (m_data (dump_req ty)) AND NLM_F_DUMP \<noteq> 0"
  by (simp add: dump_req_def hdr_defs NLM_F_DUMP_def)

lemma lo_msgs: "nlmsgs (take 16384 (lo_msg @ end_msg 1)) = [lo_msg @ end_msg 1, end_msg 1]"
  "nlmsgs (take 16384 (end_msg 2)) = [end_msg 2]"
  by (simp_all add: nlmsgs_more nlmsgs_short lo_msg_def end_msg_def hdr_defs align4_def)

lemma lo_collect:
  "collect \<lparr>nl_pid = 7, nl_seq = 1\<rparr> True [lo_msg @ end_msg 1, end_msg 1] [] = Ret 0 [entry_of lo_msg]"
  "collect \<lparr>nl_pid = 7, nl_seq = 2\<rparr> True [end_msg 2] [] = Ret 0 []"
  by (simp_all add: for_us_def msg_of_def lo_msg_def end_msg_def hdr_defs NLMSG_DONE_def NLMSG_ERROR_def entry_of_def)

lemma lo_dumps:
  assumes "w_mem w = []"
  shows "if_dumps lo_sock w = Some (0, [entry_of lo_msg], [], [])"
proof -
  have ni: "\<not> nl_check_interrupted_dump [entry_of lo_msg]" "\<not> nl_check_interrupted_dump []"
    by (simp_all add: nl_check_interrupted_dump_def entry_of_def msg_of_def lo_msg_def hdr_defs NLM_F_DUMP_INTR_def)
  have x1: "nl_exchange \<lparr>nl_pid = 7, nl_seq = 0\<rparr> (dump_req 18)
      \<lparr>e_rx = [Datagram 0 (lo_msg @ end_msg 1), Datagram 0 (end_msg 2)], e_tx = [], e_mem = []\<rparr> =
      Some (0, [entry_of lo_msg], \<lparr>nl_pid = 7, nl_seq = 1\<rparr>, \<lparr>e_rx = [Datagram 0 (end_msg 2)], e_tx = [], e_mem = []\<rparr>)"
    using dump_exchange [of "\<lparr>nl_pid = 7, nl_seq = 0\<rparr>" "lo_msg @ end_msg 1" "[entry_of lo_msg]" "dump_req 18"]
      lo_msgs lo_collect ni dump_req_flags by simp
  have x2: "nl_exchange \<lparr>nl_pid = 7, nl_seq = 1\<rparr> (dump_req 22) \<lparr>e_rx = [Datagram 0 (end_msg 2)], e_tx = [], e_mem = []\<rparr> =
      Some (0, [], \<lparr>nl_pid = 7, nl_seq = 2\<rparr>, \<lparr>e_rx = [], e_tx = [], e_mem = []\<rparr>)"
    using dump_exchange [of "\<lparr>nl_pid = 7, nl_seq = 1\<rparr>" "end_msg 2" "[]" "dump_req 22" "[]"]
      lo_msgs lo_collect ni dump_req_flags by simp
  show ?thesis
    by (simp add: if_dumps_def rtnl_ifi_dump_def sock_env_def lo_sock_def assms RTM_GETLINK_def RTM_GETADDR_def dump_reqs x1 x2)
qed

lemma lo_attrs: "for_each_nla \<lparr>m_data = lo_msg, m_start = 32, m_alloc = al\<rparr> = [\<lparr>a_type = 3, a_data = [108,111,0]\<rparr>]"
proof -
  have "for_each_nla_buf [7,0,3,0, 108,111,0,0] = [\<lparr>a_type = 3, a_data = [108,111,0]\<rparr>]"
    by (simp add: for_each_nla_buf.simps [of "[7,0,3,0, 108,111,0,0]"] for_each_nla_buf.simps [of "[]"] rd_u16_def align4_def)
  then show ?thesis by (simp add: for_each_nla_def lo_msg_def)
qed

lemma lo_init: "i_driver (w_if w e) = Some ''loopback'' \<Longrightarrow> if_handler_init (register_handlers J teamds env) e w = Some (0, w)"
  by (simp add: handlers_list handler_defs reading_def return_err_def)

lemma lo_handlers: "handlers_for (register_handlers J teamds env) (Some ''loopback'') = [h_bridge env, h_iov env]"
  by (simp add: handlers_list handler_defs handlers_for_def)

lemma lo_netlink:
  assumes "i_driver (w_if w e) = Some ''loopback''"
  shows "if_handler_netlink (register_handlers J teamds env) e li w = Some (0, w)"
  by (simp add: netlink_dispatch assms lo_handlers h_bridge_def h_iov_def no_handler_def handler_callback_def
      return_err_def andthen_def ok_act_def)

text \<open>What is read of the loopback interface: nothing that has to be resolved.\<close>

definition idle :: "if_entry \<Rightarrow> bool" where
  "idle i \<longleftrightarrow> i_driver i = Some ''loopback'' \<and> i_name i = ''lo'' \<and> i_master_index i = 0 \<and> i_link_index i = 0 \<and>
     i_link_netnsid i = -1 \<and> i_peer_netnsid i = -1 \<and> i_pci_physfn_path i = None \<and>
     i_addr i = [] \<and> mac_raw (i_mac_addr i) = NullPtr \<and> mac_formatted (i_mac_addr i) = NullPtr \<and> i_private i = NullPtr"

lemma lo_link:
  assumes "w_mem w = []" and "w_if w e = if_entry0\<lparr>i_ns := n\<rparr>"
  shows "\<exists>v. fill_if_link (register_handlers J teamds env) env e (entry_of lo_msg) w = Some (0, v) \<and>
    idle (w_if v e) \<and> w_mem v = [] \<and> w_ns v = w_ns w \<and> w_list v = w_list w \<and> w_ovs v = w_ovs w"
proof -
  have e: "entry_of lo_msg = \<lparr>m_data = lo_msg, m_start = 16, m_alloc = 40\<rparr>"
    by (simp add: entry_of_def msg_of_def lo_msg_def hdr_defs)
  have g: "nlmsg_get \<lparr>m_data = lo_msg, m_start = 16, m_alloc = 40\<rparr> 16 =
      (Some (drop 16 lo_msg), \<lparr>m_data = lo_msg, m_start = 32, m_alloc = 40\<rparr>)"
    by (simp add: nlmsg_get_def lo_msg_def align4_def)
  have t: "hdr_type lo_msg = RTM_NEWLINK" "ifi_flags (drop 16 lo_msg) = 65609"
    by (simp_all add: lo_msg_def hdr_defs RTM_NEWLINK_def ifi_flags_def)
  have nm: "nla_read_str \<lparr>a_type = 3, a_data = [108,111,0]\<rparr> = ''lo''"
    by (simp add: nla_read_str_def cstr_def char_of_eq_iff take_bit_nat_def)
  show ?thesis
    by (simp add: e g t nm fill_if_link_def mem_call_def nlmsg_attrs_def assms lo_attrs attr_table_def
        IFLA_MAX_def IFLA_IFNAME_def andthen_def set_if_def assign_def link_named_def or_undo_def if_alloc_def
        link_details_def link_info_def IFLA_LINKINFO_def fill_mac_def IFLA_ADDRESS_def ok_act_def link_driver_def
        fill_driver_def IFF_LOOPBACK_def set_driver_def branch_def fill_if_xdp_def IFLA_XDP_def return_err_def
        lo_init tolerate_def lo_netlink copy_attrs_def Let_def idle_def if_entry0_def mac_addr_init_def IFLA_MASTER_def IFLA_LINK_def IFLA_LINK_NETNSID_def IFLA_MTU_def)
qed

definition quiet_env :: env where
  "quiet_env = example_env\<lparr>env_sysfs := (\<lambda>_. example_sysfs\<lparr>sf_open := (\<lambda>_. ENOENT)\<rparr>)\<rparr>"

lemma lo_scan:
  assumes "idle (w_if w e)" and "w_mem w = []"
  shows "if_handler_scan (register_handlers J teamds quiet_env) e w = Some (0, w)"
proof -
  have "w\<lparr>w_mem := []\<rparr> = w" using assms(2) by simp
  with assms show ?thesis
    by (simp add: idle_def scan_dispatch lo_handlers h_bridge_def h_iov_def no_handler_def handler_callback_def
        return_err_def andthen_def ok_act_def bridge_scan_def iov_scan_def reading_def mem_call_def sysfs_readfile_def
        sysfs_realpath_def sysfs_of_def quiet_env_def example_env_def example_sysfs_def Let_def if_alloc_def assign_def errno_defs)
qed

lemma lo_read:
  assumes "w_mem w = []" and "w_next w = 0"
  shows "\<exists>w'. if_list (register_handlers J teamds quiet_env) quiet_env lo_sock 0 w = Some (0, w') \<and>
    n_ifaces (w_ns w' 0) = [0] \<and> idle (w_if w' 0) \<and> w_mem w' = [] \<and> w_list w' = w_list w \<and> w_ovs w' = w_ovs w \<and>
    n_pid (w_ns w' 0) = n_pid (w_ns w 0)"
proof -
  let ?hs = "register_handlers J teamds quiet_env"
  have mem: "w_mem (upd_ns 0 f w) = []" for f using assms by simp
  define W where "W = (upd_ns 0 (\<lambda>s. s\<lparr>n_ifaces := []\<rparr>) w)\<lparr>w_mem := []\<rparr>"
  have W: "w_list W = w_list w" "n_ifaces (w_ns W 0) = []" "w_ovs W = w_ovs w" "n_pid (w_ns W 0) = n_pid (w_ns w 0)"
    by (simp_all add: W_def)
  obtain W1 where c: "if_create W = (Some 0, W1)" "w_mem W1 = []" "w_if W1 0 = if_entry0" "w_ns W1 = w_ns W" "w_list W1 = w_list W" "w_ovs W1 = w_ovs W"
    using assms by (auto simp: if_create_def W_def Let_def)
  define w0 where "w0 = upd_if 0 (\<lambda>i. i\<lparr>i_ns := 0\<rparr>) (upd_ns 0 (\<lambda>s. s\<lparr>n_ifaces := n_ifaces s @ [0]\<rparr>) W1)"
  have "w_mem w0 = []" "w_if w0 0 = if_entry0\<lparr>i_ns := 0\<rparr>" by (simp_all add: w0_def c)
  from lo_link [OF this, of J teamds quiet_env] obtain v where v: "fill_if_link ?hs quiet_env 0 (entry_of lo_msg) w0 = Some (0, v)"
    "idle (w_if v 0)" "w_mem v = []" "w_ns v = w_ns w0" "w_list v = w_list w0" "w_ovs v = w_ovs w0" by blast
  have "read_link ?hs quiet_env 0 [] (entry_of lo_msg) W = Some (0, v)"
    using v(1) lo_scan [OF v(2,3), of J teamds]
    by (simp add: read_link_def c(1) andthen_def set_if_def assign_def fill_if_addr_def ok_act_def return_err_def flip: w0_def)
  then have "if_list ?hs quiet_env lo_sock 0 w = Some (0, v)"
    by (simp add: if_list_def andthen_def assign_def lo_dumps [OF mem] return_err_def ok_act_def flip: W_def)
  with v show ?thesis by (auto simp: w0_def c W)
qed

text \<open>A JSON library that decodes nothing, and no team daemon.\<close>

definition no_json :: "unit json_reader" where
  "no_json = \<lparr>jr_loads = (\<lambda>_. None), jr_get = (\<lambda>_ _. None), jr_string = (\<lambda>_. None), jr_integer = (\<lambda>_. None),
     jr_error = (\<lambda>_. []), jr_strerror = (\<lambda>_. [])\<rparr>"

definition no_teamd :: teamd where
  "no_teamd = \<lparr>td_connect = -2, td_write = Inr 0, td_select = Inr True, td_reads = []\<rparr>"

end
