(* ===== verification/ReadFrame.thy ===== *)
theory ReadFrame
  imports Registry
begin

text \<open>
  What reading an interface leaves alone: the netlink and scan callbacks of all handlers, and
  the rest of \<open>read_link\<close>, write to no entry but the one that is being read.  And what it
  leaves behind when the link information lacks the data of the driver.
\<close>

section \<open>Steps that stay with their entry\<close>

definition apart :: "ifp \<Rightarrow> (ifp \<Rightarrow> if_entry) \<Rightarrow> world \<Rightarrow> bool" where
  "apart e g w \<longleftrightarrow> (\<forall>x. x \<noteq> e \<longrightarrow> w_if w x = g x)"

lemma apart_mem: "apart e g w \<Longrightarrow> apart e g (w\<lparr>w_mem := m\<rparr>)"
  by (simp add: apart_def)

lemma apart_upd: "apart e g w \<Longrightarrow> apart e g (upd_if e f w)"
  by (simp add: apart_def)

lemma apart_upd_ns: "apart e g w \<Longrightarrow> apart e g (upd_ns n f w)"
  by (simp add: apart_def)

lemma apart_assign: "keeps (apart e g) (assign (upd_if e f))"
  by (rule keeps_assign) (rule apart_upd)

lemma apart_set_if: "keeps (apart e g) (set_if e f)"
  unfolding set_if_def by (rule apart_assign)

lemma apart_alloc: "keeps (apart e g) f \<Longrightarrow> keeps (apart e g) f' \<Longrightarrow> keeps (apart e g) (if_alloc f f')"
  by (intro keeps_if_alloc) (rule apart_mem)

lemma apart_mem_call: "(\<And>x. keeps (apart e g) (k x)) \<Longrightarrow> keeps (apart e g) (mem_call f k)"
  by (intro keeps_mem_call) (rule apart_mem)

lemma apart_attrs: "(\<And>tb. keeps (apart e g) (k tb)) \<Longrightarrow> keeps (apart e g) err \<Longrightarrow> keeps (apart e g) (with_attrs a mx k err)"
  unfolding with_attrs_def by (intro apart_mem_call keeps_option)

lemma apart_prop: "keeps (apart e g) (if_add_prop type e key val)"
proof (rule keepsI)
  fix w err v
  assume w: "apart e g w" and r: "if_add_prop type e key val w = Some (err, v)"
  from if_add_prop_total [of type e key val w] r obtain ps m where
    "v = upd_if e (\<lambda>i. i\<lparr>i_properties := ps\<rparr>) (w\<lparr>w_mem := m\<rparr>)" by auto
  with apart_upd [OF apart_mem [OF w]] show "apart e g v" by simp
qed

lemmas apart_plain = keeps_ok keeps_andthen keeps_ignoring keeps_return_err keeps_crash keeps_branch keeps_if keeps_option keeps_each
  keeps_reading keeps_opt_attr keeps_with_vxlan keeps_with_bond keeps_with_team

lemma apart_warning: "keeps (apart e g) (if_add_warning e t)"
  unfolding if_add_warning_def Let_def
  by (intro apart_plain apart_mem_call apart_alloc)
    (auto intro!: apart_plain apart_mem_call keeps_assign apart_upd apart_upd_ns)

lemma apart_labels: "keeps (apart e g) (if_add_config e key val)" "keeps (apart e g) (if_add_state e key val)"
  by (simp_all add: if_add_config_def if_add_state_def apart_prop)

lemma apart_warn: "keeps (apart e g) (warn e t)"
  unfolding warn_def by (intro apart_plain apart_warning)

lemma apart_edge_label: "keeps (apart e g) (set_edge_label e t)"
  unfolding set_edge_label_def by (intro apart_alloc apart_assign apart_plain)

lemma apart_read_addr: "(\<And>err a. keeps (apart e g) (k err a)) \<Longrightarrow> keeps (apart e g) (read_addr env family prefixlen a k)"
  unfolding read_addr_def by (intro apart_mem_call) (auto split: prod.splits)

lemma apart_config: "keeps (apart e g) (config_addr e key a)" "keeps (apart e g) (config_num e key n)" "keeps (apart e g) (config_text e key v)"
  unfolding config_addr_def config_num_def config_text_def
  by (auto split: option.splits bool.splits intro!: apart_plain apart_labels)

lemma apart_remote_addr: "keeps (apart e g) (remote_addr env family e key a)"
  unfolding remote_addr_def by (intro apart_read_addr apart_plain apart_config)

lemma apart_private: "keeps (apart e g) (set_private e p)" "keeps (apart e g) (set_bond e b)"
  unfolding set_private_def set_bond_def by (intro apart_assign)+

lemma apart_or_free: "keeps (apart e g) f \<Longrightarrow> keeps (apart e g) (or_free_priv e f)"
proof (rule keepsI)
  fix w err v
  assume f: "keeps (apart e g) f" and w: "apart e g w" and r: "or_free_priv e f w = Some (err, v)"
  then obtain err1 u where u: "f w = Some (err1, u)" by (auto simp: or_free_priv_def split: option.splits)
  from keepsD [OF f w u] have "apart e g u" .
  with r u show "apart e g v" by (auto simp: or_free_priv_def apart_upd split: if_splits)
qed

lemma apart_new_private: "keeps (apart e g) f \<Longrightarrow> keeps (apart e g) (new_private e q f)"
  unfolding new_private_def by (intro apart_plain apart_alloc apart_private)

lemma apart_local_addr: "keeps (apart e g) (local_addr env family e a)"
  unfolding local_addr_def by (intro apart_plain apart_read_addr apart_config apart_alloc apart_mem_call apart_private apart_new_private)

lemmas apart_steps = apart_plain apart_alloc apart_mem_call apart_attrs apart_labels apart_warning apart_warn apart_edge_label
  apart_read_addr apart_config apart_remote_addr apart_private apart_or_free apart_new_private apart_local_addr apart_assign apart_set_if

section \<open>The callbacks of the reading phases\<close>

lemma apart_bond: "keeps (apart e g) (bond_netlink e li)" "keeps (apart e g) (bond_scan env e)"
proof -
  show "keeps (apart e g) (bond_netlink e li)"
    unfolding bond_netlink_def by (intro apart_steps)
  show "keeps (apart e g) (bond_scan env e)"
    unfolding bond_scan_def by (intro apart_steps) (auto split: option.splits intro!: apart_steps)
qed

lemma apart_devices:
  "keeps (apart e g) (bridge_scan env e)" "keeps (apart e g) (vlan_netlink e li)" "keeps (apart e g) (macsec_netlink e li)"
  "keeps (apart e g) (xfrm_netlink e li)" "keeps (apart e g) (iov_scan env e)" "keeps (apart e g) (veth_scan env e)"
proof -
  show "keeps (apart e g) (bridge_scan env e)"
    unfolding bridge_scan_def by (intro apart_steps) (auto split: prod.splits option.splits intro!: apart_steps)
  show "keeps (apart e g) (vlan_netlink e li)"
    unfolding vlan_netlink_def by (intro apart_steps) (auto split: cptr.splits hpriv.splits intro!: apart_steps)
  show "keeps (apart e g) (macsec_netlink e li)" unfolding macsec_netlink_def by (intro apart_steps)
  show "keeps (apart e g) (xfrm_netlink e li)" unfolding xfrm_netlink_def by (intro apart_steps)
  show "keeps (apart e g) (iov_scan env e)"
    unfolding iov_scan_def by (intro apart_steps) (auto split: sum.splits intro!: apart_steps)
  show "keeps (apart e g) (veth_scan env e)"
    unfolding veth_scan_def by (auto split: option.splits intro!: apart_steps)
qed

lemma apart_team: "keeps (apart e g) (team_scan J teamds e)"
proof -
  have r: "keeps (apart e g) (team_parse_runner J r e)" for r
    unfolding team_parse_runner_def by (intro apart_steps)
  have "keeps (apart e g) (team_parse_reply J s e)" for s
    unfolding team_parse_reply_def team_parse_json_def team_parse_setup_def Let_def
    by (auto split: option.splits prod.splits intro!: apart_steps r)
  then show ?thesis
    unfolding team_scan_def Let_def by (intro apart_steps) (auto split: option.splits sum.splits intro!: apart_steps)
qed

lemma apart_tunnel:
  "keeps (apart e g) (gre_common_netlink env family e li)" "keeps (apart e g) (vti_netlink env family e li)"
  "keeps (apart e g) (ipxipy_netlink env family e li)"
  unfolding gre_common_netlink_def vti_netlink_def ipxipy_netlink_def by (intro apart_steps)+

lemma apart_vxlan_geneve: "keeps (apart e g) (vxlan_netlink env e li)" "keeps (apart e g) (geneve_netlink env e li)"
proof -
  have "keeps (apart e g) (vxlan_fill_addr env e get put ai_family attr)" for get put ai_family attr
    unfolding vxlan_fill_addr_def by (intro apart_steps)
  then show "keeps (apart e g) (vxlan_netlink env e li)"
    unfolding vxlan_netlink_def by (intro apart_steps)
  show "keeps (apart e g) (geneve_netlink env e li)"
    unfolding geneve_netlink_def by (intro apart_steps)
qed

lemma apart_variants:
  "keeps (apart e g) (gre_netlink env e li)" "keeps (apart e g) (gre6_netlink env e li)" "keeps (apart e g) (vti4_netlink env e li)"
  "keeps (apart e g) (vti6_netlink env e li)" "keeps (apart e g) (ipip_netlink env e li)" "keeps (apart e g) (sit_netlink env e li)"
  "keeps (apart e g) (ipxip6_netlink env e li)"
  by (simp_all add: gre_netlink_def gre6_netlink_def vti4_netlink_def vti6_netlink_def ipip_netlink_def sit_netlink_def
      ipxip6_netlink_def apart_tunnel)

lemmas apart_callbacks = apart_bond apart_devices apart_team apart_variants apart_vxlan_geneve

lemma netlink_apart:
  "h \<in> set (register_handlers J teamds env) \<Longrightarrow> h_netlink h = Some f \<Longrightarrow> keeps (apart e g) (f e li)"
  by (auto simp: handlers_list handler_defs apart_callbacks)

lemma scan_apart:
  "h \<in> set (register_handlers J teamds env) \<Longrightarrow> h_scan h = Some f \<Longrightarrow> keeps (apart e g) (f e)"
  by (auto simp: handlers_list handler_defs apart_callbacks)

lemma apart_callback:
  "(\<And>f. callback = Some f \<Longrightarrow> keeps (apart e g) (f e)) \<Longrightarrow> keeps (apart e g) (if_handler_callback h callback e)"
  unfolding if_handler_callback_def handler_callback_def
  by (intro keeps_branch keeps_return_err) (auto split: option.splits intro: keeps_return_err)

lemma apart_phases:
  "keeps (apart e g) (if_handler_init hs e)"
  "keeps (apart e g) (if_handler_netlink (register_handlers J teamds env) e li)"
  "keeps (apart e g) (if_handler_scan (register_handlers J teamds env) e)"
proof -
  show "keeps (apart e g) (if_handler_init hs e)"
    by (induction hs) (auto split: option.splits intro!: apart_steps)
  show "keeps (apart e g) (if_handler_netlink (register_handlers J teamds env) e li)"
    unfolding if_handler_netlink_def by (intro keeps_each apart_callback) (auto intro: netlink_apart)
  show "keeps (apart e g) (if_handler_scan (register_handlers J teamds env) e)"
    unfolding if_handler_scan_def by (intro keeps_each apart_callback) (auto intro: scan_apart)
qed

section \<open>The rest of reading an interface\<close>

lemma apart_undo: "keeps (apart e g) f \<Longrightarrow> (\<And>w. apart e g w \<Longrightarrow> apart e g (h w)) \<Longrightarrow> keeps (apart e g) (or_undo f h)"
proof (rule keepsI)
  fix w err v
  assume f: "keeps (apart e g) f" and h: "\<And>w. apart e g w \<Longrightarrow> apart e g (h w)" and w: "apart e g w"
    and r: "or_undo f h w = Some (err, v)"
  then obtain err1 u where u: "f w = Some (err1, u)" by (auto simp: or_undo_def split: option.splits)
  from keepsD [OF f w u] have "apart e g u" .
  with r u h show "apart e g v" by (auto simp: or_undo_def split: if_splits)
qed

lemma apart_fill_mac: "keeps (apart e g) (fill_mac e a)"
  unfolding fill_mac_def
  by (auto split: option.splits intro!: apart_steps keeps_assign apart_upd apart_mem)

lemma apart_fill_driver: "keeps (apart e g) (fill_driver env e flags li)"
  unfolding fill_driver_def set_driver_def by (intro apart_steps)

lemma apart_xdp: "keeps (apart e g) (fill_if_xdp e a)"
  unfolding fill_if_xdp_def fill_if_xdp_prog_def Let_def by (intro apart_steps)

lemma apart_link: "keeps (apart e g) (fill_if_link (register_handlers J teamds env) env' e msg)"
proof -
  have d: "keeps (apart e g) (link_driver (register_handlers J teamds env) env' e flags tb li)" for flags tb li
    unfolding link_driver_def err_driver_def
    by (intro apart_undo apart_steps apart_fill_driver apart_xdp apart_phases keeps_tolerate apart_upd)
  have l: "keeps (apart e g) (link_details (register_handlers J teamds env) env' e flags tb)" for flags tb
    unfolding link_details_def by (intro apart_steps) (auto split: sum.splits intro!: apart_steps apart_fill_mac d)
  have n: "keeps (apart e g) (link_named (register_handlers J teamds env) env' e flags tb nm)" for flags tb nm
    unfolding link_named_def err_ifname_def by (intro apart_undo apart_steps l apart_upd)
  show ?thesis
    unfolding fill_if_link_def by (auto split: option.splits prod.splits intro!: apart_steps n)
qed

lemma apart_add_addr: "keeps (apart e g) (add_if_addr e a p)"
  unfolding add_if_addr_def by (rule apart_set_if)

lemma apart_addr: "keeps (apart e g) (fill_if_addr env e alist)"
proof -
  have "keeps (apart e g) (fill_one_addr env e ainfo)" for ainfo
    unfolding fill_one_addr_def Let_def
    by (auto split: option.splits prod.splits intro!: apart_steps apart_add_addr)
  then show ?thesis unfolding fill_if_addr_def by (intro apart_steps)
qed

lemma read_link_apart:
  assumes r: "read_link (register_handlers J teamds env) env' n ainfo l w = Some (0, w')" and x: "x \<noteq> w_next w"
  shows "w_if w' x = w_if w x"
proof -
  obtain c u where c: "if_create w = (c, u)" by (cases "if_create w")
  with r obtain e where e: "c = Some e" by (auto simp: read_link_def ENOMEM_def split: option.splits)
  with c have u: "e = w_next w" "apart e (w_if w) u"
    by (auto simp: if_create_def apart_def Let_def split: prod.splits if_splits)
  have k: "keeps (apart e (w_if w)) (andthen (assign (upd_ns n (\<lambda>s. s\<lparr>n_ifaces := n_ifaces s @ [e]\<rparr>)))
       (andthen (set_if e (\<lambda>i. i\<lparr>i_ns := n\<rparr>))
       (andthen (fill_if_link (register_handlers J teamds env) env' e l)
       (andthen (fill_if_addr env' e ainfo) (if_handler_scan (register_handlers J teamds env) e)))))"
    by (intro apart_steps apart_link apart_addr apart_phases keeps_assign apart_upd_ns)
  from r c e have "andthen (assign (upd_ns n (\<lambda>s. s\<lparr>n_ifaces := n_ifaces s @ [e]\<rparr>)))
       (andthen (set_if e (\<lambda>i. i\<lparr>i_ns := n\<rparr>))
       (andthen (fill_if_link (register_handlers J teamds env) env' e l)
       (andthen (fill_if_addr env' e ainfo) (if_handler_scan (register_handlers J teamds env) e)))) u = Some (0, w')"
    by (simp add: read_link_def)
  from keepsD [OF k u(2) this] x u(1) show ?thesis by (simp add: apart_def)
qed

lemma read_link_next:
  assumes "read_link (register_handlers J teamds env) env' n ainfo l w = Some (0, w')"
  shows "w_next w' = Suc (w_next w)"
proof -
  from first_handler [of J teamds env] obtain hs where
    h: "register_handlers J teamds env = h_bond env # hs" "h_driver (h_bond env) \<noteq> None" by blast
  have "reader (h_bond env # hs) P" if "on_links P" for P using reads_all [OF that, of J teamds env] h(1) by simp
  from read_link_result [OF h(2) this assms [unfolded h(1)]] show ?thesis by (simp add: framed_def)
qed

lemma read_links_apart:
  "each_act (read_link (register_handlers J teamds env) env' n ainfo) ls w = Some (0, w') \<Longrightarrow> x < w_next w \<Longrightarrow> w_if w' x = w_if w x"
proof (induction ls arbitrary: w)
  case (Cons l ls)
  from Cons.prems(1) obtain u where u: "read_link (register_handlers J teamds env) env' n ainfo l w = Some (0, u)"
    "each_act (read_link (register_handlers J teamds env) env' n ainfo) ls u = Some (0, w')" by (auto simp: andthen_0)
  from Cons.IH [OF u(2)] read_link_next [OF u(1)] read_link_apart [OF u(1)] Cons.prems(2) show ?case by simp
qed (simp add: ok_act_def)

lemma if_list_apart:
  assumes r: "if_list (register_handlers J teamds env) env' sk n w = Some (0, w')" and x: "x < w_next w"
  shows "w_if w' x = w_if w x"
proof -
  from if_list_dumped [OF r] obtain linfo ainfo m where
    "if_dumps sk (upd_ns n (\<lambda>s. s\<lparr>n_ifaces := []\<rparr>) w) = Some (0, linfo, ainfo, m)" by blast
  with r have "each_act (read_link (register_handlers J teamds env) env' n ainfo) linfo
      ((upd_ns n (\<lambda>s. s\<lparr>n_ifaces := []\<rparr>) w)\<lparr>w_mem := m\<rparr>) = Some (0, w')"
    by (simp add: if_list_def andthen_0 assign_def) (simp add: andthen_def return_err_def split: option.splits if_splits)
  from read_links_apart [OF this] x show ?thesis by simp
qed

section \<open>Property\<close>

text \<open>
  C2: After the interfaces of a name space have been read, its list holds one new entry per
  message of the link dump, in the order of the dump, each in this name space with the index
  and name of its message and a driver; the lists of interfaces of the other name spaces are
  unchanged, and the entries that existed before are unchanged in every field (flags,
  addresses, properties, private structure and relations included).
\<close>

theorem if_list_one_per_link:
  assumes "if_dumps sk (upd_ns n (\<lambda>s. s\<lparr>n_ifaces := []\<rparr>) w) = Some (0, linfo, ainfo, m)"
    and "if_list (register_handlers J teamds env) env sk n w = Some (0, w')"
  shows "n_ifaces (w_ns w' n) = [w_next w..<w_next w + length linfo] \<and>
    list_all2 (\<lambda>e l. shows_link n l (w_if w' e)) (n_ifaces (w_ns w' n)) linfo \<and>
    (\<forall>m. m \<noteq> n \<longrightarrow> n_ifaces (w_ns w' m) = n_ifaces (w_ns w m)) \<and>
    (\<forall>x<w_next w. w_if w' x = w_if w x)"
  using if_list_read [OF assms] if_list_apart [OF assms(2)] by (auto simp: read_so_far_def)

theorem if_list_one_per_link_witness:
  "\<exists>w'. if_list (register_handlers no_json (\<lambda>_. no_teamd) quiet_env) quiet_env lo_sock 0 empty_world = Some (0, w') \<and>
    n_ifaces (w_ns w' 0) = [0] \<and> i_driver (w_if w' 0) \<noteq> None"
proof -
  have d: "if_dumps lo_sock (upd_ns 0 (\<lambda>s. s\<lparr>n_ifaces := []\<rparr>) empty_world) = Some (0, [entry_of lo_msg], [], [])"
    by (rule lo_dumps) (simp add: empty_world_def example_world_def)
  have "w_mem empty_world = []" "w_next empty_world = 0" by (simp_all add: empty_world_def example_world_def)
  from lo_read [OF this, of no_json "\<lambda>_. no_teamd"] obtain w' where
    r: "if_list (register_handlers no_json (\<lambda>_. no_teamd) quiet_env) quiet_env lo_sock 0 empty_world = Some (0, w')" by blast
  from if_list_one_per_link [OF d r] r show ?thesis by (auto simp: shows_link_def empty_world_def)
qed

section \<open>Link information without the data of the driver\<close>

text \<open>What \<open>fill_if_link\<close> does with the handlers once the driver is known.\<close>

definition run_handlers :: "if_handler list \<Rightarrow> ifp \<Rightarrow> attrs option \<Rightarrow> wact" where
  "run_handlers hs e linkinfo = andthen (if_handler_init hs e) (tolerate ENOENT (if_handler_netlink hs e linkinfo))"

lemma link_driver_runs:
  "link_driver hs env e flags tb li = or_undo (andthen (fill_driver env e flags li) (andthen (fill_if_xdp e (tb IFLA_XDP)) (run_handlers hs e li))) (err_driver e)"
  by (simp add: link_driver_def run_handlers_def)

lemma vxlan_without_data:
  assumes "info_data li = None" and "w_mem w = []" and "i_driver (w_if w e) = Some ''vxlan''"
  shows "\<exists>v. run_handlers (register_handlers J teamds env) e li w = Some (0, v) \<and> i_private (w_if v e) = BadPtr"
proof -
  let ?hs = "register_handlers J teamds env"
  let ?u = "upd_if e (\<lambda>i. i\<lparr>i_private := Ptr (VxlanPriv vxlan_priv0)\<rparr>) (w\<lparr>w_mem := []\<rparr>)"
  have i: "if_handler_init ?hs e w = Some (0, ?u)"
    using assms(2,3) by (simp add: handlers_list handler_defs reading_def if_alloc_def assign_def)
  have h: "handlers_for ?hs (Some ''vxlan'') = [h_bridge env, h_iov env, h_vxlan env]"
    by (simp add: handlers_list handler_defs handlers_for_def)
  have d: "i_driver (w_if ?u e) = Some ''vxlan''" using assms(3) by simp
  from assms(1,2) obtain v where v: "vxlan_netlink env e li ?u = Some (ENOENT, v)" "i_private (w_if v e) = BadPtr"
    by (simp add: vxlan_netlink_def new_private_def if_alloc_def set_private_def or_free_priv_def act_defs ENOENT_def)
  have "if_handler_netlink ?hs e li ?u = Some (ENOENT, v)"
    unfolding netlink_dispatch d h using v(1)
    by (simp add: h_bridge_def h_iov_def h_vxlan_def no_handler_def handler_callback_def return_err_def andthen_def ok_act_def ENOENT_def)
  with i v(2) show ?thesis by (simp add: run_handlers_def andthen_def tolerate_def)
qed

lemma vti_without_data:
  assumes "info_data li = None" and "i_private (w_if w e) = NullPtr" and d: "i_driver (w_if w e) \<in> {Some ''vti'', Some ''vti6''}"
  shows "run_handlers (register_handlers J teamds env) e li w = Some (0, w)"
proof -
  let ?hs = "register_handlers J teamds env"
  have i: "if_handler_init ?hs e w = Some (0, w)"
    using d by (auto simp: handlers_list handler_defs reading_def return_err_def)
  have h: "handlers_for ?hs (Some ''vti'') = [h_bridge env, h_iov env, h_vti env ! 0]"
    "handlers_for ?hs (Some ''vti6'') = [h_bridge env, h_iov env, h_vti env ! 1]"
    by (simp_all add: handlers_list handler_defs handlers_for_def)
  have "vti4_netlink env e li w = Some (ENOENT, w)" "vti6_netlink env e li w = Some (ENOENT, w)"
    using assms(1) by (simp_all add: vti4_netlink_def vti6_netlink_def vti_netlink_def return_err_def)
  with d have "if_handler_netlink ?hs e li w = Some (ENOENT, w)"
    unfolding netlink_dispatch
    by (auto simp: h h_bridge_def h_iov_def h_vti_def no_handler_def handler_callback_def return_err_def andthen_def ok_act_def ENOENT_def)
  with i show ?thesis by (simp add: run_handlers_def andthen_def tolerate_def)
qed

text \<open>
  C30: Link information without the driver's data is tolerated by the caller and breaks a
  later phase.  A fresh VXLAN interface gets its private structure from \<open>if_handler_init\<close>;
  \<open>vxlan_netlink\<close> replaces and frees it and returns \<open>ENOENT\<close>, \<open>fill_if_link\<close> goes on without an
  error, but \<open>handler_private\<close> is left pointing to freed memory: \<open>vxlan_post\<close> reads it and the
  cleanup frees it again.  A fresh VTI interface gets no structure, neither from
  \<open>if_handler_init\<close> (\<open>private_size\<close> is not set) nor from \<open>vti_netlink\<close>, again without an
  error, and \<open>vti_post\<close> follows NULL.  That holds in every later state in which the pointer is
  what reading left.
\<close>

theorem missing_data_breaks_post:
  assumes "info_data li = None" and "w_mem w = []" and "i_private (w_if w e) = NullPtr"
  shows "\<exists>v. (i_driver (w_if w e) = Some ''vxlan'' \<longrightarrow>
      run_handlers (register_handlers J teamds env) e li w = Some (0, v) \<and>
      (\<forall>u. i_private (w_if u e) = i_private (w_if v e) \<longrightarrow> vxlan_post e u = None \<and> free_private e u = None)) \<and>
    (i_driver (w_if w e) \<in> {Some ''vti'', Some ''vti6''} \<longrightarrow>
      run_handlers (register_handlers J teamds env) e li w = Some (0, v) \<and>
      (\<forall>u. i_private (w_if u e) = i_private (w_if v e) \<longrightarrow> vti_post e u = None))"
proof (cases "i_driver (w_if w e) = Some ''vxlan''")
  case True
  from vxlan_without_data [OF assms(1,2) True] obtain v where
    "run_handlers (register_handlers J teamds env) e li w = Some (0, v)" "i_private (w_if v e) = BadPtr" by blast
  with True show ?thesis
    by (intro exI [of _ v]) (simp add: vxlan_post_def with_vxlan_def free_private_def reading_def crash_def)
next
  case False
  with assms(3) vti_without_data [OF assms(1,3), of J teamds env] show ?thesis
    by (intro exI [of _ w]) (simp add: vti_post_def reading_def crash_def)
qed

text \<open>Interface 0 is a VXLAN interface, interface 1 a VTI one.\<close>

definition dataless_world :: world where
  "dataless_world = example_world\<lparr>w_if := (\<lambda>e. if_entry0\<lparr>i_driver := Some (if e = 0 then ''vxlan'' else ''vti'')\<rparr>)\<rparr>"

theorem missing_data_breaks_post_witness:
  "(\<exists>v. run_handlers (register_handlers no_json (\<lambda>_. no_teamd) quiet_env) 0 None dataless_world = Some (0, v) \<and> vxlan_post 0 v = None) \<and>
   (\<exists>v. run_handlers (register_handlers no_json (\<lambda>_. no_teamd) quiet_env) 1 None dataless_world = Some (0, v) \<and> vti_post 1 v = None)"
proof -
  have n: "info_data None = None" by (simp add: info_data_def)
  have m: "w_mem dataless_world = []" "i_private (w_if dataless_world e) = NullPtr"
    "i_driver (w_if dataless_world e) = Some (if e = 0 then ''vxlan'' else ''vti'')" for e
    by (simp_all add: dataless_world_def example_world_def if_entry0_def)
  from missing_data_breaks_post [OF n m(1,2), of 0 no_json "\<lambda>_. no_teamd" quiet_env]
    missing_data_breaks_post [OF n m(1,2), of 1 no_json "\<lambda>_. no_teamd" quiet_env]
  show ?thesis by (auto simp: m(3))
qed

end
