(* ===== verification/OvsDb.thy ===== *)
theory OvsDb
  imports Team
begin

text \<open>
  Reading Open vSwitch's database (\<open>handlers/openvswitch.c\<close> up to \<open>parse\<close>): the reply to the
  monitor request as JSON, and the bridges, ports and interfaces it lists.  The JSON library
  is an argument.  A call works on the list of warnings it adds to and on the memory; its
  result is an error number or a value, and \<open>None\<close> where NULL is compared or copied as a
  string, a freed pointer is freed again, or an error number is returned that was never set.
\<close>

section \<open>The JSON library\<close>

record 'j json_tree = "'j json_reader" +
  jt_at :: "'j \<Rightarrow> nat \<Rightarrow> 'j option"
  jt_array_size :: "'j \<Rightarrow> nat"
  jt_is_array :: "'j \<Rightarrow> bool"
  jt_is_null :: "'j \<Rightarrow> bool"
  jt_object_size :: "'j \<Rightarrow> nat"
  jt_first :: "'j \<Rightarrow> 'j option"

text \<open>The library's functions take a NULL value or key, and give NULL, 0 or an empty size for it.\<close>

definition jget :: "'j json_tree \<Rightarrow> 'j option \<Rightarrow> string option \<Rightarrow> 'j option" where
  "jget J v k = (case v of None \<Rightarrow> None | Some j \<Rightarrow> (case k of None \<Rightarrow> None | Some k \<Rightarrow> jr_get J j k))"

definition jat :: "'j json_tree \<Rightarrow> 'j option \<Rightarrow> nat \<Rightarrow> 'j option" where
  "jat J v i = (case v of None \<Rightarrow> None | Some j \<Rightarrow> jt_at J j i)"

definition jstr :: "'j json_tree \<Rightarrow> 'j option \<Rightarrow> string option" where
  "jstr J v = (case v of None \<Rightarrow> None | Some j \<Rightarrow> jr_string J j)"

definition jint :: "'j json_tree \<Rightarrow> 'j option \<Rightarrow> int" where
  "jint J v = (case v of None \<Rightarrow> 0 | Some j \<Rightarrow> (case jr_integer J j of None \<Rightarrow> 0 | Some i \<Rightarrow> i))"

definition elems :: "'j json_tree \<Rightarrow> 'j option \<Rightarrow> 'j option list" where
  "elems J v = (case v of None \<Rightarrow> [] | Some j \<Rightarrow> map (jt_at J j) [0..<jt_array_size J j])"

section \<open>Calls\<close>

type_synonym pstate = "string list \<times> mem"
type_synonym 'a pcall = "pstate \<Rightarrow> ((int + 'a) \<times> pstate) option"

definition p_ok :: "'a \<Rightarrow> 'a pcall" where "p_ok x s = Some (Inr x, s)"
definition p_fail :: "int \<Rightarrow> 'a pcall" where "p_fail e s = Some (Inl e, s)"
definition p_crash :: "'a pcall" where "p_crash s = None"

definition p_seq :: "'a pcall \<Rightarrow> ('a \<Rightarrow> 'b pcall) \<Rightarrow> 'b pcall" where
  "p_seq f k s = (case f s of None \<Rightarrow> None | Some (Inl e, s) \<Rightarrow> Some (Inl e, s) | Some (Inr x, s) \<Rightarrow> k x s)"

text \<open>A call with its own treatment of errors, an allocation, a warning, and a test of a string that must not be NULL.\<close>

definition p_catch :: "'a pcall \<Rightarrow> (int \<Rightarrow> 'b pcall) \<Rightarrow> ('a \<Rightarrow> 'b pcall) \<Rightarrow> 'b pcall" where
  "p_catch f h k s = (case f s of None \<Rightarrow> None | Some (Inl e, s) \<Rightarrow> h e s | Some (Inr x, s) \<Rightarrow> k x s)"

definition p_alloc :: "'a pcall \<Rightarrow> 'a pcall \<Rightarrow> 'a pcall" where
  "p_alloc f g s = (let (ok, m) = alloc (snd s) in if ok then f (fst s, m) else g (fst s, m))"

definition OVS_WARN :: string where "OVS_WARN = ''Failed to handle openvswitch: ''"

definition p_warn :: "string \<Rightarrow> 'a pcall \<Rightarrow> 'a pcall" where
  "p_warn msg f s = (let ((_, ls), m) = label_add (fst s) (OVS_WARN @ msg) (snd s) in f (ls, m))"

definition p_test :: "bool option \<Rightarrow> 'a pcall \<Rightarrow> 'a pcall \<Rightarrow> 'a pcall" where
  "p_test c f g = (case c of None \<Rightarrow> p_crash | Some b \<Rightarrow> if b then f else g)"

lemmas pcall_defs = p_ok_def p_fail_def p_crash_def p_seq_def p_catch_def p_alloc_def p_warn_def p_test_def

section \<open>Kinds of values\<close>

definition is_set :: "'j json_tree \<Rightarrow> 'j option \<Rightarrow> bool option" where
  "is_set J v = map_option (\<lambda>s. s = ''set'') (jstr J (jat J v 0))"

definition is_map :: "'j json_tree \<Rightarrow> 'j option \<Rightarrow> bool option" where
  "is_map J v = map_option (\<lambda>s. s = ''map'') (jstr J (jat J v 0))"

definition is_uuid :: "'j json_tree \<Rightarrow> 'j option \<Rightarrow> bool option" where
  "is_uuid J v = map_option (\<lambda>s. s = ''uuid'') (jstr J (jat J v 0))"

definition is_empty :: "'j json_tree \<Rightarrow> 'j option \<Rightarrow> bool option" where
  "is_empty J v = (case v of None \<Rightarrow> Some False | Some j \<Rightarrow> if jt_is_array J j then is_set J v else Some False)"

text \<open>
  The values of a column that is a set or a single value, as the loops over ports, interfaces
  and bridges take them.
\<close>

definition members :: "'j json_tree \<Rightarrow> 'j option \<Rightarrow> 'j option list option" where
  "members J v = map_option (\<lambda>b. if b then elems J (jat J v 1) else [v]) (is_set J v)"

fun search_opt :: "'j json_tree \<Rightarrow> string \<Rightarrow> 'j option list \<Rightarrow> string option pcall" where
  "search_opt J name [] = p_ok None"
| "search_opt J name (jkv # js) =
     (case jstr J (jat J jkv 0) of
        None \<Rightarrow> p_crash
      | Some key \<Rightarrow>
          if key = name then
            (case jstr J (jat J jkv 1) of
               None \<Rightarrow> p_crash
             | Some val \<Rightarrow> p_alloc (p_ok (Some val)) (p_fail ENOMEM))
          else search_opt J name js)"

definition search_str_option :: "'j json_tree \<Rightarrow> 'j option \<Rightarrow> string \<Rightarrow> string option pcall" where
  "search_str_option J jarr search_name = search_opt J search_name (elems J jarr)"

definition iface_is_tunnel :: "ovs_if \<Rightarrow> bool" where
  "iface_is_tunnel iface \<longleftrightarrow> oi_type iface = ''vxlan'' \<or> oi_type iface = ''geneve'' \<or> oi_type iface = ''gre''"

section \<open>Interfaces\<close>

text \<open>The row of a table a uuid stands for.\<close>

definition new_row :: "'j json_tree \<Rightarrow> 'j option \<Rightarrow> string \<Rightarrow> 'j option \<Rightarrow> 'j option" where
  "new_row J jresult table uuid =
     jget J (jget J (jget J jresult (Some table)) (jstr J (jat J uuid 1))) (Some ''new'')"

definition parse_options :: "'j json_tree \<Rightarrow> 'j option \<Rightarrow> ovs_if \<Rightarrow> ovs_if pcall" where
  "parse_options J jarr iface =
     (if iface_is_tunnel iface then
        p_seq (search_str_option J jarr ''local_ip'') (\<lambda>l.
        p_seq (search_str_option J jarr ''remote_ip'') (\<lambda>r.
        p_seq (search_str_option J jarr ''key'') (\<lambda>k.
          p_ok (iface\<lparr>oi_local_ip := l, oi_remote_ip := r, oi_key := k\<rparr>))))
      else if oi_type iface = ''patch'' then
        p_seq (search_str_option J jarr ''peer'') (\<lambda>p. p_ok (iface\<lparr>oi_peer := p\<rparr>))
      else if oi_type iface = ''dpdk'' then
        p_seq (search_str_option J jarr ''dpdk-devargs'') (\<lambda>d. p_ok (iface\<lparr>oi_hw_dev := d\<rparr>))
      else p_ok iface)"

definition ovs_if0 :: ovs_if where
  "ovs_if0 = \<lparr>oi_link = None, oi_name = [], oi_type = [], oi_local_ip = None, oi_remote_ip = None, oi_key = None,
     oi_peer = None, oi_hw_dev = None\<rparr>"

text \<open>Every error behind \<open>err_iface\<close> becomes \<open>EINVAL\<close>.\<close>

definition parse_iface :: "'j json_tree \<Rightarrow> 'j option \<Rightarrow> 'j option \<Rightarrow> ovs_if pcall" where
  "parse_iface J jresult uuid =
     p_test (is_uuid J uuid)
       (let jif = new_row J jresult ''Interface'' uuid in
        if jif = None then p_warn ''interface structure broken'' (p_fail EINVAL)
        else case jstr J (jget J jif (Some ''name'')) of
            None \<Rightarrow> p_warn ''expected interface name'' (p_fail EINVAL)
          | Some name \<Rightarrow>
             (case jstr J (jget J jif (Some ''type'')) of
                None \<Rightarrow> p_warn ''expected interface type'' (p_fail EINVAL)
              | Some type \<Rightarrow>
                  p_alloc
                    (p_alloc
                      (p_alloc
                        (let iface = ovs_if0\<lparr>oi_name := name, oi_type := type\<rparr>; jarr = jget J jif (Some ''options'') in
                         p_test (is_map J jarr)
                           (p_catch (parse_options J (jat J jarr 1) iface) (\<lambda>_. p_fail EINVAL) p_ok)
                           (p_ok iface))
                        (p_fail EINVAL))
                      (p_fail EINVAL))
                    (p_fail ENOMEM)))
       (p_warn ''expected interface uuid'' (p_fail EINVAL))"

section \<open>Ports\<close>

text \<open>\<open>destruct_port\<close> frees \<open>port->trunks\<close> twice.\<close>

definition destruct_port :: "ovs_port \<Rightarrow> ovs_port option" where
  "destruct_port port =
     (case free_ptr (op_trunks port) of
        None \<Rightarrow> None
      | Some t \<Rightarrow> (case free_ptr t of None \<Rightarrow> None | Some t \<Rightarrow> Some (port\<lparr>op_trunks := t\<rparr>)))"

fun destruct_ports :: "ovs_port list \<Rightarrow> bool" where
  "destruct_ports [] = True"
| "destruct_ports (p # ps) = (destruct_port p \<noteq> None \<and> destruct_ports ps)"

text \<open>\<open>list_free\<close> goes from the last port to the first; the result says whether this is defined.\<close>

definition destruct_bridge :: "ovs_bridge \<Rightarrow> bool" where
  "destruct_bridge br = destruct_ports (rev (ob_ports br))"

definition ovs_port0 :: ovs_port where
  "ovs_port0 = \<lparr>op_link = None, op_name = [], op_ifaces = [], op_iface_count = 0, op_tag = 0, op_trunks_count = 0,
     op_trunks = NullPtr, op_bond_mode = None\<rparr>"

text \<open>The port filled so far comes back with the error number, because it has to be freed.\<close>

definition parse_bond :: "'j json_tree \<Rightarrow> 'j option \<Rightarrow> ovs_port \<Rightarrow> (int \<times> ovs_port) pcall" where
  "parse_bond J jport port =
     (let jval = jget J jport (Some ''bond_mode'') in
      p_test (is_empty J jval)
        (p_ok (0, port))
        (case jstr J jval of
           None \<Rightarrow> p_crash
         | Some mode \<Rightarrow> p_alloc (p_ok (0, port\<lparr>op_bond_mode := Some mode\<rparr>)) (p_ok (ENOMEM, port))))"

definition parse_port_info :: "'j json_tree \<Rightarrow> ovs_port \<Rightarrow> 'j option \<Rightarrow> (int \<times> ovs_port) pcall" where
  "parse_port_info J port jport =
     (let jval = jget J jport (Some ''tag'') in
      p_seq (p_test (is_empty J jval) (p_ok port) (p_ok (port\<lparr>op_tag := word_of_int (jint J jval)\<rparr>))) (\<lambda>port.
        let jarr = jat J (jget J jport (Some ''trunks'')) 1; cnt = of_nat (length (elems J jarr)) :: u32 in
        if cnt > 0 then
          p_alloc
            (parse_bond J jport
              (port\<lparr>op_trunks_count := cnt, op_trunks := Ptr (map (\<lambda>j. word_of_int (jint J j)) (take (unat cnt) (elems J jarr)))\<rparr>))
            (p_ok (ENOMEM, port))
        else parse_bond J jport port))"

fun parse_ifaces :: "'j json_tree \<Rightarrow> 'j option \<Rightarrow> 'j option list \<Rightarrow> ovs_port \<Rightarrow> (int \<times> ovs_port) pcall" where
  "parse_ifaces J jresult [] port = p_ok (0, port)"
| "parse_ifaces J jresult (uuid # us) port =
     p_catch (parse_iface J jresult uuid) (\<lambda>err. p_ok (err, port)) (\<lambda>iface.
       parse_ifaces J jresult us (port\<lparr>op_ifaces := op_ifaces port @ [iface], op_iface_count := op_iface_count port + 1\<rparr>))"

definition err_port :: "int \<Rightarrow> ovs_port \<Rightarrow> 'a pcall" where
  "err_port err port = (if destruct_port port = None then p_crash else p_fail err)"

text \<open>
  A bridge with the port added; the bridge is unchanged on an error.  When the name cannot be
  copied, \<open>err\<close> is returned without a value.
\<close>

definition add_port :: "ovs_bridge \<Rightarrow> ovs_port \<Rightarrow> ovs_bridge" where
  "add_port br port =
     (if op_name port = ob_name br then br\<lparr>ob_system := Some port\<rparr> else br\<lparr>ob_ports := ob_ports br @ [port]\<rparr>)"

definition parse_port :: "'j json_tree \<Rightarrow> 'j option \<Rightarrow> 'j option \<Rightarrow> ovs_bridge \<Rightarrow> ovs_bridge pcall" where
  "parse_port J jresult uuid br =
     p_test (is_uuid J uuid)
       (let jport = new_row J jresult ''Port'' uuid in
        if jport = None then p_warn ''port structure broken'' (p_fail EINVAL)
        else case jstr J (jget J jport (Some ''name'')) of
            None \<Rightarrow> p_warn ''expected port name'' (p_fail EINVAL)
          | Some name \<Rightarrow>
              p_alloc
                (p_alloc
                  (p_seq (parse_port_info J (ovs_port0\<lparr>op_name := name\<rparr>) jport) (\<lambda>(err, port).
                     if err \<noteq> 0 then err_port err port
                     else case members J (jget J jport (Some ''interfaces'')) of
                         None \<Rightarrow> p_crash
                       | Some uuids \<Rightarrow>
                           p_seq (parse_ifaces J jresult uuids port) (\<lambda>(err, port).
                             if err \<noteq> 0 then err_port err port else p_ok (add_port br port))))
                  p_crash)
                (p_fail ENOMEM))
       (p_warn ''expected port uuid'' (p_fail EINVAL))"

section \<open>Bridges and the reply\<close>

fun parse_ports :: "'j json_tree \<Rightarrow> 'j option \<Rightarrow> 'j option list \<Rightarrow> ovs_bridge \<Rightarrow> (int \<times> ovs_bridge) pcall" where
  "parse_ports J jresult [] br = p_ok (0, br)"
| "parse_ports J jresult (uuid # us) br =
     p_catch (parse_port J jresult uuid br) (\<lambda>err. p_ok (err, br)) (parse_ports J jresult us)"

definition err_br :: "int \<Rightarrow> ovs_bridge \<Rightarrow> 'a pcall" where
  "err_br err br = (if destruct_bridge br then p_fail err else p_crash)"

definition dp_type_of :: "string \<Rightarrow> ovs_dp_type option" where
  "dp_type_of s = (if s = ''system'' then Some OVS_DP_TYPE_SYSTEM else if s = ''netdev'' then Some OVS_DP_TYPE_NETDEV else None)"

definition parse_bridge :: "'j json_tree \<Rightarrow> 'j option \<Rightarrow> 'j option \<Rightarrow> ovs_bridge pcall" where
  "parse_bridge J jresult uuid =
     p_test (is_uuid J uuid)
       (let jbridge = new_row J jresult ''Bridge'' uuid in
        if jbridge = None then p_warn ''bridge structure broken'' (p_fail EINVAL)
        else case jstr J (jget J jbridge (Some ''name'')) of
            None \<Rightarrow> p_warn ''expected bridge name'' (p_fail EINVAL)
          | Some name \<Rightarrow>
              (let dp_type = (case jstr J (jget J jbridge (Some ''datapath_type'')) of
                     None \<Rightarrow> ''system'' | Some t \<Rightarrow> if t = [] then ''system'' else t) in
               p_alloc
                 (p_alloc
                   (case dp_type_of dp_type of
                      None \<Rightarrow> p_warn (''unknown datapath type '' @ dp_type) (p_fail EINVAL)
                    | Some dp \<Rightarrow>
                        (case members J (jget J jbridge (Some ''ports'')) of
                           None \<Rightarrow> p_crash
                         | Some uuids \<Rightarrow>
                             p_seq (parse_ports J jresult uuids
                                 \<lparr>ob_name = name, ob_dp_type = dp, ob_ports = [], ob_system = None\<rparr>) (\<lambda>(err, br).
                               if err \<noteq> 0 then err_br err br else p_ok br)))
                   p_crash)
                 (p_fail ENOMEM)))
       (p_warn ''expected bridge uuid'' (p_fail EINVAL))"

fun parse_bridges :: "'j json_tree \<Rightarrow> 'j option \<Rightarrow> 'j option list \<Rightarrow> int \<Rightarrow> ovs_bridge list \<Rightarrow> (int \<times> ovs_bridge list) pcall" where
  "parse_bridges J jresult [] err br_list = p_ok (err, br_list)"
| "parse_bridges J jresult (uuid # us) err br_list =
     p_catch (parse_bridge J jresult uuid) (\<lambda>err. p_ok (err, br_list)) (\<lambda>br. parse_bridges J jresult us 0 (br_list @ [br]))"

text \<open>
  The part of \<open>parse\<close> behind the check for an error; the row of table \<open>Open_vSwitch\<close> is the
  only member of its object.
\<close>

definition parse_result ::
    "'j json_tree \<Rightarrow> (string \<Rightarrow> (int \<times> ovs_bridge list) pcall) \<Rightarrow> 'j option \<Rightarrow> ovs_bridge list \<Rightarrow> (int \<times> ovs_bridge list) pcall" where
  "parse_result J give_up jresult br_list =
     (case jget J jresult (Some ''Open_vSwitch'') of
        None \<Rightarrow> give_up ''unexpected structure of response''
      | Some jovs \<Rightarrow>
          if jt_object_size J jovs \<noteq> 1 then give_up ''unexpected number of rows in response''
          else let jarr = jget J (jget J (jt_first J jovs) (Some ''new'')) (Some ''bridges'') in
            if jarr = None then give_up ''unexpected structure of response''
            else case members J jarr of
                None \<Rightarrow> p_crash
              | Some uuids \<Rightarrow> parse_bridges J jresult uuids EINVAL br_list)"

text \<open>
  \<open>parse\<close>: the error number, \<open>EINVAL\<close> also for an empty set of bridges, and the list with the
  bridges read before any error.  NULL is printed as \<open>(null)\<close>.
\<close>

definition parse :: "'j json_tree \<Rightarrow> string \<Rightarrow> ovs_bridge list \<Rightarrow> (int \<times> ovs_bridge list) pcall" where
  "parse J answer br_list =
     (let give_up = (\<lambda>msg. p_warn msg (p_ok (EINVAL, br_list))) in
      case jr_loads J answer of
        None \<Rightarrow> give_up (''cannot parse response: '' @ jr_error J answer)
      | Some jroot \<Rightarrow>
          (case jr_get J jroot ''error'' of
             Some jerror \<Rightarrow>
               if \<not> jt_is_null J jerror then
                 give_up (''server reported an error: '' @
                   (case jstr J (jr_get J jerror ''error'') of None \<Rightarrow> ''(null)'' | Some s \<Rightarrow> s))
               else parse_result J give_up (jr_get J jroot ''result'') br_list
           | None \<Rightarrow> parse_result J give_up (jr_get J jroot ''result'') br_list))"

end
