(* ===== verification/OvsRound.thy ===== *)
theory OvsRound
  imports OvsDb
begin

text \<open>
  The round trip of Open vSwitch's database: bridges written as the database server answers
  the monitor request (RFC 7047: rows are found by their UUIDs, a set of one element is the
  bare element, tables without rows are left out) are read back by \<open>parse\<close>.  JSON values are
  a datatype, and the library's functions what their documentation says of such values.
\<close>

section \<open>JSON values\<close>

datatype json = JNull | JTrue | JInt int | JStr string | JArr "json list" | JObj "(string \<times> json) list"

definition json_lib :: "(string \<Rightarrow> json option) \<Rightarrow> json json_tree" where
  "json_lib load = \<lparr>jr_loads = load,
     jr_get = (\<lambda>j k. case j of JObj kvs \<Rightarrow> map_of kvs k | _ \<Rightarrow> None),
     jr_string = (\<lambda>j. case j of JStr s \<Rightarrow> Some s | _ \<Rightarrow> None),
     jr_integer = (\<lambda>j. case j of JInt i \<Rightarrow> Some i | _ \<Rightarrow> None),
     jr_error = (\<lambda>_. ''invalid token''), jr_strerror = (\<lambda>_. ''error''),
     jt_at = (\<lambda>j i. case j of JArr js \<Rightarrow> if i < length js then Some (js ! i) else None | _ \<Rightarrow> None),
     jt_array_size = (\<lambda>j. case j of JArr js \<Rightarrow> length js | _ \<Rightarrow> 0),
     jt_is_array = (\<lambda>j. case j of JArr _ \<Rightarrow> True | _ \<Rightarrow> False),
     jt_is_null = (\<lambda>j. case j of JNull \<Rightarrow> True | _ \<Rightarrow> False),
     jt_object_size = (\<lambda>j. case j of JObj kvs \<Rightarrow> length kvs | _ \<Rightarrow> 0),
     jt_first = (\<lambda>j. case j of JObj ((k, v) # _) \<Rightarrow> Some v | _ \<Rightarrow> None)\<rparr>"

lemma json_lib_simps [simp]:
  "jr_loads (json_lib load) = load"
  "jget (json_lib load) (Some (JObj kvs)) (Some k) = map_of kvs k"
  "jr_get (json_lib load) (JObj kvs) k = map_of kvs k"
  "jstr (json_lib load) (Some (JStr s)) = Some s"
  "jint (json_lib load) (Some (JInt n)) = n"
  "jat (json_lib load) (Some (JArr js)) i = (if i < length js then Some (js ! i) else None)"
  "jat (json_lib load) (Some (JStr s)) i = None"
  "jat (json_lib load) (Some (JInt n)) i = None"
  "jt_is_null (json_lib load) JNull = True"
  "jt_object_size (json_lib load) (JObj kvs) = length kvs"
  "jt_first (json_lib load) (JObj ((k, v) # kvs)) = Some v"
  "jt_is_array (json_lib load) (JArr js) = True"
  "jt_is_array (json_lib load) (JStr s) = False"
  "jt_is_array (json_lib load) (JInt n) = False"
  by (simp_all add: json_lib_def jget_def jstr_def jint_def jat_def)

lemma elems_arr [simp]: "elems (json_lib load) (Some (JArr js)) = map Some js"
  by (simp add: elems_def json_lib_def) (rule nth_equalityI; simp)

lemma elems_None [simp]: "elems J None = []"
  by (simp add: elems_def)

section \<open>Writing the database\<close>

fun jset :: "json list \<Rightarrow> json" where
  "jset [x] = x"
| "jset xs = JArr [JStr ''set'', JArr xs]"

definition juuid :: "string \<Rightarrow> json" where "juuid s = JArr [JStr ''uuid'', JStr s]"

definition jmap :: "(string \<times> string) list \<Rightarrow> json" where
  "jmap kvs = JArr [JStr ''map'', JArr (map (\<lambda>(k, v). JArr [JStr k, JStr v]) kvs)]"

text \<open>
  What the server answers besides what the program keeps: the UUIDs of the rows, all options
  of an interface in the order of the server, the datapath type as it is stored (empty where
  the default is meant), the place of a bridge's own port among its ports, and the columns the program asks for and does not read.
\<close>

record server =
  sv_root :: string
  sv_bridge :: "ovs_bridge \<Rightarrow> string"
  sv_port :: "ovs_port \<Rightarrow> string"
  sv_iface :: "ovs_if \<Rightarrow> string"
  sv_options :: "ovs_if \<Rightarrow> (string \<times> string) list"
  sv_datapath :: "ovs_bridge \<Rightarrow> string"
  sv_place :: "ovs_bridge \<Rightarrow> nat"
  sv_version :: json
  sv_admin_state :: "ovs_if \<Rightarrow> json"
  sv_link_state :: "ovs_if \<Rightarrow> json"

definition iface_json :: "server \<Rightarrow> ovs_if \<Rightarrow> json" where
  "iface_json S i = JObj [(''admin_state'', sv_admin_state S i), (''link_state'', sv_link_state S i), (''name'', JStr (oi_name i)),
     (''options'', jmap (sv_options S i)), (''type'', JStr (oi_type i))]"

definition trunks_of :: "ovs_port \<Rightarrow> u32 list" where
  "trunks_of p = (case op_trunks p of Ptr ts \<Rightarrow> ts | _ \<Rightarrow> [])"

definition port_json :: "server \<Rightarrow> ovs_port \<Rightarrow> json" where
  "port_json S p = JObj [(''bond_mode'', case op_bond_mode p of None \<Rightarrow> jset [] | Some m \<Rightarrow> JStr m),
     (''interfaces'', jset (map (\<lambda>i. juuid (sv_iface S i)) (op_ifaces p))), (''name'', JStr (op_name p)),
     (''tag'', if op_tag p = 0 then jset [] else JInt (uint (op_tag p))),
     (''trunks'', jset (map (\<lambda>t. JInt (uint t)) (trunks_of p)))]"

definition bridge_ports :: "server \<Rightarrow> ovs_bridge \<Rightarrow> ovs_port list" where
  "bridge_ports S br =
     take (sv_place S br) (ob_ports br) @ (case ob_system br of None \<Rightarrow> [] | Some p \<Rightarrow> [p]) @ drop (sv_place S br) (ob_ports br)"

definition bridge_json :: "server \<Rightarrow> ovs_bridge \<Rightarrow> json" where
  "bridge_json S br = JObj [(''datapath_type'', JStr (sv_datapath S br)), (''name'', JStr (ob_name br)),
     (''ports'', jset (map (\<lambda>p. juuid (sv_port S p)) (bridge_ports S br)))]"

definition db_table :: "string \<Rightarrow> ('a \<Rightarrow> string) \<Rightarrow> ('a \<Rightarrow> json) \<Rightarrow> 'a list \<Rightarrow> (string \<times> json) list" where
  "db_table name uuid f xs = (if xs = [] then [] else [(name, JObj (map (\<lambda>x. (uuid x, JObj [(''new'', f x)])) xs))])"

definition db_ports :: "server \<Rightarrow> ovs_bridge list \<Rightarrow> ovs_port list" where
  "db_ports S brs = concat (map (bridge_ports S) brs)"

definition db_ifaces :: "server \<Rightarrow> ovs_bridge list \<Rightarrow> ovs_if list" where
  "db_ifaces S brs = concat (map op_ifaces (db_ports S brs))"

definition root_json :: "server \<Rightarrow> ovs_bridge list \<Rightarrow> json" where
  "root_json S brs = JObj [(''bridges'', jset (map (\<lambda>b. juuid (sv_bridge S b)) brs)), (''ovs_version'', sv_version S)]"

definition db_result :: "server \<Rightarrow> ovs_bridge list \<Rightarrow> json" where
  "db_result S brs = JObj
     (db_table ''Bridge'' (sv_bridge S) (bridge_json S) brs @
      db_table ''Interface'' (sv_iface S) (iface_json S) (db_ifaces S brs) @
      [(''Open_vSwitch'', JObj [(sv_root S, JObj [(''new'', root_json S brs)])])] @
      db_table ''Port'' (sv_port S) (port_json S) (db_ports S brs))"

definition db_json :: "server \<Rightarrow> ovs_bridge list \<Rightarrow> json" where
  "db_json S brs = JObj [(''error'', JNull), (''id'', JInt 0), (''result'', db_result S brs)]"

text \<open>
  The bridges that are read of what the server answers: an interface has the options of its
  type, a bridge the type of its datapath, no port has exactly one trunk, and a UUID stands
  for one row of its table.
\<close>

definition if_described :: "server \<Rightarrow> ovs_if \<Rightarrow> bool" where
  "if_described S i \<longleftrightarrow> oi_link i = None \<and>
     (let opts = map_of (sv_options S i) in
      (if iface_is_tunnel i
       then oi_local_ip i = opts ''local_ip'' \<and> oi_remote_ip i = opts ''remote_ip'' \<and> oi_key i = opts ''key''
       else oi_local_ip i = None \<and> oi_remote_ip i = None \<and> oi_key i = None) \<and>
      oi_peer i = (if oi_type i = ''patch'' then opts ''peer'' else None) \<and>
      oi_hw_dev i = (if oi_type i = ''dpdk'' then opts ''dpdk-devargs'' else None))"

definition port_described :: "server \<Rightarrow> ovs_port \<Rightarrow> bool" where
  "port_described S p \<longleftrightarrow> op_link p = None \<and> op_iface_count p = int (length (op_ifaces p)) \<and>
     length (trunks_of p) \<noteq> 1 \<and> length (trunks_of p) < 2 ^ 32 \<and> op_trunks_count p = of_nat (length (trunks_of p)) \<and>
     op_trunks p = (if trunks_of p = [] then NullPtr else Ptr (trunks_of p)) \<and> list_all (if_described S) (op_ifaces p)"

definition bridge_described :: "server \<Rightarrow> ovs_bridge \<Rightarrow> bool" where
  "bridge_described S br \<longleftrightarrow> list_all (port_described S) (bridge_ports S br) \<and>
     list_all (\<lambda>p. op_name p \<noteq> ob_name br) (ob_ports br) \<and>
     (case ob_system br of None \<Rightarrow> True | Some p \<Rightarrow> op_name p = ob_name br) \<and>
     dp_type_of (if sv_datapath S br = [] then ''system'' else sv_datapath S br) = Some (ob_dp_type br)"

definition db_described :: "server \<Rightarrow> ovs_bridge list \<Rightarrow> bool" where
  "db_described S brs \<longleftrightarrow> list_all (bridge_described S) brs \<and> distinct (map (sv_bridge S) brs) \<and>
     distinct (map (sv_port S) (db_ports S brs)) \<and> distinct (map (sv_iface S) (db_ifaces S brs))"

section \<open>Reading it back\<close>

lemma is_uuid_juuid [simp]: "is_uuid (json_lib load) (Some (juuid s)) = Some True"
  by (simp add: is_uuid_def juuid_def)

lemma members_jset [simp]: "members (json_lib load) (Some (jset (map (\<lambda>x. juuid (f x)) xs))) = Some (map (\<lambda>x. Some (juuid (f x))) xs)"
proof (cases xs)
  case (Cons x ys)
  then show ?thesis by (cases ys) (simp_all add: members_def is_set_def juuid_def)
qed (simp add: members_def is_set_def)

lemma map_of_rows:
  "distinct (map uuid xs) \<Longrightarrow> x \<in> set xs \<Longrightarrow> map_of (map (\<lambda>x. (uuid x, JObj [(''new'', f x)])) xs) (uuid x) = Some (JObj [(''new'', f x)])"
  by (induction xs) (auto simp: rev_image_eqI)

lemma new_row_rows:
  assumes "distinct (map uuid xs)" "x \<in> set xs" "map_of kvs table = map_of (db_table table uuid f xs) table"
  shows "new_row (json_lib load) (Some (JObj kvs)) table (Some (juuid (uuid x))) = Some (f x)"
  using map_of_rows [OF assms(1,2), of f] assms(2,3) by (auto simp: new_row_def db_table_def juuid_def)

lemma map_of_table:
  "k \<noteq> name \<Longrightarrow> map_of (db_table name uuid f xs @ kvs) k = map_of kvs k"
  "xs \<noteq> [] \<Longrightarrow> map_of (db_table name uuid f xs @ kvs) name = map_of (db_table name uuid f xs) name"
  by (simp_all add: db_table_def)

lemma search_opt_pairs:
  "search_opt (json_lib load) name (map (Some \<circ> (\<lambda>(k, v). JArr [JStr k, JStr v])) kvs) (ls, []) = Some (Inr (map_of kvs name), (ls, []))"
  by (induction kvs) (auto simp: p_ok_def p_alloc_def)

lemma search_options:
  "search_str_option (json_lib load) (Some (JArr (map (\<lambda>(k, v). JArr [JStr k, JStr v]) kvs))) name (ls, []) = Some (Inr (map_of kvs name), (ls, []))"
  by (simp add: search_str_option_def search_opt_pairs)

lemma parse_iface_row:
  assumes r: "new_row (json_lib load) R ''Interface'' (Some (juuid (sv_iface S i))) = Some (iface_json S i)" and i: "if_described S i"
  shows "parse_iface (json_lib load) R (Some (juuid (sv_iface S i))) (ls, []) = Some (Inr i, (ls, []))"
proof -
  let ?J = "json_lib load"
  define a where "a = Some (JArr (map (\<lambda>(k, v). JArr [JStr k, JStr v]) (sv_options S i)))"
  let ?i = "ovs_if0\<lparr>oi_name := oi_name i, oi_type := oi_type i\<rparr>"
  have s: "search_str_option ?J a name (ls, []) = Some (Inr (map_of (sv_options S i) name), (ls, []))" for name
    by (simp add: a_def search_options)
  have "i = \<lparr>oi_link = oi_link i, oi_name = oi_name i, oi_type = oi_type i, oi_local_ip = oi_local_ip i, oi_remote_ip = oi_remote_ip i,
      oi_key = oi_key i, oi_peer = oi_peer i, oi_hw_dev = oi_hw_dev i\<rparr>" by simp
  then have "parse_options ?J a ?i (ls, []) = Some (Inr i, (ls, []))"
    using i by (auto simp: parse_options_def p_seq_def s p_ok_def if_described_def Let_def ovs_if0_def iface_is_tunnel_def split: if_splits)
  then show ?thesis
    using r by (simp add: parse_iface_def p_test_def iface_json_def p_alloc_def is_map_def jmap_def p_catch_def p_ok_def Let_def flip: a_def)
qed

lemma parse_ifaces_rows:
  assumes "\<And>i. i \<in> set is \<Longrightarrow> if_described S i \<and> new_row (json_lib load) R ''Interface'' (Some (juuid (sv_iface S i))) = Some (iface_json S i)"
  shows "parse_ifaces (json_lib load) R (map (\<lambda>i. Some (juuid (sv_iface S i))) is) p (ls, []) =
    Some (Inr (0, p\<lparr>op_ifaces := op_ifaces p @ is, op_iface_count := op_iface_count p + int (length is)\<rparr>), (ls, []))"
  using assms
proof (induction "is" arbitrary: p)
  case (Cons i js)
  have "parse_iface (json_lib load) R (Some (juuid (sv_iface S i))) (ls, []) = Some (Inr i, (ls, []))"
    using Cons.prems by (intro parse_iface_row) auto
  then show ?case using Cons.IH Cons.prems by (simp add: p_catch_def)
qed (simp add: p_ok_def)

lemma trunk_members:
  assumes "length ts \<noteq> 1" "length ts < 2 ^ 32"
  shows "elems (json_lib load) (jat (json_lib load) (Some (jset (map (\<lambda>t. JInt (uint t)) ts))) 1) = map (\<lambda>t. Some (JInt (uint t))) (ts :: u32 list)"
proof -
  consider "ts = []" | x y zs where "ts = x # y # zs" using assms(1) by (cases ts; cases "tl ts") auto
  then show ?thesis by cases simp_all
qed

lemma trunk_values: "map (\<lambda>j. word_of_int (jint (json_lib load) j)) (map (\<lambda>t. Some (JInt (uint t))) ts) = (ts :: u32 list)"
  by (induction ts) auto

lemma parse_port_info_row:
  assumes p: "port_described S p"
  shows "parse_port_info (json_lib load) (ovs_port0\<lparr>op_name := op_name p\<rparr>) (Some (port_json S p)) (ls, []) =
    Some (Inr (0, p\<lparr>op_ifaces := [], op_iface_count := 0\<rparr>), (ls, []))"
proof -
  let ?J = "json_lib load"
  define ts where "ts = trunks_of p"
  have t: "length ts \<noteq> 1" "length ts < 2 ^ 32" "op_trunks_count p = of_nat (length ts)"
    "op_trunks p = (if ts = [] then NullPtr else Ptr ts)"
    using p by (auto simp: port_described_def ts_def)
  have u: "unat (word_of_nat (length ts) :: u32) = length ts" using t(2) by (simp add: unat_of_nat)
  have cnt: "(0 < (word_of_nat (length ts) :: u32)) = (ts \<noteq> [])"
    using u by (auto simp: word_less_nat_alt)
  have bond: "parse_bond ?J (Some (port_json S p)) q (ls, []) = Some (Inr (0, q\<lparr>op_bond_mode := op_bond_mode p\<rparr>), (ls, []))"
    if "op_bond_mode q = None" for q
    using that by (cases "op_bond_mode p")
      (simp_all add: parse_bond_def port_json_def is_empty_def is_set_def p_test_def p_ok_def p_alloc_def Let_def)
  have tag: "p_test (is_empty ?J (jget ?J (Some (port_json S p)) (Some ''tag''))) (p_ok q)
      (p_ok (q\<lparr>op_tag := word_of_int (jint ?J (jget ?J (Some (port_json S p)) (Some ''tag'')))\<rparr>)) s =
    Some (Inr (q\<lparr>op_tag := op_tag p\<rparr>), s)" if "op_tag q = 0" for q s
    using that by (simp add: port_json_def is_empty_def is_set_def p_test_def p_ok_def)
  have tr: "jget ?J (Some (port_json S p)) (Some ''trunks'') = Some (jset (map (\<lambda>t. JInt (uint t)) ts))"
    by (simp add: port_json_def ts_def)
  have q: "p\<lparr>op_ifaces := [], op_iface_count := 0\<rparr> = \<lparr>op_link = None, op_name = op_name p, op_ifaces = [], op_iface_count = 0,
      op_tag = op_tag p, op_trunks_count = of_nat (length ts), op_trunks = (if ts = [] then NullPtr else Ptr ts), op_bond_mode = op_bond_mode p\<rparr>"
    using p t by (simp add: port_described_def)
  define q0 where "q0 = ovs_port0\<lparr>op_name := op_name p\<rparr>"
  have q0: "op_tag q0 = 0" "op_bond_mode q0 = None" by (simp_all add: q0_def ovs_port0_def)
  have el: "elems ?J (jat ?J (Some (jset (map (\<lambda>t. JInt (uint t)) ts))) 1) = map (\<lambda>t. Some (JInt (uint t))) ts"
    by (rule trunk_members [OF t(1,2)])
  have "parse_port_info ?J q0 (Some (port_json S p)) (ls, []) =
    (if ts = [] then Some (Inr (0, q0\<lparr>op_tag := op_tag p, op_bond_mode := op_bond_mode p\<rparr>), (ls, []))
     else Some (Inr (0, q0\<lparr>op_tag := op_tag p, op_trunks_count := of_nat (length ts), op_trunks := Ptr ts, op_bond_mode := op_bond_mode p\<rparr>), (ls, [])))"
    unfolding parse_port_info_def Let_def p_seq_def tag [OF q0(1)] tr el
    by (simp add: bond q0 cnt u trunk_values p_alloc_def del: map_map)
  then show ?thesis unfolding q q0_def by (simp add: ovs_port0_def split: if_splits)
qed


lemma parse_port_row:
  assumes r: "new_row (json_lib load) R ''Port'' (Some (juuid (sv_port S p))) = Some (port_json S p)" and p: "port_described S p"
    and i: "\<And>i. i \<in> set (op_ifaces p) \<Longrightarrow> new_row (json_lib load) R ''Interface'' (Some (juuid (sv_iface S i))) = Some (iface_json S i)"
  shows "parse_port (json_lib load) R (Some (juuid (sv_port S p))) br (ls, []) = Some (Inr (add_port br p), (ls, []))"
proof -
  let ?J = "json_lib load"
  have n: "jget ?J (Some (port_json S p)) (Some ''name'') = Some (JStr (op_name p))" by (simp add: port_json_def)
  have m: "members ?J (jget ?J (Some (port_json S p)) (Some ''interfaces'')) = Some (map (\<lambda>i. Some (juuid (sv_iface S i))) (op_ifaces p))"
    by (simp add: port_json_def)
  have "parse_ifaces ?J R (map (\<lambda>i. Some (juuid (sv_iface S i))) (op_ifaces p)) (p\<lparr>op_ifaces := [], op_iface_count := 0\<rparr>) (ls, []) =
      Some (Inr (0, p\<lparr>op_ifaces := op_ifaces p, op_iface_count := int (length (op_ifaces p))\<rparr>), (ls, []))"
    using i p by (subst parse_ifaces_rows) (auto simp: port_described_def list_all_iff)
  moreover have "p\<lparr>op_ifaces := op_ifaces p, op_iface_count := int (length (op_ifaces p))\<rparr> = p"
    using p by (simp add: port_described_def)
  ultimately have f: "parse_ifaces ?J R (map (\<lambda>i. Some (juuid (sv_iface S i))) (op_ifaces p)) (p\<lparr>op_ifaces := [], op_iface_count := 0\<rparr>) (ls, []) =
      Some (Inr (0, p), (ls, []))" by simp
  show ?thesis
    by (simp add: parse_port_def p_test_def r Let_def n p_alloc_def p_seq_def parse_port_info_row [OF p] m f p_ok_def)
qed

lemma parse_ports_rows:
  assumes "\<And>p. p \<in> set ps \<Longrightarrow> port_described S p \<and> new_row (json_lib load) R ''Port'' (Some (juuid (sv_port S p))) = Some (port_json S p)"
    and "\<And>p i. p \<in> set ps \<Longrightarrow> i \<in> set (op_ifaces p) \<Longrightarrow>
      new_row (json_lib load) R ''Interface'' (Some (juuid (sv_iface S i))) = Some (iface_json S i)"
  shows "parse_ports (json_lib load) R (map (\<lambda>p. Some (juuid (sv_port S p))) ps) br (ls, []) = Some (Inr (0, foldl add_port br ps), (ls, []))"
  using assms
proof (induction ps arbitrary: br)
  case (Cons p ps)
  have "parse_port (json_lib load) R (Some (juuid (sv_port S p))) br (ls, []) = Some (Inr (add_port br p), (ls, []))"
    using Cons.prems by (intro parse_port_row) auto
  moreover have "parse_ports (json_lib load) R (map (\<lambda>p. Some (juuid (sv_port S p))) ps) (add_port br p) (ls, []) =
      Some (Inr (0, foldl add_port (add_port br p) ps), (ls, []))"
    by (rule Cons.IH) (use Cons.prems in auto)
  ultimately show ?case by (simp add: p_catch_def)
qed (simp add: p_ok_def)

lemma add_others:
  "list_all (\<lambda>p. op_name p \<noteq> ob_name br) ps \<Longrightarrow> foldl add_port br ps = br\<lparr>ob_ports := ob_ports br @ ps\<rparr>"
  by (induction ps arbitrary: br) (simp_all add: add_port_def)

lemma add_all:
  assumes "bridge_described S br"
  shows "foldl add_port \<lparr>ob_name = ob_name br, ob_dp_type = ob_dp_type br, ob_ports = [], ob_system = None\<rparr> (bridge_ports S br) = br"
proof -
  have o: "list_all (\<lambda>p. op_name p \<noteq> ob_name br) (take k (ob_ports br))" "list_all (\<lambda>p. op_name p \<noteq> ob_name br) (drop k (ob_ports br))" for k
    using assms by (auto simp: bridge_described_def list_all_iff dest: in_set_takeD in_set_dropD)
  show ?thesis
    using assms o [of "sv_place S br"] by (cases "ob_system br") (simp_all add: bridge_ports_def add_others bridge_described_def, simp add: add_port_def add_others)
qed

lemma parse_bridge_row:
  assumes r: "new_row (json_lib load) R ''Bridge'' (Some (juuid (sv_bridge S br))) = Some (bridge_json S br)" and d: "bridge_described S br"
    and p: "\<And>p. p \<in> set (bridge_ports S br) \<Longrightarrow> new_row (json_lib load) R ''Port'' (Some (juuid (sv_port S p))) = Some (port_json S p)"
    and i: "\<And>p i. p \<in> set (bridge_ports S br) \<Longrightarrow> i \<in> set (op_ifaces p) \<Longrightarrow>
      new_row (json_lib load) R ''Interface'' (Some (juuid (sv_iface S i))) = Some (iface_json S i)"
  shows "parse_bridge (json_lib load) R (Some (juuid (sv_bridge S br))) (ls, []) = Some (Inr br, (ls, []))"
proof -
  let ?J = "json_lib load"
  have j: "jget ?J (Some (bridge_json S br)) (Some ''name'') = Some (JStr (ob_name br))"
    "members ?J (jget ?J (Some (bridge_json S br)) (Some ''ports'')) = Some (map (\<lambda>p. Some (juuid (sv_port S p))) (bridge_ports S br))"
    "jget ?J (Some (bridge_json S br)) (Some ''datapath_type'') =
      Some (JStr (sv_datapath S br))"
    by (simp_all add: bridge_json_def)
  have "parse_ports ?J R (map (\<lambda>p. Some (juuid (sv_port S p))) (bridge_ports S br)) b (ls, []) = Some (Inr (0, foldl add_port b (bridge_ports S br)), (ls, []))" for b
    using d p i by (intro parse_ports_rows) (auto simp: bridge_described_def list_all_iff)
  moreover have "dp_type_of (if sv_datapath S br = [] then ''system'' else sv_datapath S br) = Some (ob_dp_type br)"
    using d by (simp add: bridge_described_def)
  ultimately show ?thesis
    using add_all [OF d] by (simp add: parse_bridge_def p_test_def r Let_def j p_alloc_def p_seq_def p_ok_def split: if_splits)
qed

lemma parse_bridges_rows:
  assumes "\<And>br ls. br \<in> set brs \<Longrightarrow> parse_bridge (json_lib load) R (Some (juuid (sv_bridge S br))) (ls, []) = Some (Inr br, (ls, []))"
  shows "parse_bridges (json_lib load) R (map (\<lambda>b. Some (juuid (sv_bridge S b))) brs) err l (ls, []) =
    Some (Inr (if brs = [] then err else 0, l @ brs), (ls, []))"
  using assms
proof (induction brs arbitrary: l err)
  case (Cons b brs)
  then show ?case by (auto simp: p_catch_def)
qed (simp add: p_ok_def)

lemma parse_written:
  assumes d: "db_described S brs" and l: "load answer = Some (db_json S brs)"
  shows "parse (json_lib load) answer l (ls, []) = Some (Inr (if brs = [] then EINVAL else 0, l @ brs), (ls, []))"
proof -
  let ?J = "json_lib load" and ?R = "Some (db_result S brs)"
  have ports: "new_row ?J ?R ''Port'' (Some (juuid (sv_port S p))) = Some (port_json S p)" if "p \<in> set (db_ports S brs)" for p
    unfolding db_result_def
    by (rule new_row_rows [OF _ that]) (use d in \<open>simp_all add: db_described_def map_of_table del: map_of_append\<close>)
  have ifaces: "new_row ?J ?R ''Interface'' (Some (juuid (sv_iface S i))) = Some (iface_json S i)" if "i \<in> set (db_ifaces S brs)" for i
  proof -
    from that have "db_ifaces S brs \<noteq> []" by auto
    then show ?thesis
      unfolding db_result_def by (intro new_row_rows [OF _ that]) (use d in \<open>simp_all add: db_described_def map_of_table del: map_of_append\<close>)
  qed
  have "parse_bridge ?J ?R (Some (juuid (sv_bridge S br))) (ls, []) = Some (Inr br, (ls, []))" if b: "br \<in> set brs" for br ls
  proof (rule parse_bridge_row)
    show "new_row ?J ?R ''Bridge'' (Some (juuid (sv_bridge S br))) = Some (bridge_json S br)"
    proof -
      from b have "brs \<noteq> []" by auto
      then show ?thesis
        unfolding db_result_def by (intro new_row_rows [OF _ b]) (use d in \<open>simp_all add: db_described_def map_of_table del: map_of_append\<close>)
    qed
    show "bridge_described S br" using d b by (auto simp: db_described_def list_all_iff)
  qed (use b ports ifaces in \<open>auto simp: db_ports_def db_ifaces_def\<close>)
  then have "parse_bridges ?J ?R (map (\<lambda>b. Some (juuid (sv_bridge S b))) brs) EINVAL l (ls, []) =
      Some (Inr (if brs = [] then EINVAL else 0, l @ brs), (ls, []))" by (rule parse_bridges_rows)
  moreover have "jget ?J ?R (Some ''Open_vSwitch'') = Some (JObj [(sv_root S, JObj [(''new'', root_json S brs)])])"
    by (simp add: db_result_def map_of_table del: map_of_append)
  ultimately show ?thesis
    by (simp add: parse_def l db_json_def root_json_def parse_result_def Let_def jstr_def)
qed

text \<open>
  C36: The answer of the database server is read back: for any bridges, any UUIDs of the rows
  (one per row), any further options and columns and any place of a bridge's own port among
  its ports, when the interfaces have the options of their type, bridges the type of their
  datapath and no port has exactly one trunk VLAN, \<open>parse\<close> returns exactly these bridges with
  their ports, interfaces, tags, trunks, bond modes and options in their order, appended to
  the list and without a warning.  The result is 0, and \<open>EINVAL\<close> for an answer without bridges.
\<close>

theorem parse_roundtrip:
  assumes "db_described S brs" and "load answer = Some (db_json S brs)"
  shows "parse (json_lib load) answer l (ls, []) = Some (Inr (if brs = [] then EINVAL else 0, l @ brs), (ls, []))"
  using assms by (rule parse_written)

definition example_if :: "string \<Rightarrow> string \<Rightarrow> ovs_if" where
  "example_if name type = ovs_if0\<lparr>oi_name := name, oi_type := type\<rparr>"

definition example_bridge :: ovs_bridge where
  "example_bridge = \<lparr>ob_name = ''br0'', ob_dp_type = OVS_DP_TYPE_SYSTEM,
     ob_ports = [ovs_port0\<lparr>op_name := ''bond0'', op_ifaces := [example_if ''eth0'' [], (example_if ''gre0'' ''gre'')\<lparr>oi_local_ip := Some ''10.0.0.1''\<rparr>],
        op_iface_count := 2, op_trunks_count := 2, op_trunks := Ptr [5, 7], op_bond_mode := Some ''balance-slb''\<rparr>],
     ob_system = Some (ovs_port0\<lparr>op_name := ''br0'', op_ifaces := [example_if ''br0'' ''internal''], op_iface_count := 1\<rparr>)\<rparr>"

text \<open>A server with UUIDs that are not the names, more options than are read, and the default datapath type.\<close>

definition example_server :: server where
  "example_server = \<lparr>sv_root = ''6f1c'', sv_bridge = (\<lambda>b. ''b1a6-'' @ ob_name b), sv_port = (\<lambda>p. ''9d27-'' @ op_name p),
     sv_iface = (\<lambda>i. ''e03b-'' @ oi_name i),
     sv_options = (\<lambda>i. if iface_is_tunnel i then [(''df_default'', ''false'')] @ (case oi_local_ip i of None \<Rightarrow> [] | Some a \<Rightarrow> [(''local_ip'', a)]) else []),
     sv_datapath = (\<lambda>b. case ob_dp_type b of OVS_DP_TYPE_SYSTEM \<Rightarrow> [] | OVS_DP_TYPE_NETDEV \<Rightarrow> ''netdev''), sv_place = (\<lambda>_. 1), sv_version = JStr ''2.5.0'', sv_admin_state = (\<lambda>_. JStr ''up''),
     sv_link_state = (\<lambda>_. JStr ''down'')\<rparr>"

lemma example_bridge_described: "db_described example_server [example_bridge]"
  by (simp add: db_described_def bridge_described_def port_described_def if_described_def bridge_ports_def trunks_of_def
      db_ports_def db_ifaces_def example_bridge_def example_if_def ovs_if0_def ovs_port0_def iface_is_tunnel_def example_server_def
      dp_type_of_def)

theorem parse_roundtrip_witness:
  "parse (json_lib (\<lambda>s. if s = ''reply'' then Some (db_json example_server [example_bridge]) else None)) ''reply'' [] ([], []) =
     Some (Inr (0, [example_bridge]), ([], []))"
  by (subst parse_roundtrip [OF example_bridge_described]) simp_all

section \<open>A single trunk\<close>

lemma single_trunk:
  assumes "trunks_of p = [t]" and "op_trunks_count q = 0" "op_trunks q = NullPtr"
    and "parse_port_info (json_lib load) q (Some (port_json S p)) s = Some (Inr (err, q'), s')"
  shows "op_trunks_count q' = 0 \<and> op_trunks q' = NullPtr"
  using assms
  by (auto simp: parse_port_info_def p_seq_def Let_def port_json_def p_test_def parse_bond_def p_crash_def p_ok_def p_alloc_def
      split: option.splits prod.splits sum.splits if_splits)

text \<open>
  C39: A port with exactly one trunk VLAN loses it: the database server writes a set of one
  element as the bare element, and \<open>parse_port_info\<close> only looks at the second element of an
  array.
\<close>

theorem single_trunk_lost:
  assumes "op_trunks p = Ptr [t]"
    and "parse_port_info (json_lib load) (ovs_port0\<lparr>op_name := op_name p\<rparr>) (Some (port_json S p)) s = Some (Inr (err, q), s')"
  shows "trunks_of p = [t] \<and> op_trunks_count q = 0 \<and> op_trunks q = NullPtr"
  using single_trunk [of p t "ovs_port0\<lparr>op_name := op_name p\<rparr>"] assms by (simp add: trunks_of_def ovs_port0_def)

theorem single_trunk_lost_witness:
  "\<exists>q. parse_port_info (json_lib (\<lambda>_. None)) (ovs_port0\<lparr>op_name := ''p''\<rparr>)
      (Some (port_json example_server (ovs_port0\<lparr>op_name := ''p'', op_trunks := Ptr [5]\<rparr>))) ([], []) = Some (Inr (0, q), ([], [])) \<and> op_trunks_count q = 0"
proof -
  let ?p = "ovs_port0\<lparr>op_name := ''p'', op_trunks := Ptr [5]\<rparr>"
  have "\<exists>q. parse_port_info (json_lib (\<lambda>_. None)) (ovs_port0\<lparr>op_name := ''p''\<rparr>) (Some (port_json example_server ?p)) ([], []) = Some (Inr (0, q), ([], []))"
    by (simp add: parse_port_info_def port_json_def ovs_port0_def trunks_of_def is_empty_def is_set_def p_test_def p_seq_def p_ok_def
        parse_bond_def Let_def)
  then show ?thesis using single_trunk_lost [of ?p 5 _ example_server] by (fastforce simp: ovs_port0_def)
qed

end
