(* ===== verification/JsonBuild.thy ===== *)
theory JsonBuild
  imports OvsRound
begin

text \<open>
  Building JSON values with the library: the constructors and setters are arguments, each of
  them may fail for lack of memory (NULL or -1).  \<open>json_builder\<close> on the datatype of JSON values
  is what the library documents.
\<close>

record 'j json_builder =
  jb_object :: 'j
  jb_array :: 'j
  jb_null :: 'j
  jb_string :: "string \<Rightarrow> 'j"
  jb_integer :: "int \<Rightarrow> 'j"
  jb_append :: "'j \<Rightarrow> 'j \<Rightarrow> 'j"
  jb_set :: "'j \<Rightarrow> string \<Rightarrow> 'j \<Rightarrow> 'j"
  jb_dumps :: "'j \<Rightarrow> string"

text \<open>\<open>json_object_set\<close> replaces the value of a key that is there, at its place.\<close>

fun obj_set :: "(string \<times> json) list \<Rightarrow> string \<Rightarrow> json \<Rightarrow> (string \<times> json) list" where
  "obj_set [] k v = [(k, v)]"
| "obj_set ((k', v') # kvs) k v = (if k' = k then (k', v) # kvs else (k', v') # obj_set kvs k v)"

definition json_build :: "(json \<Rightarrow> string) \<Rightarrow> json json_builder" where
  "json_build dumps = \<lparr>jb_object = JObj [], jb_array = JArr [], jb_null = JNull, jb_string = JStr, jb_integer = JInt,
     jb_append = (\<lambda>a v. case a of JArr vs \<Rightarrow> JArr (vs @ [v]) | _ \<Rightarrow> a),
     jb_set = (\<lambda>j k v. case j of JObj kvs \<Rightarrow> JObj (obj_set kvs k v) | _ \<Rightarrow> j),
     jb_dumps = dumps\<rparr>"

lemma json_build_simps [simp]:
  "jb_object (json_build d) = JObj []" "jb_array (json_build d) = JArr []" "jb_null (json_build d) = JNull"
  "jb_string (json_build d) s = JStr s" "jb_integer (json_build d) i = JInt i"
  "jb_append (json_build d) (JArr vs) v = JArr (vs @ [v])"
  "jb_set (json_build d) (JObj kvs) k v = JObj (obj_set kvs k v)"
  "jb_dumps (json_build d) = d"
  by (simp_all add: json_build_def)

lemma map_of_obj_set: "map_of (obj_set kvs k v) = (map_of kvs)(k \<mapsto> v)"
  by (induction kvs) (auto simp: fun_eq_iff)

section \<open>The request to the database server\<close>

text \<open>The arguments of \<open>add_table\<close> after the table's name are the columns.\<close>

fun add_cols :: "'j json_builder \<Rightarrow> string list \<Rightarrow> 'j \<Rightarrow> mem \<Rightarrow> (int \<times> 'j) \<times> mem" where
  "add_cols B [] cols m = ((0, cols), m)"
| "add_cols B (s # ss) cols m =
     (let (ok, m) = alloc m in
      if \<not> ok then ((-1, cols), m)
      else let (ok, m) = alloc m in
        if \<not> ok then ((-1, cols), m) else add_cols B ss (jb_append B cols (jb_string B s)) m)"

definition add_table :: "'j json_builder \<Rightarrow> 'j \<Rightarrow> string \<Rightarrow> string list \<Rightarrow> mem \<Rightarrow> (int \<times> 'j) \<times> mem" where
  "add_table B parmobj table columns m =
     (let (ok, m) = alloc m in
      if \<not> ok then ((ENOMEM, parmobj), m)
      else let (ok, m) = alloc m in
        if \<not> ok then ((ENOMEM, parmobj), m)
        else let ((err, cols), m) = add_cols B columns (jb_array B) m in
          if err \<noteq> 0 then ((err, parmobj), m)
          else let (ok, m) = alloc m in
            if \<not> ok then ((-1, parmobj), m)
            else let (ok, m) = alloc m in
              if \<not> ok then ((-1, parmobj), m)
              else ((0, jb_set B parmobj table (jb_set B (jb_object B) ''columns'' cols)), m))"

fun add_tables :: "'j json_builder \<Rightarrow> (string \<times> string list) list \<Rightarrow> 'j \<Rightarrow> mem \<Rightarrow> 'j option \<times> mem" where
  "add_tables B [] po m = (Some po, m)"
| "add_tables B ((table, columns) # ts) po m =
     (let ((err, po), m) = add_table B po table columns m in if err \<noteq> 0 then (None, m) else add_tables B ts po m)"

definition query_tables :: "(string \<times> string list) list" where
  "query_tables =
     [(''Open_vSwitch'', [''bridges'', ''ovs_version'']),
      (''Bridge'', [''name'', ''ports'', ''datapath_type'']),
      (''Port'', [''interfaces'', ''name'', ''tag'', ''trunks'', ''bond_mode'']),
      (''Interface'', [''name'', ''type'', ''options'', ''admin_state'', ''link_state''])]"

text \<open>\<open>n\<close> calls in a row that may fail: with four of them the parameters are put together, with seven the request around them is made and printed.\<close>

fun allocs :: "nat \<Rightarrow> mem \<Rightarrow> bool \<times> mem" where
  "allocs 0 m = (True, m)"
| "allocs (Suc n) m = (let (ok, m) = alloc m in if ok then allocs n m else (False, m))"

definition construct_query :: "'j json_builder \<Rightarrow> mem \<Rightarrow> string option \<times> mem" where
  "construct_query B m =
     (let (ok, m) = alloc m in
      if \<not> ok then (None, m)
      else case add_tables B query_tables (jb_object B) m of
          (None, m) \<Rightarrow> (None, m)
        | (Some po, m) \<Rightarrow>
            let (ok, m) = alloc m in
            if \<not> ok then (None, m)
            else let params = jb_append B (jb_append B (jb_append B (jb_array B) (jb_string B ''Open_vSwitch'')) (jb_null B)) po;
                     (ok, m) = allocs 4 m in
              if \<not> ok then (None, m)
              else let (ok, m) = allocs 7 m in
                if \<not> ok then (None, m)
                else (Some (jb_dumps B (jb_set B (jb_set B (jb_set B (jb_object B) ''method'' (jb_string B ''monitor''))
                       ''id'' (jb_integer B 0)) ''params'' params)), m))"

lemma add_cols_ok: "add_cols (json_build d) ss (JArr vs) [] = ((0, JArr (vs @ map JStr ss)), [])"
  by (induction ss arbitrary: vs) simp_all

text \<open>The monitor request of RFC 7047: method, id, and the tables with their columns.\<close>

lemma query_built:
  "construct_query (json_build d) [] = (Some (d (JObj [(''method'', JStr ''monitor''), (''id'', JInt 0),
     (''params'', JArr [JStr ''Open_vSwitch'', JNull,
        JObj (map (\<lambda>(t, cs). (t, JObj [(''columns'', JArr (map JStr cs))])) query_tables)])])), [])"
  by (simp add: construct_query_def query_tables_def add_table_def add_cols_ok numeral_eq_Suc Let_def)

end
