(* ===== verification/Ovs.thy ===== *)
theory Ovs
  imports Registry JsonBuild
begin

text \<open>
  The Open vSwitch handler (\<open>handlers/openvswitch.c\<close> behind \<open>parse\<close>): the conversation with
  the database server, the search for the interfaces the database names, and their relations:
  every port is put under its bridge's main interface, bonds get an interface of their own,
  tunnels are linked to the interface with their local address and patch ports to their peers.
\<close>

unbundle bit_operations_syntax

text \<open>
  The outside: socket and connection to the server (an error number, 0 for success), what
  \<open>write\<close> returns with its error number, what each \<open>read\<close> gives, whether the process can
  switch to a name space, and the generic netlink sockets, one per query.
\<close>

record 'j ovs_env =
  oe_json :: "'j json_tree"
  oe_build :: "'j json_builder"
  oe_db :: "string cptr"
  oe_socket :: "int + int"
  oe_connect :: "string \<Rightarrow> int"
  oe_write :: "nat \<Rightarrow> int \<times> int"
  oe_reads :: "(int + string) list"
  oe_switch :: "nsp \<Rightarrow> int"
  oe_genl :: "nsp \<Rightarrow> string \<Rightarrow> sock"
  oe_family :: sock
  oe_pton :: pton

section \<open>The conversation\<close>

text \<open>A path that could not be copied on the command line is NULL, and copied from into the address.\<close>

definition connect_ovs :: "'j ovs_env \<Rightarrow> int option" where
  "connect_ovs V =
     (case oe_socket V of
        Inl err \<Rightarrow> Some (- err)
      | Inr fd \<Rightarrow>
          (case deref (oe_db V) of
             None \<Rightarrow> None
           | Some db \<Rightarrow> let err = oe_connect V (fit 108 db) in Some (if err \<noteq> 0 then - err else fd)))"

definition CHUNK :: nat where "CHUNK = 65536"

text \<open>
  The loop of \<open>read_all\<close>: \<open>cap\<close> is the size of the buffer, \<open>buf\<close> its content.  A result
  \<open>None\<close> is an access behind the buffer, \<open>Some (None, m)\<close> the returned NULL.
\<close>

fun read_loop :: "nat \<Rightarrow> string \<Rightarrow> (int + string) list \<Rightarrow> mem \<Rightarrow> (string option \<times> mem) option" where
  "read_loop cap buf [] m = (if length buf + CHUNK \<le> cap then Some (Some buf, m) else None)"
| "read_loop cap buf (Inl err # rs) m = Some (None, m)"
| "read_loop cap buf (Inr s # rs) m =
     (if length buf + CHUNK > cap then None
      else let s = take CHUNK s; buf = buf @ s in
        if length s < CHUNK then (if length buf < cap then Some (Some buf, m) else None)
        else let (ok, m) = alloc m in
          if ok then read_loop (length buf + CHUNK) buf rs m else Some (None, m))"

definition read_all :: "(int + string) list \<Rightarrow> mem \<Rightarrow> (string option \<times> mem) option" where
  "read_all rs m = (let (ok, m) = alloc m in if \<not> ok then Some (None, m) else read_loop CHUNK [] rs m)"

section \<open>Asking the kernel for a port\<close>

definition OVS_VPORT_CMD_GET :: u8 where "OVS_VPORT_CMD_GET = 3"
definition OVS_VPORT_ATTR_NAME :: nat where "OVS_VPORT_ATTR_NAME = 3"
definition OVS_VPORT_FAMILY :: string where "OVS_VPORT_FAMILY = ''ovs_vport''"

definition check_vport :: "'j ovs_env \<Rightarrow> nsp \<Rightarrow> ifp \<Rightarrow> world \<Rightarrow> (bool \<times> world) option" where
  "check_vport V ns entry w =
     (let name = i_name (w_if w entry); sk = oe_genl V ns name; (err, hnd) = nl_open (sk_open sk) (sk_pid sk) in
      if os_vport_genl_id (w_ovs w) = 0 \<or> oe_switch V ns \<noteq> 0 \<or> err \<noteq> 0 then Some (False, w)
      else do {
        (req, m) \<leftarrow> genlmsg_new (unat (os_vport_genl_id (w_ovs w))) OVS_VPORT_CMD_GET 0 (w_mem w);
        case req of
          None \<Rightarrow> Some (False, w\<lparr>w_mem := m\<rparr>)
        | Some req \<Rightarrow> do {
            (err, req, m) \<leftarrow> nlmsg_put req (le_bytes 4 0) m;
            if err \<noteq> 0 then Some (False, w\<lparr>w_mem := m\<rparr>)
            else do {
              (err, req, m) \<leftarrow> nla_put_str req OVS_VPORT_ATTR_NAME name m;
              if err \<noteq> 0 then Some (False, w\<lparr>w_mem := m\<rparr>)
              else do {
                (err, resp, hnd, nle) \<leftarrow> nl_exchange hnd req ((sock_env sk w)\<lparr>e_mem := m\<rparr>);
                Some (err = 0, w\<lparr>w_mem := e_mem nle\<rparr>) } } } })"

definition set_genl_id :: "u32 \<Rightarrow> world \<Rightarrow> world" where
  "set_genl_id i w = w\<lparr>w_ovs := (w_ovs w)\<lparr>os_vport_genl_id := i\<rparr>\<rparr>"

definition ovs_global_init :: "'j ovs_env \<Rightarrow> wact" where
  "ovs_global_init V w =
     (let sk = oe_family V; (err, hnd) = nl_open (sk_open sk) (sk_pid sk) in
      if err \<noteq> 0 then Some (0, set_genl_id 0 w)
      else do {
        (i, hnd, nle) \<leftarrow> genl_family_id hnd OVS_VPORT_FAMILY (sock_env sk w);
        Some (0, set_genl_id i (w\<lparr>w_mem := e_mem nle\<rparr>)) })"

section \<open>Finding an interface of the database\<close>

text \<open>
  The callback of the search, with the interface's bridge and the bridge's main interface
  (\<open>master\<close>): besides the weight it has an effect, it may ask the kernel and it marks tun
  devices of the user space datapath.
\<close>

definition weight_of :: "ovs_if \<Rightarrow> ifp \<Rightarrow> world \<Rightarrow> int" where
  "weight_of master entry w =
     (case oi_link master of
        Some l \<Rightarrow> if i_ns (w_if w l) = i_ns (w_if w entry) then 2 else 1
      | None \<Rightarrow> if n_name (w_ns w (i_ns (w_if w entry))) = None then 2 else 1)"

definition link_iface_search :: "'j ovs_env \<Rightarrow> ovs_dp_type \<Rightarrow> ovs_if \<Rightarrow> ovs_if \<Rightarrow> ifp \<Rightarrow> world \<Rightarrow> (int \<times> world) option" where
  "link_iface_search V dp_type master iface entry w =
     (let e = w_if w entry in
      if oi_link master \<noteq> None \<and> dp_type = OVS_DP_TYPE_SYSTEM \<and>
         (case i_master e of None \<Rightarrow> False | Some m \<Rightarrow> i_name (w_if w m) \<noteq> ''ovs-system'') then Some (0, w)
      else if oi_name iface \<noteq> i_name e then Some (0, w)
      else case dp_type of
          OVS_DP_TYPE_SYSTEM \<Rightarrow>
            if oi_type iface = ''internal'' \<and> i_driver e = None then None
            else if oi_type iface = ''internal'' \<and> i_driver e \<noteq> Some ''openvswitch'' then Some (0, w)
            else (case (oi_link master, i_master e) of
                (Some l, None) \<Rightarrow> do {
                  (ok, w) \<leftarrow> check_vport V (i_ns (w_if w l)) entry w;
                  Some (if ok then weight_of master entry w else 0, w) }
              | _ \<Rightarrow> Some (weight_of master entry w, w))
        | OVS_DP_TYPE_NETDEV \<Rightarrow>
            if oi_type iface \<noteq> ''internal'' then Some (0, w)
            else if i_driver e = None then None
            else if i_driver e \<noteq> Some ''tun'' \<or> i_sub_driver e \<noteq> None then Some (0, w)
            else let (ok, m) = alloc (w_mem w);
                     w = upd_if entry (\<lambda>i. i\<lparr>i_sub_driver := (if ok then Some ''openvswitch'' else None)\<rparr>) (w\<lparr>w_mem := m\<rparr>) in
              Some (weight_of master entry w, w))"

text \<open>
  The calls of the callback, in search order; an interface is in one list only and is visited
  once.  No weight is negative, so the search visits all of them, and its choice depends on
  the weights alone.
\<close>

fun search_weights :: "(ifp \<Rightarrow> world \<Rightarrow> (int \<times> world) option) \<Rightarrow> ifp list \<Rightarrow> world \<Rightarrow> ((ifp \<Rightarrow> int) \<times> world) option" where
  "search_weights f [] w = Some ((\<lambda>_. 0), w)"
| "search_weights f (e # es) w = do {
     (r, w) \<leftarrow> f e w;
     (p, w) \<leftarrow> search_weights f es w;
     Some (p(e := r), w) }"

definition root_warn :: "string \<Rightarrow> world \<Rightarrow> world" where
  "root_warn msg w =
     (let root = hd (w_list w); ((_, ls), m) = label_add (n_warnings (w_ns w root)) msg (w_mem w) in
      upd_ns root (\<lambda>s. s\<lparr>n_warnings := ls\<rparr>) (w\<lparr>w_mem := m\<rparr>))"

definition link_iface :: "'j ovs_env \<Rightarrow> ovs_dp_type \<Rightarrow> ovs_if \<Rightarrow> ovs_if \<Rightarrow> bool \<Rightarrow> world \<Rightarrow> (int \<times> ovs_if \<times> world) option" where
  "link_iface V dp_type master iface required w =
     (if oi_link iface \<noteq> None then Some (0, iface, w)
      else do {
        (p, w) \<leftarrow> search_weights (link_iface_search V dp_type master iface) (all_ifs w) w;
        (err, d) \<leftarrow> match_if w (\<lambda>e. Some (p e)) (match_init\<lparr>md_netns_list := Some (w_list w)\<rparr>);
        if err \<noteq> 0 then Some (err, iface, w)
        else let iface = iface\<lparr>oi_link := match_found d\<rparr> in
          if match_ambiguous d then
            Some (ERANGE, iface, root_warn (''Failed to map openvswitch interface '' @ oi_name iface @ '' reliably'') w)
          else if required \<and> oi_link iface = None then
            Some (ENOENT, iface, root_warn (''Failed to map openvswitch interface '' @ oi_name iface) w)
          else Some (0, iface, w) })"

definition create_iface :: "string \<Rightarrow> string \<Rightarrow> world \<Rightarrow> ifp option \<times> world" where
  "create_iface name br_name w =
     (let root = hd (w_list w) in
      case if_create w of
        (None, w) \<Rightarrow> (None, w)
      | (Some e, w) \<Rightarrow>
          let (ok, m) = allocs 2 (w_mem w); w = w\<lparr>w_mem := m\<rparr> in
          if \<not> ok then (None, w)
          else (Some e, upd_ns root (\<lambda>s. s\<lparr>n_ifaces := n_ifaces s @ [e]\<rparr>)
             (upd_if e (\<lambda>i. i\<lparr>i_internal_ns := Some (''ovs:'' @ br_name), i_name := name, i_ns := root,
                i_flags := i_flags i OR IF_INTERNAL\<rparr>) w)))"

section \<open>Labels\<close>

definition label_iface :: "ovs_if \<Rightarrow> ifp \<Rightarrow> wact" where
  "label_iface iface e =
     each_act (\<lambda>(key, val). case val of None \<Rightarrow> ok_act | Some s \<Rightarrow> ignoring (if_add_config e key s) ok_act)
       [(''type'', if oi_type iface = [] then None else Some (oi_type iface)), (''from'', oi_local_ip iface),
        (''to'', oi_remote_ip iface), (''key'', oi_key iface), (''hw'', oi_hw_dev iface)]"

text \<open>The text of the trunks, and the size of the buffer it is printed into, in 32-bit arithmetic.\<close>

definition trunks_text :: "u32 list \<Rightarrow> string" where
  "trunks_text ts = (case ts of [] \<Rightarrow> [] | t # ts \<Rightarrow> ''trunks '' @ dec (unat t) @ concat (map (\<lambda>t. '', '' @ dec (unat t)) ts))"

definition trunks_size :: "u32 \<Rightarrow> nat" where
  "trunks_size n = unat (16 * n + 7 + 1)"

definition set_label :: "ifp \<Rightarrow> string option \<Rightarrow> wact" where
  "set_label e txt = assign (upd_if e (\<lambda>i. i\<lparr>i_edge_label := txt\<rparr>))"

definition label_port_or_iface :: "ovs_port \<Rightarrow> ifp \<Rightarrow> wact" where
  "label_port_or_iface port e =
     (let bond = (case op_bond_mode port of None \<Rightarrow> ok_act | Some s \<Rightarrow> ignoring (if_add_config e ''bond mode'' s) ok_act) in
      if op_tag port \<noteq> 0 then
        if_alloc (andthen (set_label e (Some (''tag '' @ dec (unat (op_tag port))))) bond) (andthen (set_label e None) bond)
      else if op_trunks_count port \<noteq> 0 then
        if_alloc
          (case op_trunks port of
             Ptr ts \<Rightarrow>
               if length ts = unat (op_trunks_count port) \<and> length (trunks_text ts) < trunks_size (op_trunks_count port)
               then andthen (set_label e (Some (trunks_text ts))) bond else crash
           | _ \<Rightarrow> crash)
          ok_act
      else bond)"

section \<open>Relations\<close>

definition link_tunnel :: "'j ovs_env \<Rightarrow> ovs_if \<Rightarrow> ifp \<Rightarrow> wact" where
  "link_tunnel V iface e =
     (case oi_local_ip iface of
        None \<Rightarrow> ok_act
      | Some ip \<Rightarrow>
          if ip = [] then ok_act
          else reading (\<lambda>w. case tunnel_find_str (oe_pton V) w (i_ns (w_if w e)) ip of
              None \<Rightarrow> crash
            | Some t \<Rightarrow> andthen (link_set t (Some e)) (assign (upd_if e (\<lambda>i. i\<lparr>i_flags := i_flags i OR IF_LINK_WEAK\<rparr>)))))"

definition link_patch_search :: "world \<Rightarrow> ovs_if \<Rightarrow> match_callback" where
  "link_patch_search w iface entry =
     Some (if oi_peer iface = None \<or> oi_peer iface \<noteq> Some (i_name (w_if w entry)) \<or> i_flags (w_if w entry) AND IF_INTERNAL = 0
           then 0 else 1)"

definition link_patch :: "ovs_if \<Rightarrow> ifp \<Rightarrow> wact" where
  "link_patch iface e = reading (\<lambda>w.
     case match_if w (link_patch_search w iface) (match_init\<lparr>md_netns_list := Some (w_list w)\<rparr>) of
       None \<Rightarrow> crash
     | Some (err, d) \<Rightarrow>
         if err \<noteq> 0 then return_err err
         else if match_ambiguous d then if_add_warning e ''failed to find openvswitch patch port peer reliably''
         else case match_found d of None \<Rightarrow> return_err 0 | Some p \<Rightarrow> andthen (peer_set (Some e) (Some p)) (return_err 0))"

text \<open>\<open>link_ifaces\<close>: the work on an interface once it is known, on an interface, a port, a bridge, and on all.\<close>

definition connect_iface :: "'j ovs_env \<Rightarrow> ovs_port \<Rightarrow> ifp option \<Rightarrow> ovs_if \<Rightarrow> ifp \<Rightarrow> wact" where
  "connect_iface V port master iface e =
     andthen (master_set master e)
    (andthen (label_iface iface e)
    (andthen (if op_iface_count port = 1 then label_port_or_iface port e else ok_act)
             (if iface_is_tunnel iface then link_tunnel V iface e
              else if oi_type iface = ''patch'' then link_patch iface e else ok_act)))"

definition link_port_iface :: "'j ovs_env \<Rightarrow> ovs_bridge \<Rightarrow> ovs_if \<Rightarrow> ovs_port \<Rightarrow> ifp option \<Rightarrow> ovs_if \<Rightarrow> wact" where
  "link_port_iface V br ovs_master port master iface w = do {
     (err, iface, w) \<leftarrow> link_iface V (ob_dp_type br) ovs_master iface False w;
     if err \<noteq> 0 then Some (err, w)
     else case oi_link iface of
         Some e \<Rightarrow> connect_iface V port master iface e w
       | None \<Rightarrow>
          (case create_iface (oi_name iface) (ob_name br) w of
             (None, w) \<Rightarrow> Some (ENOMEM, w)
           | (Some e, w) \<Rightarrow> connect_iface V port master iface e w) }"

definition link_port :: "'j ovs_env \<Rightarrow> ovs_bridge \<Rightarrow> ovs_if \<Rightarrow> ovs_port \<Rightarrow> wact" where
  "link_port V br ovs_master port w =
     (let master = oi_link ovs_master in
      if op_iface_count port > 1 then
        (case create_iface (op_name port) (ob_name br) w of
           (None, w) \<Rightarrow> Some (ENOMEM, w)
         | (Some e, w) \<Rightarrow>
             andthen (master_set master e)
            (andthen (label_port_or_iface port e)
                     (each_act (link_port_iface V br ovs_master port (Some e)) (op_ifaces port))) w)
      else each_act (link_port_iface V br ovs_master port master) (op_ifaces port) w)"

definition link_bridge :: "'j ovs_env \<Rightarrow> ovs_bridge \<Rightarrow> wact" where
  "link_bridge V br w =
     (let missing = root_warn (''Failed to find main interface for openvswitch bridge '' @ ob_name br) w in
      case ob_system br of
        None \<Rightarrow> Some (0, missing)
      | Some sys \<Rightarrow>
          if op_iface_count sys = 0 then Some (0, missing)
          else if op_iface_count sys > 1 then
            Some (0, root_warn (''Main port for openvswitch bridge '' @ ob_name br @ '' appears to have several interfaces'') w)
          else case op_ifaces sys of
              [] \<Rightarrow> None
            | m # _ \<Rightarrow> do {
                (err, m, w) \<leftarrow> link_iface V (ob_dp_type br) m m True w;
                if err \<noteq> 0 then Some (if err = ENOENT \<or> err = ERANGE then 0 else err, w)
                else each_act (link_port V br m) (ob_ports br) w })"

definition link_ifaces :: "'j ovs_env \<Rightarrow> wact" where
  "link_ifaces V = reading (\<lambda>w. each_act (link_bridge V) (os_bridges (w_ovs w)))"

section \<open>The handler\<close>

definition set_bridges :: "ovs_bridge list \<Rightarrow> world \<Rightarrow> world" where
  "set_bridges brs w = w\<lparr>w_ovs := (w_ovs w)\<lparr>os_bridges := brs\<rparr>\<rparr>"

definition parse_reply :: "'j ovs_env \<Rightarrow> string \<Rightarrow> wact" where
  "parse_reply V reply w =
     (let root = hd (w_list w) in
      case parse (oe_json V) reply (os_bridges (w_ovs w)) (n_warnings (w_ns w root), w_mem w) of
        None \<Rightarrow> None
      | Some (Inl err, (ls, m)) \<Rightarrow> Some (err, upd_ns root (\<lambda>s. s\<lparr>n_warnings := ls\<rparr>) (w\<lparr>w_mem := m\<rparr>))
      | Some (Inr (err, brs), (ls, m)) \<Rightarrow> Some (err, set_bridges brs (upd_ns root (\<lambda>s. s\<lparr>n_warnings := ls\<rparr>) (w\<lparr>w_mem := m\<rparr>))))"

text \<open>From the query on; the error number of a short \<open>write\<close> is what \<open>errno\<close> holds.\<close>

definition ovs_talk :: "'j ovs_env \<Rightarrow> string \<Rightarrow> wact" where
  "ovs_talk V query w =
     (case connect_ovs V of None \<Rightarrow> None | Some fd \<Rightarrow>
      if fd < 0 then Some (- fd, w)
      else if fst (oe_write V (length query)) < int (length query) then Some (snd (oe_write V (length query)), w)
      else do {
        (reply, m) \<leftarrow> read_all (oe_reads V) (w_mem w);
        let w = w\<lparr>w_mem := m\<rparr>;
        case reply of
          None \<Rightarrow> Some (ENOMEM, w)
        | Some reply \<Rightarrow>
            andthen (parse_reply V reply) (branch (\<lambda>w. os_bridges (w_ovs w) = []) ok_act (link_ifaces V)) w })"

definition ovs_global_post :: "'j ovs_env \<Rightarrow> wact" where
  "ovs_global_post V w =
     (case construct_query (oe_build V) (w_mem w) of
        (None, m) \<Rightarrow> Some (ENOMEM, w\<lparr>w_mem := m\<rparr>)
      | (Some query, m) \<Rightarrow> do {
          (err, w) \<leftarrow> ovs_talk V query (w\<lparr>w_mem := m\<rparr>);
          Some (if err \<noteq> ENOMEM then 0 else err, w) })"

definition ovs_global_cleanup :: wact where
  "ovs_global_cleanup w = (if list_all destruct_bridge (rev (os_bridges (w_ovs w))) then Some (0, set_bridges [] w) else None)"

definition gh_ovs :: "'j ovs_env \<Rightarrow> global_handler" where
  "gh_ovs V = \<lparr>gh_init = Some (ovs_global_init V), gh_post = Some (ovs_global_post V), gh_cleanup = Some ovs_global_cleanup\<rparr>"

definition register_global_handlers :: "'j ovs_env \<Rightarrow> global_handler list" where
  "register_global_handlers V = global_handler_register (gh_ovs V) []"

section \<open>Properties\<close>

text \<open>What a sequence of reads delivers: everything up to and with the first read that is not full.\<close>

fun received :: "(int + string) list \<Rightarrow> string option" where
  "received [] = Some []"
| "received (Inl err # rs) = None"
| "received (Inr s # rs) = (if length s < CHUNK then Some s else map_option (\<lambda>t. take CHUNK s @ t) (received rs))"

lemma read_loop_result:
  "cap = length buf + CHUNK \<Longrightarrow> read_loop cap buf rs [] = Some (map_option (\<lambda>t. buf @ t) (received rs), [])"
proof (induction rs arbitrary: cap buf)
  case (Cons r rs)
  then show ?case
  proof (cases r)
    case (Inr s)
    have "length s \<ge> CHUNK \<Longrightarrow> read_loop (length (buf @ take CHUNK s) + CHUNK) (buf @ take CHUNK s) rs [] =
        Some (map_option (\<lambda>t. (buf @ take CHUNK s) @ t) (received rs), [])"
      by (rule Cons.IH) simp
    with Inr Cons.prems show ?thesis by (auto simp: Let_def option.map_comp comp_def)
  qed simp
qed simp

lemma read_loop_inside: "cap = length buf + CHUNK \<Longrightarrow> read_loop cap buf rs m \<noteq> None"
proof (induction rs arbitrary: cap buf m)
  case (Cons r rs)
  show ?case
  proof (cases r)
    case (Inr s)
    have "read_loop (length (buf @ take CHUNK s) + CHUNK) (buf @ take CHUNK s) rs m' \<noteq> None" for m'
      by (rule Cons.IH) simp
    with Inr Cons.prems show ?thesis by (auto simp: Let_def split: prod.splits)
  qed simp
qed simp

text \<open>
  C40: Whatever the reads return and whichever allocation fails, \<open>read_all\<close> never touches a byte
  behind its buffer, and with enough memory it returns exactly what was read up to the first
  read that was not full, or NULL when a read before that failed.
\<close>

theorem read_all_received:
  "(\<exists>r m'. read_all rs m = Some (r, m')) \<and> read_all rs [] = Some (received rs, [])"
proof -
  have "read_all rs m \<noteq> None"
    using read_loop_inside [of CHUNK "[]" rs] by (auto simp: read_all_def split: prod.splits)
  moreover have "read_all rs [] = Some (received rs, [])"
    using read_loop_result [of CHUNK "[]" rs] by (simp add: read_all_def option.map_ident)
  ultimately show ?thesis by auto
qed

lemma length_more_trunks: "length (concat (map (\<lambda>t. '', '' @ dec (unat (t :: u32))) ts)) \<le> 12 * length ts"
proof (induction ts)
  case (Cons t ts)
  with length_dec_u32 [of t] show ?case by simp
qed simp

text \<open>
  The label of a port's trunks fits into the buffer \<open>label_port_or_iface\<close> allocates for it,
  with its terminating NUL, for fewer than \<open>2 ^ 28 - 1\<close> trunks of any value; with \<open>2 ^ 28\<close>
  trunks the 32-bit size wraps to 8 bytes.
\<close>

lemma trunks_text_fits:
  assumes "ts \<noteq> []" and "length ts < 2 ^ 28 - 1"
  shows "length (trunks_text ts) < trunks_size (of_nat (length ts)) \<and> trunks_size (2 ^ 28) = 8"
proof -
  obtain t us where ts: "ts = t # us" using assms(1) by (cases ts) auto
  have "length (trunks_text ts) \<le> 7 + 10 + 12 * length us"
    using length_dec_u32 [of t] length_more_trunks [of us] by (simp add: trunks_text_def ts)
  moreover have "trunks_size (of_nat (length ts)) = 16 * length ts + 8"
  proof -
    have "(16 * of_nat (length ts) + 7 + 1 :: u32) = of_nat (16 * length ts + 8)" by simp
    moreover have "unat (of_nat (16 * length ts + 8) :: u32) = 16 * length ts + 8"
      using assms(2) by (subst unat_of_nat) simp
    ultimately show ?thesis unfolding trunks_size_def by metis
  qed
  ultimately show ?thesis by (simp add: ts) (simp add: trunks_size_def)
qed

lemma destruct_port_None: "destruct_port p = None \<longleftrightarrow> op_trunks p \<noteq> NullPtr"
  by (cases "op_trunks p") (simp_all add: destruct_port_def)

lemma destruct_ports_iff: "destruct_ports ps \<longleftrightarrow> list_all (\<lambda>p. op_trunks p = NullPtr) ps"
  by (induction ps) (auto simp: destruct_port_None)

text \<open>
  C38: The cleanup at the end of the program frees memory twice exactly when some port of a
  bridge, other than the port of the bridge itself, has trunk VLANs.
\<close>

theorem ovs_cleanup_double_free:
  "ovs_global_cleanup w = None \<longleftrightarrow>
     list_ex (\<lambda>br. list_ex (\<lambda>p. op_trunks p \<noteq> NullPtr) (ob_ports br)) (os_bridges (w_ovs w))"
  by (auto simp: ovs_global_cleanup_def destruct_bridge_def destruct_ports_iff list_all_iff list_ex_iff)

end
