(* ===== verification/OvsSound.thy ===== *)
theory OvsSound
  imports Ovs
begin

text \<open>
  What the Open vSwitch handler does to the relations between interfaces: it creates
  interfaces at the next free entry, and relates only listed ones.  The invariant \<open>sound\<close> says
  that the listed interfaces are placed, and that the relations are consistent and between
  listed interfaces only; \<open>sound_with E\<close> adds that the interfaces of \<open>E\<close> are listed.
\<close>

definition sound :: "world \<Rightarrow> bool" where
  "sound w \<longleftrightarrow> placed w \<and> within (set (all_ifs w)) w \<and> ovs_unlinked (w_ovs w)"

definition sound_with :: "ifp set \<Rightarrow> world \<Rightarrow> bool" where
  "sound_with E w \<longleftrightarrow> sound w \<and> E \<subseteq> set (all_ifs w)"

lemma on_links_sound: "on_links (sound_with E)"
  unfolding on_links_def
proof (intro allI impI)
  fix v w
  assume p: "sound_with E v" and s: "same_links v w"
  have n: "all_ifs w = all_ifs v" "w_ovs w = w_ovs v" using s by (simp_all add: same_links_def all_ifs_def)
  have "placed w" using on_linksD [OF on_links_placed _ s] p by (simp add: sound_with_def sound_def)
  moreover have "within (set (all_ifs v)) w" using on_linksD [OF on_links_within _ s] p by (simp add: sound_with_def sound_def)
  ultimately show "sound_with E w" using p n by (simp add: sound_with_def sound_def)
qed

lemma sound_empty: "sound_with {} w \<longleftrightarrow> sound w"
  by (simp add: sound_with_def)

lemma sound_subset: "sound_with F w \<Longrightarrow> E \<subseteq> F \<Longrightarrow> sound_with E w"
  by (auto simp: sound_with_def)

lemma sound_listed: "sound_with E w \<Longrightarrow> e \<in> set (n_ifaces (w_ns w n)) \<Longrightarrow> sound_with (insert e E) w"
  using homed_all [of w n] by (auto simp: sound_with_def sound_def within_def)

interpretation steady: relating "\<lambda>w. w_ovs w = S" UNIV for S
proof unfold_locales
  show "keeps (\<lambda>w. w_ovs w = S) (link_set t entry)" for t entry
    by (cases entry) (simp_all add: link_set_assign keeps_assign keeps_return_err)
  show "keeps (\<lambda>w. w_ovs w = S) (assign (upd_if e (\<lambda>i. i\<lparr>i_physfn := t\<rparr>)))" for e t
    by (rule keeps_assign) simp
  show "keeps (\<lambda>w. w_ovs w = S) (peer_set a b)" for a b
    unfolding peer_set_def by (intro keeps_andthen keeps_assign) simp_all
qed (auto simp: on_links_def same_links_def master_set_assign intro: keeps_assign)

lemma keeps_sound:
  assumes p: "keeps placed f" and b: "\<And>A. E \<subseteq> A \<Longrightarrow> keeps (within A) f"
    and o: "\<And>S. keeps (\<lambda>w. w_ovs w = S) f"
  shows "keeps (sound_with E) f"
proof (rule keepsI)
  fix w err w'
  assume s: "sound_with E w" and r: "f w = Some (err, w')"
  have "placed w'" using keepsD [OF p _ r] s by (simp add: sound_with_def sound_def)
  moreover have "within (set (all_ifs w)) w'" using keepsD [OF b _ r] s by (simp add: sound_with_def sound_def)
  moreover have "w_ovs w' = w_ovs w" using keepsD [OF o _ r] by simp
  moreover from calculation have "set (all_ifs w') = set (all_ifs w)" by (simp add: within_def)
  ultimately show "sound_with E w'" using s by (simp add: sound_with_def sound_def)
qed

lemma keeps_sound_sets:
  "e \<in> E \<Longrightarrow> set_option t \<subseteq> E \<Longrightarrow> keeps (sound_with E) (master_set t e)"
  "e \<in> E \<Longrightarrow> set_option t \<subseteq> E \<Longrightarrow> keeps (sound_with E) (link_set t (Some e))"
  "set_option a \<subseteq> E \<Longrightarrow> set_option b \<subseteq> E \<Longrightarrow> keeps (sound_with E) (peer_set a b)"
proof -
  show "keeps (sound_with E) (master_set t e)" if "e \<in> E" "set_option t \<subseteq> E"
    by (rule keeps_sound, simp add: placing.master_set_keeps, rule bounded.master_set_keeps) (use that steady.master_set_keeps in auto)
  show "keeps (sound_with E) (link_set t (Some e))" if "e \<in> E" "set_option t \<subseteq> E"
    by (rule keeps_sound, simp add: placing.link_set_keeps, rule bounded.link_set_keeps) (use that steady.link_set_keeps in auto)
  show "keeps (sound_with E) (peer_set a b)" if "set_option a \<subseteq> E" "set_option b \<subseteq> E"
    by (rule keeps_sound, simp add: placing.peer_set_keeps, rule bounded.peer_set_keeps) (use that steady.peer_set_keeps in auto)
qed

section \<open>Searching changes nothing that is related\<close>

lemma check_vport_same: "check_vport V n e w = Some (ok, w') \<Longrightarrow> same_links w w'"
  by (auto simp: check_vport_def Let_def same_links_mem split: bind_splits if_splits option.splits prod.splits)

lemma same_links_trans: "same_links u v \<Longrightarrow> same_links v w \<Longrightarrow> same_links u w"
  by (simp add: same_links_def)

lemma same_links_upd: "(\<And>i. if_links (f i) = if_links i) \<Longrightarrow> same_links w (upd_if e f (w\<lparr>w_mem := m\<rparr>))"
  by (simp add: same_links_def)

lemma link_iface_search_same: "link_iface_search V dp master iface e w = Some (r, w') \<Longrightarrow> same_links w w'"
  unfolding link_iface_search_def Let_def
  by (auto split: if_splits ovs_dp_type.splits option.splits prod.splits bind_splits dest: check_vport_same
      intro!: same_links_upd simp: if_links_def)

lemma search_weights_same: "search_weights (link_iface_search V dp master iface) es w = Some (p, w') \<Longrightarrow> same_links w w'"
proof (induction es arbitrary: w p w')
  case (Cons e es)
  from Cons.prems obtain r v q where "link_iface_search V dp master iface e w = Some (r, v)"
    "search_weights (link_iface_search V dp master iface) es v = Some (q, w')" by (auto split: bind_splits)
  then show ?case by (blast intro: same_links_trans link_iface_search_same Cons.IH)
qed simp

lemma root_warn_same: "same_links w (root_warn msg w)"
  by (auto simp: root_warn_def Let_def same_links_def split: prod.splits)

lemma root_warn_trans: "same_links w v \<Longrightarrow> same_links w (root_warn msg v)"
  by (rule same_links_trans [OF _ root_warn_same])

lemma match_init_found [simp]: "md_found (match_init\<lparr>md_netns_list := x\<rparr>) = None"
  by (simp add: match_init_def)

lemma link_iface_cases:
  assumes "link_iface V dp master iface required w = Some (err, iface', w')"
  shows "same_links w w' \<and> (iface' = iface \<or>
    (\<exists>v d err p. same_links v w' \<and> match_if v p (match_init\<lparr>md_netns_list := Some (w_list v)\<rparr>) = Some (err, d) \<and>
       iface' = iface\<lparr>oi_link := match_found d\<rparr>))"
proof (cases "oi_link iface")
  case None
  with assms obtain p v err' d where s: "search_weights (link_iface_search V dp master iface) (all_ifs w) w = Some (p, v)"
    and m: "match_if v (\<lambda>e. Some (p e)) (match_init\<lparr>md_netns_list := Some (w_list v)\<rparr>) = Some (err', d)"
    by (auto simp: link_iface_def split: bind_splits)
  from assms None s m have "(w' = v \<or> (\<exists>msg. w' = root_warn msg v)) \<and> (iface' = iface \<or> iface' = iface\<lparr>oi_link := match_found d\<rparr>)"
    unfolding link_iface_def Let_def by (simp split: if_splits) (metis | blast)+
  with search_weights_same [OF s] m root_warn_same [of v] root_warn_trans [of w v] same_links_refl [of v] show ?thesis by metis
qed (use assms in \<open>simp add: link_iface_def\<close>)

lemma link_iface_listed:
  assumes "link_iface V dp master iface required w = Some (err, iface', w')"
  shows "same_links w w'" and "oi_link iface' = Some e \<Longrightarrow> oi_link iface = Some e \<or> (\<exists>n. e \<in> set (n_ifaces (w_ns w' n)))"
proof -
  show "same_links w w'" using link_iface_cases [OF assms] by blast
  assume e: "oi_link iface' = Some e"
  from link_iface_cases [OF assms] show "oi_link iface = Some e \<or> (\<exists>n. e \<in> set (n_ifaces (w_ns w' n)))"
  proof (elim conjE disjE exE)
    fix v d err p
    assume v: "same_links v w'" "match_if v p (match_init\<lparr>md_netns_list := Some (w_list v)\<rparr>) = Some (err, d)"
      "iface' = iface\<lparr>oi_link := match_found d\<rparr>"
    from match_if_listed [OF v(2) found_listed_init [OF match_init_found]] e v(3)
    obtain n where "e \<in> set (n_ifaces (w_ns v n))" by auto
    with v(1) show ?thesis by (auto simp: same_links_def)
  qed (use e in simp)
qed

section \<open>Creating and connecting interfaces\<close>

lemma relations_ok_relations:
  assumes "\<And>x. if_relations (w_if v x) = if_relations (w_if w x)"
  shows "relations_ok v = relations_ok w"
proof -
  have e: "i_master (w_if v x) = i_master (w_if w x)" "i_rev_master (w_if v x) = i_rev_master (w_if w x)"
    "i_link (w_if v x) = i_link (w_if w x)" "i_rev_link (w_if v x) = i_rev_link (w_if w x)"
    "i_peer (w_if v x) = i_peer (w_if w x)" for x
    using assms [of x] by (simp_all add: if_relations_def)
  show ?thesis
    unfolding relations_ok_def by (simp only: masters_ok_cong [OF e(1,2)] links_ok_cong [OF e(3,4)] peers_ok_cong [OF e(5)])
qed

lemma within_grow:
  assumes "within A w" and "\<And>x. if_relations (w_if v x) = if_relations (w_if w x)" and "w_list v = w_list w"
    and "\<And>n. n_ifaces (w_ns v n) = (if n = hd (w_list w) then n_ifaces (w_ns w n) @ es else n_ifaces (w_ns w n))"
  shows "within (set (all_ifs v)) v" and "set (all_ifs v) = A \<union> set es"
proof -
  from assms(1) have h: "homed w" "A = set (all_ifs w)" and r: "relations_ok w"
    and none: "\<And>x. x \<notin> A \<Longrightarrow> if_relations (w_if w x) = (None, None, None, None, [], [])"
    and pf: "\<And>x. set_option (i_physfn (w_if w x)) \<subseteq> A" by (auto simp: within_def)
  from h(1) have l: "hd (w_list w) \<in> set (w_list w)" by (simp add: homed_def)
  then show A: "set (all_ifs v) = A \<union> set es" by (auto simp: h(2) all_ifs_def assms(3,4) split: if_splits)
  have "homed v" using h(1) l by (auto simp: homed_def assms(3,4))
  then show "within (set (all_ifs v)) v"
    using r none pf assms(2)
    by (simp add: within_def relations_ok_relations [of v w, OF assms(2)] A) (auto simp: if_relations_def)
qed

lemma create_iface_sound:
  assumes s: "sound_with E w" and c: "create_iface name br w = (r, w')"
  shows "sound_with (E \<union> set_option r) w'"
proof -
  let ?N = "w_next w"
  let ?f = "\<lambda>i. i\<lparr>i_internal_ns := Some (''ovs:'' @ br), i_name := name, i_ns := hd (w_list w), i_flags := i_flags i OR IF_INTERNAL\<rparr>"
  from s have pl: "placed w" and b: "within (set (all_ifs w)) w" and E: "E \<subseteq> set (all_ifs w)" and o: "ovs_unlinked (w_ovs w)"
    by (auto simp: sound_with_def sound_def)
  have N: "?N \<notin> set (n_ifaces (w_ns w n))" for n using pl by (auto simp: placed_def)
  then have "if_relations (w_if w ?N) = (None, None, None, None, [], [])" using b by (auto simp: within_def all_ifs_def)
  then have none: "if_relations (((w_if w)(?N := if_entry0)) x) = if_relations (w_if w x)" for x
    by (simp add: if_relations_def if_entry0_def)
  from c consider (oom) m where "r = None" "w' = w\<lparr>w_mem := m\<rparr>"
    | (failed) m where "r = None" "w' = w\<lparr>w_if := (w_if w)(?N := if_entry0), w_next := Suc ?N, w_mem := m\<rparr>"
    | (made) m where "r = Some ?N" "w' = upd_ns (hd (w_list w)) (\<lambda>s. s\<lparr>n_ifaces := n_ifaces s @ [?N]\<rparr>)
        (upd_if ?N ?f (w\<lparr>w_if := (w_if w)(?N := if_entry0), w_next := Suc ?N, w_mem := m\<rparr>))"
    by (auto simp: create_iface_def if_create_def Let_def split: prod.splits if_splits)
  then show ?thesis
  proof cases
    case oom
    with on_links_mem [OF on_links_sound s] show ?thesis by simp
  next
    case (failed m)
    have r: "if_relations (w_if w' x) = if_relations (w_if w x)" for x using none failed by simp
    have "within (set (all_ifs w')) w'" "set (all_ifs w') = set (all_ifs w) \<union> set []"
      using failed by (intro within_grow [OF b r, of "[]"]; simp)+
    moreover have "placed w'" using pl failed by (auto simp: placed_def intro: less_SucI)
    ultimately show ?thesis using E o failed by (auto simp: sound_with_def sound_def)
  next
    case (made m)
    have r: "if_relations (w_if w' x) = if_relations (w_if w x)" for x
      using none [of x] made by (auto simp: if_relations_def if_entry0_def)
    have "within (set (all_ifs w')) w'" "set (all_ifs w') = set (all_ifs w) \<union> set [?N]"
      using made by (intro within_grow [OF b r, of "[?N]"]; simp)+
    moreover have "placed w'" using pl made N by (auto simp: placed_def intro: less_SucI)
    ultimately show ?thesis using E o made by (auto simp: sound_with_def sound_def)
  qed
qed

lemma keeps_label_iface: "on_links P \<Longrightarrow> keeps P (label_iface iface e)"
  unfolding label_iface_def by (intro keeps_each) (auto split: option.splits intro!: keeps_intros)

lemma keeps_label_port:
  assumes P: "on_links P"
  shows "keeps P (label_port_or_iface port e)"
proof -
  have l: "keeps P (set_label e lbl)" for lbl
    unfolding set_label_def by (rule keeps_setting [OF P]) (simp add: if_links_def)
  show ?thesis
    unfolding label_port_or_iface_def Let_def
    by (intro keeps_if keeps_if_alloc on_links_mem [OF P])
      (auto split: option.splits cptr.splits intro!: keeps_intros l P)
qed

lemma keeps_link_tunnel:
  assumes e: "e \<in> E"
  shows "keeps (sound_with E) (link_tunnel V iface e)"
proof -
  have flags: "keeps (sound_with F) (assign (upd_if e (\<lambda>i. i\<lparr>i_flags := i_flags i OR IF_LINK_WEAK\<rparr>)))" for F
    by (rule keeps_setting [OF on_links_sound]) (simp add: if_links_def)
  have "keeps (sound_with E) (reading (\<lambda>w. case tunnel_find_str (oe_pton V) w (i_ns (w_if w e)) ip of
      None \<Rightarrow> crash | Some t \<Rightarrow> andthen (link_set t (Some e)) (assign (upd_if e (\<lambda>i. i\<lparr>i_flags := i_flags i OR IF_LINK_WEAK\<rparr>)))))" for ip
  proof (rule keepsI)
    fix w err w'
    assume s: "sound_with E w" and r: "reading (\<lambda>w. case tunnel_find_str (oe_pton V) w (i_ns (w_if w e)) ip of
      None \<Rightarrow> crash | Some t \<Rightarrow> andthen (link_set t (Some e)) (assign (upd_if e (\<lambda>i. i\<lparr>i_flags := i_flags i OR IF_LINK_WEAK\<rparr>)))) w = Some (err, w')"
    from r obtain t where t: "tunnel_find_str (oe_pton V) w (i_ns (w_if w e)) ip = Some t"
      "andthen (link_set t (Some e)) (assign (upd_if e (\<lambda>i. i\<lparr>i_flags := i_flags i OR IF_LINK_WEAK\<rparr>))) w = Some (err, w')"
      by (auto simp: reading_def crash_def split: option.splits)
    have f: "sound_with (E \<union> set_option t) w"
      using s t(1) by (cases t) (auto dest: tunnel_find_listed(1) intro: sound_listed)
    have "keeps (sound_with (E \<union> set_option t)) (andthen (link_set t (Some e)) (assign (upd_if e (\<lambda>i. i\<lparr>i_flags := i_flags i OR IF_LINK_WEAK\<rparr>))))"
      by (intro keeps_andthen keeps_sound_sets flags) (use e in auto)
    from keepsD [OF this f t(2)] show "sound_with E w'" by (rule sound_subset) blast
  qed
  then show ?thesis unfolding link_tunnel_def by (auto split: option.splits intro: keeps_ok)
qed

lemma keeps_link_patch:
  assumes e: "e \<in> E"
  shows "keeps (sound_with E) (link_patch iface e)"
proof (rule keepsI)
  fix w err w'
  assume s: "sound_with E w" and r: "link_patch iface e w = Some (err, w')"
  obtain err' d where m: "match_if w (link_patch_search w iface) (match_init\<lparr>md_netns_list := Some (w_list w)\<rparr>) = Some (err', d)"
    using r by (cases "match_if w (link_patch_search w iface) (match_init\<lparr>md_netns_list := Some (w_list w)\<rparr>)")
      (auto simp: link_patch_def reading_def crash_def)
  have f: "sound_with (E \<union> set_option (match_found d)) w"
    using s match_if_listed [OF m] by (cases "match_found d") (auto intro: sound_listed)
  have warn: "keeps (sound_with F) (if_add_warning e msg)" for F msg by (rule keeps_if_add_warning [OF on_links_sound])
  have "keeps (sound_with (E \<union> set_option (match_found d)))
      (if err' \<noteq> 0 then return_err err' else if match_ambiguous d then if_add_warning e ''failed to find openvswitch patch port peer reliably''
       else case match_found d of None \<Rightarrow> return_err 0 | Some p \<Rightarrow> andthen (peer_set (Some e) (Some p)) (return_err 0))"
    using e by (intro keeps_if keeps_return_err warn) (cases "match_found d"; auto intro!: keeps_andthen keeps_return_err keeps_sound_sets)
  from keepsD [OF this f] r m have "sound_with (E \<union> set_option (match_found d)) w'" by (simp add: link_patch_def reading_def)
  then show "sound_with E w'" by (rule sound_subset) blast
qed

lemma keeps_connect:
  assumes "e \<in> E" "set_option master \<subseteq> E"
  shows "keeps (sound_with E) (connect_iface V port master iface e)"
  unfolding connect_iface_def
  by (intro keeps_andthen keeps_if keeps_ok keeps_sound_sets keeps_label_iface keeps_label_port on_links_sound
      keeps_link_tunnel keeps_link_patch assms)

section \<open>The handler keeps the invariant\<close>

lemma keeps_link_port_iface:
  assumes m: "set_option master \<subseteq> E" and l: "oi_link iface = None"
  shows "keeps (sound_with E) (link_port_iface V br ovs_master port master iface)"
proof (rule keepsI)
  fix w err w'
  assume s: "sound_with E w" and r: "link_port_iface V br ovs_master port master iface w = Some (err, w')"
  from r obtain err' iface' v where v: "link_iface V (ob_dp_type br) ovs_master iface False w = Some (err', iface', v)"
    by (auto simp: link_port_iface_def split: bind_splits)
  note same = link_iface_listed [OF v]
  have sv: "sound_with E v" by (rule on_linksD [OF on_links_sound s same(1)])
  show "sound_with E w'"
  proof (cases "err' = 0")
    case True
    show ?thesis
    proof (cases "oi_link iface'")
      case (Some e)
      with same(2) l obtain n where "e \<in> set (n_ifaces (w_ns v n))" by auto
      from sound_listed [OF sv this] have f: "sound_with (insert e E) v" .
      have "keeps (sound_with (insert e E)) (connect_iface V port master iface' e)"
        using m by (intro keeps_connect) auto
      from keepsD [OF this f] r v True Some have "sound_with (insert e E) w'" by (simp add: link_port_iface_def)
      then show ?thesis by (rule sound_subset) blast
    next
      case None
      obtain c u where c: "create_iface (oi_name iface') (ob_name br) v = (c, u)" by fastforce
      note f = create_iface_sound [OF sv c]
      show ?thesis
      proof (cases c)
        case (Some e)
        have "keeps (sound_with (E \<union> set_option c)) (connect_iface V port master iface' e)"
          using m Some by (intro keeps_connect) auto
        from keepsD [OF this f] r v True None c Some have "sound_with (E \<union> set_option c) w'" by (simp add: link_port_iface_def)
        then show ?thesis by (rule sound_subset) blast
      qed (use r v True None c f in \<open>simp add: link_port_iface_def\<close>)
    qed
  qed (use r v sv in \<open>simp add: link_port_iface_def\<close>)
qed


lemma keeps_link_port:
  assumes l: "\<forall>i \<in> set (op_ifaces port). oi_link i = None" and m: "set_option (oi_link ovs_master) \<subseteq> E"
  shows "keeps (sound_with E) (link_port V br ovs_master port)"
proof (rule keepsI)
  fix w err w'
  assume s: "sound_with E w" and r: "link_port V br ovs_master port w = Some (err, w')"
  show "sound_with E w'"
  proof (cases "op_iface_count port > 1")
    case True
    obtain c v where c: "create_iface (op_name port) (ob_name br) w = (c, v)" by fastforce
    note f = create_iface_sound [OF s c]
    show ?thesis
    proof (cases c)
      case (Some e)
      have "keeps (sound_with (E \<union> set_option c)) (andthen (master_set (oi_link ovs_master) e)
            (andthen (label_port_or_iface port e) (each_act (link_port_iface V br ovs_master port (Some e)) (op_ifaces port))))"
        using Some m l
        by (intro keeps_andthen keeps_each keeps_sound_sets keeps_label_port keeps_link_port_iface on_links_sound) auto
      from keepsD [OF this f] r True c Some have "sound_with (E \<union> set_option c) w'" by (simp add: link_port_def)
      then show ?thesis by (rule sound_subset) blast
    qed (use r True c f in \<open>simp add: link_port_def\<close>)
  next
    case False
    have "keeps (sound_with E) (each_act (link_port_iface V br ovs_master port (oi_link ovs_master)) (op_ifaces port))"
      using l m by (intro keeps_each keeps_link_port_iface) auto
    from keepsD [OF this s] r False show ?thesis by (simp add: link_port_def)
  qed
qed

lemma keeps_link_bridge:
  assumes b: "bridge_unlinked br"
  shows "keeps (sound_with E) (link_bridge V br)"
proof (rule keepsI)
  fix w err w'
  assume s: "sound_with E w" and r: "link_bridge V br w = Some (err, w')"
  have warn: "sound_with E (root_warn msg w)" for msg by (rule on_linksD [OF on_links_sound s root_warn_same])
  from r warn consider "sound_with E w'"
    | sys m ms err' m' v where "ob_system br = Some sys" "op_ifaces sys = m # ms"
        "link_iface V (ob_dp_type br) m m True w = Some (err', m', v)"
        "(err' \<noteq> 0 \<and> w' = v) \<or> (err' = 0 \<and> each_act (link_port V br m') (ob_ports br) v = Some (err, w'))"
    by (auto simp: link_bridge_def Let_def split: option.splits if_splits list.splits bind_splits)
  then show "sound_with E w'"
  proof cases
    case 2
    note same = link_iface_listed [OF 2(3)]
    have sv: "sound_with E v" by (rule on_linksD [OF on_links_sound s same(1)])
    have "oi_link m = None" using b 2(1,2) by (auto simp: bridge_unlinked_def)
    with same(2) sv have f: "sound_with (E \<union> set_option (oi_link m')) v"
      by (cases "oi_link m'") (auto intro: sound_listed)
    have "keeps (sound_with (E \<union> set_option (oi_link m'))) (each_act (link_port V br m') (ob_ports br))"
      using b by (intro keeps_each keeps_link_port) (auto simp: bridge_unlinked_def)
    from keepsD [OF this f] 2(4) sv show ?thesis by (auto dest: sound_subset)
  qed
qed

lemma keeps_link_ifaces: "keeps (sound_with E) (link_ifaces V)"
  unfolding link_ifaces_def
  by (intro keeps_reading_in keeps_each keeps_link_bridge)
    (auto simp: sound_with_def sound_def ovs_unlinked_def list_all_iff)

text \<open>What \<open>parse\<close> adds is not linked.\<close>

lemma parse_iface_unlinked: "parse_iface J R u s = Some (Inr i, s') \<Longrightarrow> oi_link i = None"
  by (auto simp: parse_iface_def parse_options_def pcall_defs ovs_if0_def Let_def split: option.splits if_splits sum.splits prod.splits)

lemma parse_ifaces_unlinked:
  "parse_ifaces J R us port s = Some (Inr (err, port'), s') \<Longrightarrow> \<forall>i \<in> set (op_ifaces port). oi_link i = None \<Longrightarrow>
    \<forall>i \<in> set (op_ifaces port'). oi_link i = None"
proof (induction us arbitrary: port s)
  case (Cons u us)
  show ?case
  proof (cases "parse_iface J R u s")
    case (Some r)
    obtain x t where r: "r = (x, t)" by (cases r)
    show ?thesis
    proof (cases x)
      case (Inr i)
      with Some r have "oi_link i = None" by (auto dest: parse_iface_unlinked)
      with Cons Some r Inr show ?thesis by (fastforce simp: p_catch_def)
    qed (use Cons.prems Some r in \<open>simp add: p_catch_def p_ok_def\<close>)
  qed (use Cons.prems in \<open>simp add: p_catch_def\<close>)
qed (auto simp: p_ok_def)

lemma parse_port_info_ifaces: "parse_port_info J port j s = Some (Inr (err, port'), s') \<Longrightarrow> op_ifaces port' = op_ifaces port"
  by (auto simp: parse_port_info_def parse_bond_def pcall_defs Let_def split: option.splits if_splits sum.splits prod.splits)

lemma parse_port_unlinked:
  assumes "parse_port J R u br s = Some (Inr br', s')" and "bridge_unlinked br"
  shows "bridge_unlinked br'"
proof -
  from assms(1) obtain port us err p t t' err' port' where
    "parse_port_info J (ovs_port0\<lparr>op_name := p\<rparr>) port t = Some (Inr (err, port'), t')"
    and q: "\<exists>t q t'. parse_ifaces J R us port' t = Some (Inr (err', q), t') \<and> br' = add_port br q"
    by (auto simp: parse_port_def pcall_defs Let_def err_port_def split: option.splits if_splits sum.splits prod.splits) blast
  from parse_port_info_ifaces [OF this(1)] have "op_ifaces port' = []" by (simp add: ovs_port0_def)
  with q assms(2) show ?thesis
    by (auto simp: add_port_def bridge_unlinked_def split: if_splits dest!: parse_ifaces_unlinked)
qed


lemma parse_ports_unlinked:
  "parse_ports J R us br s = Some (Inr (err, br'), s') \<Longrightarrow> bridge_unlinked br \<Longrightarrow> bridge_unlinked br'"
proof (induction us arbitrary: br s)
  case (Cons u us)
  show ?case
  proof (cases "parse_port J R u br s")
    case (Some r)
    obtain x t where r: "r = (x, t)" by (cases r)
    show ?thesis
    proof (cases x)
      case (Inr b)
      with Some r Cons.prems(2) have "bridge_unlinked b" by (auto dest: parse_port_unlinked)
      with Cons Some r Inr show ?thesis by (simp add: p_catch_def)
    qed (use Cons.prems Some r in \<open>simp add: p_catch_def p_ok_def\<close>)
  qed (use Cons.prems in \<open>simp add: p_catch_def\<close>)
qed (auto simp: p_ok_def)

lemma parse_bridge_unlinked:
  assumes "parse_bridge J R u s = Some (Inr br, s')"
  shows "bridge_unlinked br"
proof -
  from assms have "\<exists>us b t err t'. parse_ports J R us b t = Some (Inr (err, br), t') \<and> ob_ports b = [] \<and> ob_system b = None"
    by (auto simp: parse_bridge_def pcall_defs Let_def err_br_def split: option.splits if_splits sum.splits prod.splits)
      (fastforce+)?
  then obtain us b t err t' where r: "parse_ports J R us b t = Some (Inr (err, br), t')" and b: "ob_ports b = []" "ob_system b = None"
    by blast
  from b have "bridge_unlinked b" by (simp add: bridge_unlinked_def)
  with r show ?thesis by (rule parse_ports_unlinked)
qed

lemma parse_bridges_unlinked:
  "parse_bridges J R us e l s = Some (Inr (err, l'), s') \<Longrightarrow> list_all bridge_unlinked l \<Longrightarrow> list_all bridge_unlinked l'"
proof (induction us arbitrary: e l s)
  case (Cons u us)
  show ?case
  proof (cases "parse_bridge J R u s")
    case (Some r)
    obtain x t where r: "r = (x, t)" by (cases r)
    show ?thesis
    proof (cases x)
      case (Inr b)
      with Some r have "bridge_unlinked b" by (auto dest: parse_bridge_unlinked)
      with Cons Some r Inr show ?thesis by (simp add: p_catch_def)
    qed (use Cons.prems Some r in \<open>simp add: p_catch_def p_ok_def\<close>)
  qed (use Cons.prems in \<open>simp add: p_catch_def\<close>)
qed (auto simp: p_ok_def)

lemma parse_unlinked:
  "parse J answer l s = Some (Inr (err, l'), s') \<Longrightarrow> list_all bridge_unlinked l \<Longrightarrow> list_all bridge_unlinked l'"
  by (auto simp: parse_def parse_result_def Let_def p_warn_def p_ok_def p_crash_def split: option.splits if_splits prod.splits
      intro: parse_bridges_unlinked)

lemma same_but_bridges:
  assumes "sound_with E w" and "list_all bridge_unlinked brs"
  shows "sound_with E (set_bridges brs w)"
proof -
  have "placed (set_bridges brs w) = placed w" by (simp add: placed_def set_bridges_def)
  moreover have "within A (set_bridges brs w) = within A w" "all_ifs (set_bridges brs w) = all_ifs w" for A
    using relations_ok_relations [of "set_bridges brs w" w]
    by (simp add: within_def) (simp_all add: set_bridges_def homed_def all_ifs_def)
  ultimately show ?thesis using assms by (simp add: sound_with_def sound_def) (simp add: set_bridges_def ovs_unlinked_def)
qed

lemma keeps_parse_reply: "keeps (sound_with E) (parse_reply V reply)"
proof (rule keepsI)
  fix w err w'
  assume s: "sound_with E w" and r: "parse_reply V reply w = Some (err, w')"
  have f: "sound_with E (upd_ns (hd (w_list w)) (\<lambda>s. s\<lparr>n_warnings := ls\<rparr>) (w\<lparr>w_mem := m\<rparr>))" for ls m
    by (rule on_links_upd_ns [OF on_links_sound _ on_links_mem [OF on_links_sound s]]) simp
  from s have "list_all bridge_unlinked (os_bridges (w_ovs w))" by (simp add: sound_with_def sound_def ovs_unlinked_def)
  with r f show "sound_with E w'"
    by (auto simp: parse_reply_def Let_def split: option.splits prod.splits sum.splits intro!: same_but_bridges dest: parse_unlinked)
qed

lemma keeps_ovs_post: "keeps (sound_with E) (ovs_global_post V)"
proof (rule keepsI)
  fix w err w'
  assume s: "sound_with E w" and r: "ovs_global_post V w = Some (err, w')"
  have m: "sound_with E (w\<lparr>w_mem := m\<rparr>)" for m by (rule on_links_mem [OF on_links_sound s])
  have k: "keeps (sound_with E) (andthen (parse_reply V reply) (branch (\<lambda>w. os_bridges (w_ovs w) = []) ok_act (link_ifaces V)))" for reply
    by (intro keeps_andthen keeps_parse_reply keeps_branch keeps_ok keeps_link_ifaces)
  from r m show "sound_with E w'"
    by (auto simp: ovs_global_post_def ovs_talk_def Let_def split: prod.splits option.splits if_splits bind_splits
        dest!: keepsD [OF k, rotated])
qed

end
