(* ===== verification/OvsLinks.thy ===== *)
theory OvsLinks
  imports OvsSound
begin

text \<open>
  Where the Open vSwitch handler puts the interfaces of the database: under the main interface
  of their bridge, or under the interface created for their bond.
\<close>

section \<open>What stays\<close>

text \<open>A listed interface with its name, internal name space and master.\<close>

definition stays :: "ifp \<Rightarrow> string \<times> string option \<times> ifp option \<Rightarrow> world \<Rightarrow> bool" where
  "stays e X w \<longleftrightarrow> (\<exists>n. e \<in> set (n_ifaces (w_ns w n))) \<and> (i_name (w_if w e), i_internal_ns (w_if w e), i_master (w_if w e)) = X"

lemma on_links_stays: "on_links (stays e X)"
  unfolding on_links_def
proof (intro allI impI)
  fix v w assume s: "stays e X v" and l: "same_links v w"
  have "if_links (w_if v e) = if_links (w_if w e)" using l by (simp add: same_links_def)
  then have "i_name (w_if w e) = i_name (w_if v e)" "i_internal_ns (w_if w e) = i_internal_ns (w_if v e)"
    "i_master (w_if w e) = i_master (w_if v e)" by (simp_all add: if_links_def)
  with s l show "stays e X w" by (simp add: stays_def same_links_def)
qed

lemma peer_set_one_names [simp]:
  "i_name (w_if (peer_set_one a b w) x) = i_name (w_if w x)" "i_internal_ns (w_if (peer_set_one a b w) x) = i_internal_ns (w_if w x)"
  by (auto simp: peer_set_one_def Let_def split: option.splits)

lemma set_names [simp]:
  "i_name (w_if (set_link t e w) x) = i_name (w_if w x)" "i_internal_ns (w_if (set_link t e w) x) = i_internal_ns (w_if w x)"
  "i_name (w_if (set_master t e w) x) = i_name (w_if w x)" "i_internal_ns (w_if (set_master t e w) x) = i_internal_ns (w_if w x)"
  by (auto simp: set_link_def link_set_def set_master_def master_set_def assign_def Let_def split: option.splits)

lemma keeps_stays_link: "keeps (stays e X) (link_set t entry)"
  by (cases entry) (auto simp: link_set_assign stays_def intro!: keeps_assign keeps_return_err)

lemma keeps_stays_peer: "keeps (stays e X) (peer_set a b)"
  unfolding peer_set_def by (intro keeps_andthen keeps_assign) (simp_all add: stays_def)

lemma keeps_stays_master: "x \<noteq> e \<Longrightarrow> keeps (stays e X) (master_set t x)"
  by (auto simp: master_set_assign stays_def masters.target_set intro!: keeps_assign)

lemma create_iface_stays:
  assumes "stays e X w" and "sound w" and "create_iface name br w = (r, w')"
  shows "stays e X w'"
proof -
  have "e < w_next w" using assms(1,2) by (auto simp: stays_def sound_def placed_def)
  moreover obtain n where "e \<in> set (n_ifaces (w_ns w n))" using assms(1) by (auto simp: stays_def)
  ultimately have "e \<in> set (n_ifaces (w_ns w' n)) \<and> w_if w' e = w_if w e"
    using assms(3) by (auto simp: create_iface_def if_create_def Let_def split: prod.splits if_splits)
  with assms(1) show ?thesis by (auto simp: stays_def)
qed

lemma created_stays:
  "create_iface name br w = (Some e, w') \<Longrightarrow> stays e (name, Some (''ovs:'' @ br), None) w'"
  by (auto simp: create_iface_def if_create_def stays_def if_entry0_def Let_def split: prod.splits if_splits
      intro!: exI [of _ "hd (w_list w)"])

lemma keeps_stays_connect:
  assumes "x \<noteq> e"
  shows "keeps (stays e X) (connect_iface V port master iface x)"
proof -
  have flags: "keeps (stays e X) (assign (upd_if x (\<lambda>i. i\<lparr>i_flags := i_flags i OR IF_LINK_WEAK\<rparr>)))"
    by (rule keeps_setting [OF on_links_stays]) (simp add: if_links_def)
  have "keeps (stays e X) (link_tunnel V iface x)"
    unfolding link_tunnel_def
    by (intro keeps_option keeps_ok keeps_if keeps_reading keeps_crash keeps_andthen keeps_stays_link flags)
  moreover have "keeps (stays e X) (link_patch iface x)"
    unfolding link_patch_def
    by (rule keeps_reading) (auto split: option.splits intro!: keeps_intros keeps_stays_peer on_links_stays)
  ultimately show ?thesis
    unfolding connect_iface_def
    by (intro keeps_andthen keeps_if keeps_ok keeps_stays_master assms keeps_label_iface keeps_label_port on_links_stays)
qed

lemma connected_stays:
  assumes "stays e (n, I, M') w" and "connect_iface V port master iface e w = Some (err, w')"
  shows "stays e (n, I, master) w'"
proof -
  have flags: "keeps (stays e X) (assign (upd_if e (\<lambda>i. i\<lparr>i_flags := i_flags i OR IF_LINK_WEAK\<rparr>)))" for X
    by (rule keeps_setting [OF on_links_stays]) (simp add: if_links_def)
  have t: "keeps (stays e X) (link_tunnel V iface e)" for X
    unfolding link_tunnel_def
    by (intro keeps_option keeps_ok keeps_if keeps_reading keeps_crash keeps_andthen keeps_stays_link flags)
  have p: "keeps (stays e X) (link_patch iface e)" for X
    unfolding link_patch_def
    by (rule keeps_reading) (auto split: option.splits intro!: keeps_intros keeps_stays_peer on_links_stays)
  have "keeps (stays e (n, I, master)) (andthen (label_iface iface e)
    (andthen (if op_iface_count port = 1 then label_port_or_iface port e else ok_act)
             (if iface_is_tunnel iface then link_tunnel V iface e
              else if oi_type iface = ''patch'' then link_patch iface e else ok_act)))"
    by (intro keeps_andthen keeps_if keeps_ok keeps_label_iface keeps_label_port on_links_stays t p)
  moreover have "stays e (n, I, master) (set_master master e w)"
    using assms(1) by (auto simp: stays_def masters.target_set)
  ultimately show ?thesis
    using assms(2) by (auto simp: connect_iface_def master_set_assign andthen_def [of "assign _"] assign_def dest: keepsD)
qed

section \<open>What a search finds\<close>

lemma search_named:
  "link_iface_search V dp master iface e w = Some (r, w') \<Longrightarrow> 0 \<le> r \<and> (0 < r \<longrightarrow> i_name (w_if w e) = oi_name iface)"
  unfolding link_iface_search_def Let_def
  by (auto simp: weight_of_def split: if_splits ovs_dp_type.splits option.splits prod.splits bind_splits)

lemma same_links_name: "same_links v w \<Longrightarrow> i_name (w_if v x) = i_name (w_if w x)"
proof -
  assume "same_links v w"
  then have "if_links (w_if v x) = if_links (w_if w x)" by (simp add: same_links_def)
  then show ?thesis by (simp add: if_links_def)
qed

lemma weights_named:
  "search_weights (link_iface_search V dp master iface) es w = Some (p, w') \<Longrightarrow>
    0 \<le> p x \<and> (0 < p x \<longrightarrow> i_name (w_if w x) = oi_name iface)"
proof (induction es arbitrary: w p)
  case (Cons e es)
  from Cons.prems obtain r v q where s: "link_iface_search V dp master iface e w = Some (r, v)"
    "search_weights (link_iface_search V dp master iface) es v = Some (q, w')" "p = q(e := r)" by (auto split: bind_splits)
  show ?case
    using search_named [OF s(1)] Cons.IH [OF s(2)] same_links_name [OF link_iface_search_same [OF s(1)], of x] s(3) by auto
qed simp

lemma link_iface_named:
  assumes r: "link_iface V dp master iface required w = Some (err, iface', w')" and n: "oi_link iface = None"
  shows "iface' = iface \<or> (\<exists>l. iface' = iface\<lparr>oi_link := l\<rparr> \<and> (\<forall>e. l = Some e \<longrightarrow> i_name (w_if w' e) = oi_name iface))"
proof -
  from r n obtain p v err' d where s: "search_weights (link_iface_search V dp master iface) (all_ifs w) w = Some (p, v)"
    and m: "match_if v (\<lambda>e. Some (p e)) (match_init\<lparr>md_netns_list := Some (w_list v)\<rparr>) = Some (err', d)"
    by (auto simp: link_iface_def split: bind_splits)
  let ?d = "match_init\<lparr>md_netns_list := Some (w_list v)\<rparr>"
  have d: "?d = match_init\<lparr>md_exclude := None, md_netns_list := Some (w_list v), md_ns := None\<rparr>" by (simp add: match_init_def)
  from match_if_result [of v ?d "\<lambda>e. Some (p e)" p, OF _ d] weights_named [OF s] m
  have f: "match_found d = best_match p (scope v ?d)" by auto
  have named: "i_name (w_if w' e) = oi_name iface" if "match_found d = Some e" for e
  proof -
    from that f have "0 < p e" by (auto dest: best_match_in)
    with weights_named [OF s] have "i_name (w_if w e) = oi_name iface" by blast
    with same_links_name [OF link_iface_listed(1) [OF r]] show ?thesis by simp
  qed
  from r n s m have "iface' = iface \<or> iface' = iface\<lparr>oi_link := match_found d\<rparr>"
    unfolding link_iface_def Let_def by (simp split: if_splits)
  with named show ?thesis by blast
qed


section \<open>Ports\<close>

lemma keeps_stays_iface:
  assumes n: "oi_name iface \<noteq> n" and l: "oi_link iface = None" and s: "sound w" and st: "stays e (n, X) w"
    and r: "link_port_iface V br m port master iface w = Some (err, w')"
  shows "stays e (n, X) w'"
proof -
  from r obtain err' iface' v where v: "link_iface V (ob_dp_type br) m iface False w = Some (err', iface', v)"
    by (auto simp: link_port_iface_def split: bind_splits)
  have sv: "stays e (n, X) v" by (rule on_linksD [OF on_links_stays st link_iface_listed(1) [OF v]])
  have so: "sound v" using on_linksD [OF on_links_sound _ link_iface_listed(1) [OF v]] s sound_empty by blast
  have ne: "x \<noteq> e" if "oi_link iface' = Some x" for x
    using link_iface_named [OF v l] that n l sv by (auto simp: stays_def)
  show ?thesis
  proof (cases "err' = 0")
    case True
    show ?thesis
    proof (cases "oi_link iface'")
      case (Some x)
      with keepsD [OF keeps_stays_connect [OF ne [OF Some]] sv] r v True show ?thesis by (auto simp: link_port_iface_def)
    next
      case None
      obtain c u where c: "create_iface (oi_name iface') (ob_name br) v = (c, u)" by fastforce
      have su: "stays e (n, X) u" by (rule create_iface_stays [OF sv so c])
      show ?thesis
      proof (cases c)
        case (Some x)
        have "oi_name iface' = oi_name iface" using link_iface_named [OF v l] by auto
        with c Some have "i_name (w_if u x) \<noteq> n" using created_stays [of "oi_name iface'" "ob_name br" v x u] n by (auto simp: stays_def)
        with su have "x \<noteq> e" by (auto simp: stays_def)
        with keepsD [OF keeps_stays_connect su] r v True None c Some show ?thesis by (auto simp: link_port_iface_def)
      qed (use r v True None c su in \<open>auto simp: link_port_iface_def\<close>)
    qed
  qed (use r v sv in \<open>auto simp: link_port_iface_def\<close>)
qed

lemma linked_stays:
  assumes l: "oi_link iface = None" and s: "sound_with (set_option master) w"
    and r: "link_port_iface V br m port master iface w = Some (0, w')"
  shows "\<exists>e I. stays e (oi_name iface, I, master) w'"
proof -
  from r obtain iface' v where v: "link_iface V (ob_dp_type br) m iface False w = Some (0, iface', v)"
    by (auto simp: link_port_iface_def split: bind_splits if_splits)
  note same = link_iface_listed [OF v]
  have n: "oi_name iface' = oi_name iface" using link_iface_named [OF v l] by auto
  show ?thesis
  proof (cases "oi_link iface'")
    case (Some x)
    then obtain k where "x \<in> set (n_ifaces (w_ns v k))" using same(2) l by auto
    moreover have "i_name (w_if v x) = oi_name iface" using link_iface_named [OF v l] Some l by auto
    ultimately have "stays x (oi_name iface, i_internal_ns (w_if v x), i_master (w_if v x)) v" by (auto simp: stays_def)
    moreover have "connect_iface V port master iface' x v = Some (0, w')" using r v Some by (simp add: link_port_iface_def)
    ultimately show ?thesis using connected_stays by blast
  next
    case None
    obtain c u where c: "create_iface (oi_name iface') (ob_name br) v = (c, u)" by fastforce
    with r v None obtain x where x: "c = Some x" "connect_iface V port master iface' x u = Some (0, w')"
      by (cases c) (auto simp: link_port_iface_def ENOMEM_def)
    from created_stays [OF c [unfolded x(1)]] have "stays x (oi_name iface, Some (''ovs:'' @ ob_name br), None) u" by (simp add: n)
    from connected_stays [OF this x(2)] show ?thesis by blast
  qed
qed

text \<open>All interfaces of a port, given that their names differ.\<close>

lemma each_linked:
  assumes "distinct (map oi_name is)" and "\<forall>i \<in> set is. oi_link i = None" and "sound_with (set_option master) w"
    and "each_act (link_port_iface V br m port master) is w = Some (0, w')"
  shows "\<forall>i \<in> set is. \<exists>e I. stays e (oi_name i, I, master) w'"
  using assms
proof (induction "is" arbitrary: w' rule: rev_induct)
  case (snoc i js)
  from snoc.prems(4) obtain v where v: "each_act (link_port_iface V br m port master) js w = Some (0, v)"
    "link_port_iface V br m port master i v = Some (0, w')" by (auto simp: each_act_append andthen_0 ok_act_def)
  have "keeps (sound_with (set_option master)) (each_act (link_port_iface V br m port master) js)"
    using snoc.prems(2) by (intro keeps_each keeps_link_port_iface) auto
  from keepsD [OF this snoc.prems(3) v(1)] have s: "sound_with (set_option master) v" .
  then have so: "sound v" by (simp add: sound_with_def)
  have li: "oi_link i = None" using snoc.prems(2) by simp
  have "\<exists>e I. stays e (oi_name j, I, master) w'" if "j \<in> set js" for j
  proof -
    from snoc.IH [OF _ _ snoc.prems(3) v(1)] snoc.prems(1,2) that obtain e I where e: "stays e (oi_name j, I, master) v" by auto
    have "oi_name i \<noteq> oi_name j" using snoc.prems(1) that by (auto simp: image_iff)
    from keeps_stays_iface [OF this li so e v(2)] show ?thesis by blast
  qed
  moreover have "\<exists>e I. stays e (oi_name i, I, master) w'" by (rule linked_stays [OF li s v(2)])
  ultimately show ?case by auto
qed simp

text \<open>An interface whose name is not among those being linked.\<close>

definition outside :: "ifp set \<Rightarrow> ifp \<Rightarrow> string \<times> string option \<times> ifp option \<Rightarrow> world \<Rightarrow> bool" where
  "outside E e X w \<longleftrightarrow> sound_with E w \<and> stays e X w"

lemma on_links_outside: "on_links (outside E e X)"
  using on_links_sound [of E] on_links_stays [of e X] unfolding on_links_def outside_def by blast

lemma outside_subset: "outside F e X w \<Longrightarrow> E \<subseteq> F \<Longrightarrow> outside E e X w"
  by (auto simp: outside_def intro: sound_subset)

lemma keeps_outside: "keeps (sound_with E) f \<Longrightarrow> keeps (stays e X) f \<Longrightarrow> keeps (outside E e X) f"
  unfolding keeps_def outside_def by blast

lemma keeps_outside_iface:
  assumes "oi_name iface \<noteq> n" and "oi_link iface = None" and "set_option master \<subseteq> E"
  shows "keeps (outside E e (n, X)) (link_port_iface V br m port master iface)"
proof (rule keepsI)
  fix w err w'
  assume o: "outside E e (n, X) w" and r: "link_port_iface V br m port master iface w = Some (err, w')"
  have "sound_with E w'"
    using keepsD [OF keeps_link_port_iface [OF assms(3,2)] _ r] o by (simp add: outside_def)
  moreover have "stays e (n, X) w'"
    by (rule keeps_stays_iface [OF assms(1,2) _ _ r]) (use o in \<open>simp_all add: outside_def sound_with_def\<close>)
  ultimately show "outside E e (n, X) w'" by (simp add: outside_def)
qed

lemma created_next: "create_iface name br w = (Some b, w') \<Longrightarrow> b = w_next w"
  by (auto simp: create_iface_def if_create_def Let_def split: prod.splits if_splits)

lemma keeps_outside_port:
  assumes l: "\<forall>i \<in> set (op_ifaces port). oi_link i = None \<and> oi_name i \<noteq> n" and m: "set_option (oi_link m) \<subseteq> E"
  shows "keeps (outside E e (n, X)) (link_port V br m port)"
proof (rule keepsI)
  fix w err w'
  assume o: "outside E e (n, X) w" and r: "link_port V br m port w = Some (err, w')"
  show "outside E e (n, X) w'"
  proof (cases "op_iface_count port > 1")
    case True
    obtain c v where c: "create_iface (op_name port) (ob_name br) w = (c, v)" by fastforce
    have f: "outside (E \<union> set_option c) e (n, X) v"
      using create_iface_sound [OF _ c, of E] create_iface_stays [OF _ _ c] o by (auto simp: outside_def sound_with_def)
    show ?thesis
    proof (cases c)
      case (Some b)
      have "e < w_next w" using o by (auto simp: outside_def stays_def sound_with_def sound_def placed_def)
      with created_next [OF c [unfolded Some]] have "b \<noteq> e" by simp
      then have "keeps (outside (E \<union> set_option c) e (n, X)) (andthen (master_set (oi_link m) b)
            (andthen (label_port_or_iface port b) (each_act (link_port_iface V br m port (Some b)) (op_ifaces port))))"
        using Some m l
        by (intro keeps_andthen keeps_each keeps_outside_iface keeps_label_port on_links_outside
            keeps_outside [OF keeps_sound_sets(1) keeps_stays_master]) auto
      from keepsD [OF this f] r True c Some have "outside (E \<union> set_option c) e (n, X) w'" by (simp add: link_port_def)
      then show ?thesis by (rule outside_subset) blast
    qed (use r True c f in \<open>simp add: link_port_def\<close>)
  next
    case False
    have "keeps (outside E e (n, X)) (each_act (link_port_iface V br m port (oi_link m)) (op_ifaces port))"
      using l m by (intro keeps_each keeps_outside_iface) auto
    from keepsD [OF this o] r False show ?thesis by (simp add: link_port_def)
  qed
qed

lemma keeps_outside_bridge:
  assumes b: "bridge_unlinked br" and n: "\<forall>p \<in> set (ob_ports br). \<forall>i \<in> set (op_ifaces p). oi_name i \<noteq> n"
  shows "keeps (outside E e (n, X)) (link_bridge V br)"
proof (rule keepsI)
  fix w err w'
  assume o: "outside E e (n, X) w" and r: "link_bridge V br w = Some (err, w')"
  have warn: "outside E e (n, X) (root_warn msg w)" for msg by (rule on_linksD [OF on_links_outside o root_warn_same])
  from r warn consider "outside E e (n, X) w'"
    | sys m ms err' m' v where "ob_system br = Some sys" "op_ifaces sys = m # ms"
        "link_iface V (ob_dp_type br) m m True w = Some (err', m', v)"
        "(err' \<noteq> 0 \<and> w' = v) \<or> (err' = 0 \<and> each_act (link_port V br m') (ob_ports br) v = Some (err, w'))"
    by (auto simp: link_bridge_def Let_def split: option.splits if_splits list.splits bind_splits)
  then show "outside E e (n, X) w'"
  proof cases
    case 2
    note same = link_iface_listed [OF 2(3)]
    have ov: "outside E e (n, X) v" by (rule on_linksD [OF on_links_outside o same(1)])
    have "oi_link m = None" using b 2(1,2) by (auto simp: bridge_unlinked_def)
    with same(2) ov have f: "outside (E \<union> set_option (oi_link m')) e (n, X) v"
      by (cases "oi_link m'") (auto intro: sound_listed simp: outside_def)
    have "keeps (outside (E \<union> set_option (oi_link m')) e (n, X)) (each_act (link_port V br m') (ob_ports br))"
      using b n by (intro keeps_each keeps_outside_port) (auto simp: bridge_unlinked_def)
    from keepsD [OF this f] 2(4) ov show ?thesis by (auto dest: outside_subset)
  qed
qed

section \<open>Ports and bridges\<close>

text \<open>The next free entry only grows.\<close>

definition grown :: "nat \<Rightarrow> world \<Rightarrow> bool" where
  "grown k w \<longleftrightarrow> k \<le> w_next w"

lemma on_links_grown: "on_links (grown k)"
  by (auto simp: on_links_def grown_def same_links_def)

lemma keeps_grown_connect: "keeps (grown k) (connect_iface V port master iface e)"
proof -
  have l: "keeps (grown k) (link_set t x)" for t x
    by (cases x) (auto simp: link_set_def grown_def Let_def split: option.splits intro!: keeps_assign keeps_return_err)
  have p: "keeps (grown k) (peer_set a b)" for a b
    unfolding peer_set_def by (intro keeps_andthen keeps_assign) (auto simp: peer_set_one_def grown_def Let_def split: option.splits)
  have m: "keeps (grown k) (master_set t x)" for t x
    unfolding master_set_def Let_def by (rule keeps_assign) (auto simp: grown_def split: option.splits)
  have flags: "keeps (grown k) (assign (upd_if e (\<lambda>i. i\<lparr>i_flags := i_flags i OR IF_LINK_WEAK\<rparr>)))"
    by (rule keeps_assign) (simp add: grown_def)
  have "keeps (grown k) (link_tunnel V iface e)"
    unfolding link_tunnel_def
    by (intro keeps_option keeps_ok keeps_if keeps_reading keeps_crash keeps_andthen l flags)
  moreover have "keeps (grown k) (link_patch iface e)"
    unfolding link_patch_def
    by (rule keeps_reading) (auto split: option.splits intro!: keeps_intros p on_links_grown)
  ultimately show ?thesis
    unfolding connect_iface_def
    by (intro keeps_andthen keeps_if keeps_ok m keeps_label_iface keeps_label_port on_links_grown)
qed

lemma created_grown: "create_iface name br w = (c, w') \<Longrightarrow> grown k w \<Longrightarrow> grown k w'"
  by (auto simp: create_iface_def if_create_def grown_def Let_def split: prod.splits if_splits)

lemma keeps_grown_port: "keeps (grown k) (link_port V br m port)"
proof -
  have i: "keeps (grown k) (link_port_iface V br m port master iface)" for master iface
  proof (rule keepsI)
    fix w err w'
    assume g: "grown k w" and r: "link_port_iface V br m port master iface w = Some (err, w')"
    from r obtain err' iface' v where v: "link_iface V (ob_dp_type br) m iface False w = Some (err', iface', v)"
      by (auto simp: link_port_iface_def split: bind_splits)
    have gv: "grown k v" by (rule on_linksD [OF on_links_grown g link_iface_listed(1) [OF v]])
    obtain c u where c: "create_iface (oi_name iface') (ob_name br) v = (c, u)" by fastforce
    from created_grown [OF c gv] have gu: "grown k u" .
    show "grown k w'"
      using r v gv c gu
      by (auto simp: link_port_iface_def split: if_splits option.splits intro: keepsD [OF keeps_grown_connect])
  qed
  show ?thesis
  proof (rule keepsI)
    fix w err w'
    assume g: "grown k w" and r: "link_port V br m port w = Some (err, w')"
    obtain c v where c: "create_iface (op_name port) (ob_name br) w = (c, v)" by fastforce
    have ms: "keeps (grown k) (master_set t x)" for t x
      unfolding master_set_def Let_def by (rule keeps_assign) (auto simp: grown_def split: option.splits)
    have b: "keeps (grown k) (andthen (master_set (oi_link m) b)
          (andthen (label_port_or_iface port b) (each_act (link_port_iface V br m port (Some b)) (op_ifaces port))))" for b
      by (intro keeps_andthen keeps_each i ms keeps_label_port on_links_grown)
    have e: "keeps (grown k) (each_act (link_port_iface V br m port (oi_link m)) (op_ifaces port))"
      by (intro keeps_each i)
    show "grown k w'"
    proof (cases "op_iface_count port > 1")
      case True
      with r c created_grown [OF c g] keepsD [OF b created_grown [OF c g]] show ?thesis
        by (cases c) (auto simp: link_port_def)
    next
      case False
      with r keepsD [OF e g] show ?thesis by (simp add: link_port_def)
    qed
  qed
qed

text \<open>\<open>k\<close> is the first entry that was free before: the interface of a bond is a new one.\<close>

definition port_connected :: "nat \<Rightarrow> world \<Rightarrow> ovs_bridge \<Rightarrow> ifp option \<Rightarrow> ovs_port \<Rightarrow> bool" where
  "port_connected k w br master port \<longleftrightarrow>
     (if op_iface_count port > 1 then
        \<exists>b. k \<le> b \<and> stays b (op_name port, Some (''ovs:'' @ ob_name br), master) w \<and>
          (\<forall>i \<in> set (op_ifaces port). \<exists>e I. stays e (oi_name i, I, Some b) w)
      else \<forall>i \<in> set (op_ifaces port). \<exists>e I. stays e (oi_name i, I, master) w)"

lemma connected_kept:
  assumes st: "\<And>e n X. (op_iface_count port > 1 \<and> n = op_name port) \<or> (\<exists>i \<in> set (op_ifaces port). n = oi_name i) \<Longrightarrow>
      stays e (n, X) w \<Longrightarrow> stays e (n, X) w'"
    and c: "port_connected k w br master port"
  shows "port_connected k w' br master port"
proof -
  have i: "\<exists>e I. stays e (oi_name i, I, M) w'" if "i \<in> set (op_ifaces port)" "\<exists>e I. stays e (oi_name i, I, M) w" for i M
    using that st [of "oi_name i"] by blast
  show ?thesis
  proof (cases "op_iface_count port > 1")
    case True
    with c obtain b where b: "stays b (op_name port, Some (''ovs:'' @ ob_name br), master) w"
      "k \<le> b" "\<forall>i \<in> set (op_ifaces port). \<exists>e I. stays e (oi_name i, I, Some b) w" by (auto simp: port_connected_def)
    from True st b(1) have "stays b (op_name port, Some (''ovs:'' @ ob_name br), master) w'" by blast
    with True b(2,3) i show ?thesis unfolding port_connected_def by (simp only: if_True) blast
  next
    case False
    with c i show ?thesis unfolding port_connected_def by (simp only: if_False) blast
  qed
qed

lemma link_port_connects:
  assumes d: "distinct (map oi_name (op_ifaces port))" and l: "\<forall>i \<in> set (op_ifaces port). oi_link i = None"
    and n: "op_iface_count port > 1 \<Longrightarrow> \<forall>i \<in> set (op_ifaces port). oi_name i \<noteq> op_name port"
    and s: "sound_with (set_option (oi_link m)) w" and g: "grown k w" and r: "link_port V br m port w = Some (0, w')"
  shows "port_connected k w' br (oi_link m) port"
proof (cases "op_iface_count port > 1")
  case True
  from r True obtain b v where c: "create_iface (op_name port) (ob_name br) w = (Some b, v)"
    and a: "andthen (master_set (oi_link m) b) (andthen (label_port_or_iface port b)
      (each_act (link_port_iface V br m port (Some b)) (op_ifaces port))) v = Some (0, w')"
    by (auto simp: link_port_def ENOMEM_def split: prod.splits option.splits)
  define E where "E = set_option (oi_link m) \<union> {b}"
  have sv: "sound_with E v" using create_iface_sound [OF s c] by (simp add: E_def)
  from a obtain u where u: "label_port_or_iface port b (set_master (oi_link m) b v) = Some (0, u)"
    "each_act (link_port_iface V br m port (Some b)) (op_ifaces port) u = Some (0, w')"
    by (auto simp: andthen_0 master_set_assign assign_def)
  let ?X = "(op_name port, Some (''ovs:'' @ ob_name br), oi_link m)"
  have "keeps (sound_with E) (master_set (oi_link m) b)" by (rule keeps_sound_sets) (auto simp: E_def)
  from keepsD [OF this sv] have "sound_with E (set_master (oi_link m) b v)" by (simp add: master_set_assign assign_def)
  moreover have "stays b ?X (set_master (oi_link m) b v)"
    using created_stays [OF c] by (auto simp: stays_def masters.target_set)
  ultimately have "outside E b ?X (set_master (oi_link m) b v)" by (simp add: outside_def)
  from keepsD [OF keeps_label_port [OF on_links_outside] this u(1)] have o: "outside E b ?X u" .
  have "keeps (outside E b ?X) (each_act (link_port_iface V br m port (Some b)) (op_ifaces port))"
    using n [OF True] l by (intro keeps_each keeps_outside_iface) (auto simp: E_def)
  from keepsD [OF this o u(2)] have "stays b ?X w'" by (simp add: outside_def)
  moreover have "\<forall>i \<in> set (op_ifaces port). \<exists>e I. stays e (oi_name i, I, Some b) w'"
    by (rule each_linked [OF d l _ u(2)]) (use o in \<open>auto simp: outside_def E_def intro: sound_subset\<close>)
  moreover have "k \<le> b" using g created_next [OF c] by (simp add: grown_def)
  ultimately show ?thesis using True by (auto simp: port_connected_def)
next
  case False
  with each_linked [OF d l s] r show ?thesis by (simp add: link_port_def port_connected_def)
qed


text \<open>All ports of a bridge.\<close>

lemma each_port_connects:
  assumes "distinct (map oi_name (concat (map op_ifaces ps)))" and "\<forall>p \<in> set ps. \<forall>i \<in> set (op_ifaces p). oi_link i = None"
    and "\<forall>p \<in> set ps. op_iface_count p > 1 \<longrightarrow> (\<forall>q \<in> set ps. \<forall>i \<in> set (op_ifaces q). oi_name i \<noteq> op_name p)"
    and "sound_with (set_option (oi_link m)) w" and "grown k w" and "each_act (link_port V br m) ps w = Some (0, w')"
  shows "\<forall>p \<in> set ps. port_connected k w' br (oi_link m) p"
  using assms
proof (induction ps arbitrary: w' rule: rev_induct)
  case (snoc p ps)
  from snoc.prems(6) obtain v where v: "each_act (link_port V br m) ps w = Some (0, v)" "link_port V br m p v = Some (0, w')"
    by (auto simp: each_act_append andthen_0 ok_act_def)
  have "keeps (sound_with (set_option (oi_link m))) (each_act (link_port V br m) ps)"
    using snoc.prems(2) by (intro keeps_each keeps_link_port) auto
  from keepsD [OF this snoc.prems(4) v(1)] have s: "sound_with (set_option (oi_link m)) v" .
  have "\<forall>p \<in> set ps. port_connected k v br (oi_link m) p"
    by (rule snoc.IH [OF _ _ _ snoc.prems(4,5) v(1)]) (use snoc.prems(1,2,3) in auto)
  moreover have "grown k v" by (rule keepsD [OF keeps_each [OF keeps_grown_port] snoc.prems(5) v(1)])
  moreover have "stays e (n, X) w'" if "q \<in> set ps" "(op_iface_count q > 1 \<and> n = op_name q) \<or> (\<exists>i \<in> set (op_ifaces q). n = oi_name i)" "stays e (n, X) v"
    for q e n X
  proof -
    have "\<forall>i \<in> set (op_ifaces p). oi_link i = None \<and> oi_name i \<noteq> n"
      using that(1,2) snoc.prems(1,2,3) by (fastforce simp: image_iff)
    from keepsD [OF keeps_outside_port [OF this subset_refl] _ v(2)] that(3) s show ?thesis by (simp add: outside_def)
  qed
  ultimately have "grown k v" "\<forall>q \<in> set ps. port_connected k w' br (oi_link m) q" by (blast intro: connected_kept)+
  moreover from this(1) have "port_connected k w' br (oi_link m) p"
    by (intro link_port_connects [OF _ _ _ s _ v(2)]) (use snoc.prems(1,2,3) in auto)
  ultimately show ?case by simp
qed simp


lemma keeps_grown_bridge: "keeps (grown k) (link_bridge V br)"
proof (rule keepsI)
  fix w err w'
  assume g: "grown k w" and r: "link_bridge V br w = Some (err, w')"
  have warn: "grown k (root_warn msg w)" for msg by (rule on_linksD [OF on_links_grown g root_warn_same])
  from r warn consider "grown k w'"
    | m err' m' v where "link_iface V (ob_dp_type br) m m True w = Some (err', m', v)"
        "w' = v \<or> each_act (link_port V br m') (ob_ports br) v = Some (err, w')"
    by (auto simp: link_bridge_def Let_def split: option.splits if_splits list.splits bind_splits)
  then show "grown k w'"
  proof cases
    case 2
    have "grown k v" by (rule on_linksD [OF on_links_grown g link_iface_listed(1) [OF 2(1)]])
    moreover have "keeps (grown k) (each_act (link_port V br m') (ob_ports br))" by (intro keeps_each keeps_grown_port)
    ultimately show ?thesis using 2(2) by (auto dest: keepsD)
  qed
qed

lemma link_bridge_connects:
  assumes br: "ob_system br = Some sys" "op_iface_count sys = 1" "op_ifaces sys = m0 # ms"
    and main: "link_iface V (ob_dp_type br) m0 m0 True w = Some (0, m, u)"
    and b: "bridge_unlinked br" and s: "sound w" and g: "grown k w" and r: "link_bridge V br w = Some (0, w')"
    and d: "distinct (map oi_name (concat (map op_ifaces (ob_ports br))))"
    and n: "\<forall>p \<in> set (ob_ports br). op_iface_count p > 1 \<longrightarrow> (\<forall>q \<in> set (ob_ports br). \<forall>i \<in> set (op_ifaces q). oi_name i \<noteq> op_name p)"
  shows "\<exists>e. oi_link m = Some e \<and> stays e (oi_name m0, i_internal_ns (w_if u e), i_master (w_if u e)) u \<and> sound w' \<and>
    (\<forall>p \<in> set (ob_ports br). port_connected k w' br (Some e) p) \<and>
    (\<forall>n X. (\<forall>p \<in> set (ob_ports br). \<forall>i \<in> set (op_ifaces p). oi_name i \<noteq> n) \<longrightarrow> stays e (n, X) u \<longrightarrow> stays e (n, X) w')"
proof -
  have l: "oi_link m0 = None" using b br by (auto simp: bridge_unlinked_def)
  from main l obtain e where e: "oi_link m = Some e"
    by (auto simp: link_iface_def ERANGE_def ENOENT_def Let_def split: bind_splits if_splits)
  note same = link_iface_listed [OF main]
  have su: "sound u" using on_linksD [OF on_links_sound _ same(1), of "{}"] s by (simp add: sound_empty)
  from same(2) [OF e] l obtain j where j: "e \<in> set (n_ifaces (w_ns u j))" by auto
  have gu: "grown k u" by (rule on_linksD [OF on_links_grown g same(1)])
  have "i_name (w_if u e) = oi_name m0" using link_iface_named [OF main l] e l by auto
  then have st: "stays e (oi_name m0, i_internal_ns (w_if u e), i_master (w_if u e)) u" using j by (auto simp: stays_def)
  have se: "sound_with (set_option (oi_link m)) u" using sound_listed [OF _ j, of "{}"] su e by (simp add: sound_empty)
  have ports: "each_act (link_port V br m) (ob_ports br) u = Some (0, w')"
    using r main br by (simp add: link_bridge_def)
  have un: "\<forall>p \<in> set (ob_ports br). \<forall>i \<in> set (op_ifaces p). oi_link i = None" using b by (auto simp: bridge_unlinked_def)
  have "keeps (sound_with (set_option (oi_link m))) (each_act (link_port V br m) (ob_ports br))"
    using un by (intro keeps_each keeps_link_port) auto
  from keepsD [OF this se ports] have "sound w'" by (simp add: sound_with_def)
  moreover have "\<forall>p \<in> set (ob_ports br). port_connected k w' br (Some e) p"
    using each_port_connects [OF d un n se gu ports] e by simp
  moreover have "stays e (n, X) w'" if "\<forall>p \<in> set (ob_ports br). \<forall>i \<in> set (op_ifaces p). oi_name i \<noteq> n" "stays e (n, X) u" for n X
  proof -
    have "keeps (outside (set_option (oi_link m)) e (n, X)) (each_act (link_port V br m) (ob_ports br))"
      using un that(1) by (intro keeps_each keeps_outside_port) auto
    from keepsD [OF this _ ports] that(2) se show ?thesis by (simp add: outside_def)
  qed
  ultimately show ?thesis using e st by blast
qed

text \<open>
  Names that are kept apart: those of the interfaces of all bridges, which the database keeps
  unique, and the names of bonds from those of interfaces, which it does not guarantee.
\<close>

definition ports_of :: "ovs_bridge list \<Rightarrow> ovs_port list" where
  "ports_of brs = concat (map ob_ports brs)"

definition names_apart :: "ovs_bridge list \<Rightarrow> bool" where
  "names_apart brs \<longleftrightarrow> distinct (map oi_name (concat (map op_ifaces (ports_of brs)))) \<and>
     (\<forall>p \<in> set (ports_of brs). op_iface_count p > 1 \<longrightarrow> (\<forall>q \<in> set (ports_of brs). \<forall>i \<in> set (op_ifaces q). oi_name i \<noteq> op_name p))"

lemma names_apartD:
  "names_apart brs \<Longrightarrow> p \<in> set (ports_of brs) \<Longrightarrow> op_iface_count p > 1 \<Longrightarrow> q \<in> set (ports_of brs) \<Longrightarrow> i \<in> set (op_ifaces q) \<Longrightarrow>
    oi_name i \<noteq> op_name p"
  by (auto simp: names_apart_def)

lemma link_ifaces_result:
  assumes s: "sound w" and r: "link_ifaces V w = Some (0, w')" and brs: "os_bridges (w_ovs w) = xs @ br # ys"
    and apart: "names_apart (xs @ br # ys)"
    and v: "each_act (link_bridge V) xs w = Some (0, v)"
    and br: "ob_system br = Some sys" "op_iface_count sys = 1" "op_ifaces sys = m0 # ms"
    and main: "link_iface V (ob_dp_type br) m0 m0 True v = Some (0, m, u)"
    and m0: "\<forall>p \<in> set (ports_of (xs @ br # ys)). \<forall>i \<in> set (op_ifaces p). oi_name i \<noteq> oi_name m0"
  shows "\<exists>e. oi_link m = Some e \<and> i_name (w_if w' e) = oi_name m0 \<and> (\<forall>p \<in> set (ob_ports br). port_connected (w_next w) w' br (Some e) p)"
proof -
  let ?k = "w_next w"
  from r brs v obtain x where x: "link_bridge V br v = Some (0, x)" "each_act (link_bridge V) ys x = Some (0, w')"
    by (auto simp: link_ifaces_def reading_def each_act_append andthen_0)
  have un: "bridge_unlinked b" if "b \<in> set (xs @ br # ys)" for b
    using s that by (auto simp: sound_def ovs_unlinked_def brs list_all_iff)
  have "keeps (sound_with {}) (each_act (link_bridge V) xs)"
    using un by (intro keeps_each keeps_link_bridge) auto
  from keepsD [OF this _ v] s have sv: "sound v" by (simp add: sound_empty)
  have ub: "bridge_unlinked br" using un by simp
  have "keeps (grown ?k) (each_act (link_bridge V) xs)" by (intro keeps_each keeps_grown_bridge)
  from keepsD [OF this _ v] have gv: "grown ?k v" by (simp add: grown_def)
  have d: "distinct (map oi_name (concat (map op_ifaces (ob_ports br))))"
    using apart by (simp add: names_apart_def ports_of_def)
  have n: "\<forall>p \<in> set (ob_ports br). op_iface_count p > 1 \<longrightarrow> (\<forall>q \<in> set (ob_ports br). \<forall>i \<in> set (op_ifaces q). oi_name i \<noteq> op_name p)"
  proof (intro ballI impI)
    fix p q i
    assume "p \<in> set (ob_ports br)" "op_iface_count p > 1" "q \<in> set (ob_ports br)" "i \<in> set (op_ifaces q)"
    then show "oi_name i \<noteq> op_name p" by (intro names_apartD [OF apart]) (auto simp: ports_of_def)
  qed
  from link_bridge_connects [OF br main ub sv gv x(1) d n] obtain e where
    e: "oi_link m = Some e" "stays e (oi_name m0, i_internal_ns (w_if u e), i_master (w_if u e)) u" "sound x"
      "\<forall>p \<in> set (ob_ports br). port_connected ?k x br (Some e) p"
    and st: "\<And>n X. \<forall>p \<in> set (ob_ports br). \<forall>i \<in> set (op_ifaces p). oi_name i \<noteq> n \<Longrightarrow> stays e (n, X) u \<Longrightarrow> stays e (n, X) x" by blast
  have rest: "stays a (n, X) w'" if "\<forall>b \<in> set ys. \<forall>p \<in> set (ob_ports b). \<forall>i \<in> set (op_ifaces p). oi_name i \<noteq> n" "stays a (n, X) x" for a n X
  proof -
    have "keeps (outside {} a (n, X)) (each_act (link_bridge V) ys)"
      using un that(1) by (intro keeps_each keeps_outside_bridge) auto
    from keepsD [OF this _ x(2)] that(2) e(3) show ?thesis by (simp add: outside_def sound_empty)
  qed
  have "i_name (w_if w' e) = oi_name m0"
    using rest [OF _ st [OF _ e(2)]] m0 by (auto simp: ports_of_def stays_def)
  moreover have "port_connected ?k w' br (Some e) p" if p: "p \<in> set (ob_ports br)" for p
  proof (rule connected_kept)
    fix a n X
    assume n: "(op_iface_count p > 1 \<and> n = op_name p) \<or> (\<exists>i \<in> set (op_ifaces p). n = oi_name i)" and a: "stays a (n, X) x"
    have "oi_name i \<noteq> n" if "b \<in> set ys" "q \<in> set (ob_ports b)" "i \<in> set (op_ifaces q)" for b q i
      using n apart p that by (fastforce simp: names_apart_def ports_of_def image_iff)
    with rest a show "stays a (n, X) w'" by blast
  qed (use e(4) p in simp)
  ultimately show ?thesis using e(1) by blast
qed


text \<open>
  C37: Where the names of interfaces differ and no bond and no bridge's main interface is
  called like an interface of a port, a bridge whose main interface was found when its turn
  came has all its ports under that interface when \<open>link_ifaces\<close> succeeds: an interface with
  the name of the main one is the master of an interface for each member of a port with one
  interface; for a bond it is the master of an interface with the bond's name that did not
  exist before and is internal to the bridge, which in turn is the master of an interface for
  each member.  Under these conditions on the names later bridges do not undo this.
\<close>

theorem link_ifaces_connects:
  assumes "sound w" and "link_ifaces V w = Some (0, w')" and "os_bridges (w_ovs w) = xs @ br # ys"
    and "names_apart (xs @ br # ys)" and "each_act (link_bridge V) xs w = Some (0, v)"
    and "ob_system br = Some sys" and "op_iface_count sys = 1" and "op_ifaces sys = m0 # ms"
    and "link_iface V (ob_dp_type br) m0 m0 True v = Some (0, m, u)"
    and "\<forall>p \<in> set (ports_of (xs @ br # ys)). \<forall>i \<in> set (op_ifaces p). oi_name i \<noteq> oi_name m0"
  shows "\<exists>e. oi_link m = Some e \<and> i_name (w_if w' e) = oi_name m0 \<and> (\<forall>p \<in> set (ob_ports br). port_connected (w_next w) w' br (Some e) p)"
  by (rule link_ifaces_result [OF assms])

text \<open>A bridge with its kernel interface and one Ethernet port, which the kernel reports under \<open>ovs-system\<close>.\<close>

definition small_bridge :: ovs_bridge where
  "small_bridge = \<lparr>ob_name = ''br0'', ob_dp_type = OVS_DP_TYPE_SYSTEM,
     ob_ports = [ovs_port0\<lparr>op_name := ''eth0'', op_ifaces := [example_if ''eth0'' []], op_iface_count := 1, op_tag := 5\<rparr>],
     ob_system = Some (ovs_port0\<lparr>op_name := ''br0'', op_ifaces := [example_if ''br0'' ''internal''], op_iface_count := 1\<rparr>)\<rparr>"

definition netns_of :: "ifp list \<Rightarrow> netns_entry" where
  "netns_of es = \<lparr>n_ifaces = es, n_warnings = [], n_kernel_id = 1, n_name = None, n_pid = 0, n_fd = 3, n_ids = [], n_rtables = []\<rparr>"

definition ovs_world :: world where
  "ovs_world = \<lparr>w_if = (\<lambda>e. if e = 0 then if_entry0\<lparr>i_name := ''br0'', i_driver := Some ''openvswitch''\<rparr>
       else if e = 1 then if_entry0\<lparr>i_name := ''ovs-system'', i_driver := Some ''openvswitch'', i_rev_master := [2]\<rparr>
       else if e = 2 then if_entry0\<lparr>i_name := ''eth0'', i_driver := Some ''e1000'', i_master := Some 1\<rparr> else if_entry0),
     w_ns = (\<lambda>n. netns_of (if n = 0 then [0, 1, 2] else [])),
     w_list = [0], w_next = 3, w_mem = [], w_ovs = ovs_state0\<lparr>os_bridges := [small_bridge]\<rparr>\<rparr>"

text \<open>A database server that answers with this bridge, and a kernel without the Open vSwitch module.\<close>

definition example_ovs :: "json ovs_env" where
  "example_ovs = \<lparr>oe_json = json_lib (\<lambda>_. Some (db_json example_server [small_bridge])), oe_build = json_build (\<lambda>_. ''request''),
     oe_db = Ptr ''/var/run/openvswitch/db.sock'', oe_socket = Inr 5, oe_connect = (\<lambda>_. 0), oe_write = (\<lambda>n. (int n, 0)),
     oe_reads = [Inr ''reply''], oe_switch = (\<lambda>_. 0), oe_genl = (\<lambda>_ _. \<lparr>sk_open = [93], sk_pid = 0, sk_rx = [], sk_tx = []\<rparr>),
     oe_family = \<lparr>sk_open = [93], sk_pid = 0, sk_rx = [], sk_tx = []\<rparr>, oe_pton = (\<lambda>_ _. None)\<rparr>"

lemmas ovs_evals = small_bridge_def ovs_port0_def example_if_def ovs_if0_def if_entry0_def netns_of_def ovs_state0_def

lemma ovs_world_sound: "sound ovs_world"
proof -
  have a: "set (all_ifs ovs_world) = {0, 1, 2}" by (simp add: all_ifs_def ovs_world_def netns_of_def)
  have r: "if_relations (w_if ovs_world x) = (None, None, None, None, [], [])" if "x \<notin> {0, 1, 2}" for x
    using that by (simp add: ovs_world_def if_relations_def if_entry0_def)
  have "masters_ok ovs_world" "links_ok ovs_world" "peers_ok ovs_world"
    by (simp_all add: masters_ok_def links_ok_def peers_ok_def ovs_world_def if_entry0_def)
  then have "within (set (all_ifs ovs_world)) ovs_world" using r
    unfolding a
    by (simp add: within_def relations_ok_def a) (simp add: homed_def ovs_world_def netns_of_def if_entry0_def)
  moreover have "placed ovs_world" by (auto simp: placed_def ovs_world_def netns_of_def if_entry0_def)
  moreover have "ovs_unlinked (w_ovs ovs_world)"
    by (simp add: ovs_world_def ovs_unlinked_def ovs_state0_def bridge_unlinked_def small_bridge_def ovs_port0_def example_if_def ovs_if0_def)
  ultimately show ?thesis by (simp add: sound_def)
qed

lemma ovs_ifs: "all_ifs (ovs_world) = [0, 1, 2]"
  by (simp add: all_ifs_def ovs_world_def netns_of_def)


lemma only_match:
  assumes "all_ifs w = [0, 1, 2]" "w_list w = [0]" "x \<in> {0, 1, 2}" and p: "p 0 = (if x = 0 then 2 else 0)" "p 1 = (if x = 1 then 2 else 0)" "p 2 = (if x = 2 then 2 else 0)"
  shows "\<exists>d. match_if w (\<lambda>e. Some (p e)) (match_init\<lparr>md_netns_list := Some [0]\<rparr>) = Some (0, d) \<and> match_found d = Some x \<and> \<not> match_ambiguous d"
proof -
  let ?d = "match_init\<lparr>md_netns_list := Some [0]\<rparr>"
  have d: "?d = match_init\<lparr>md_exclude := None, md_netns_list := Some [0], md_ns := None\<rparr>" by (simp add: match_init_def)
  have sc: "scope w ?d = [0, 1, 2]"
    using assms(1,2) by (simp add: scope_def all_ifs_def match_init_def candidates_def)
  have b: "best_match p [0, 1, 2] = Some x" "\<not> several_best p [0, 1, 2]"
    using assms(3) by (auto simp: best_match_def several_best_def p [simplified])
  have "0 \<le> p e" if "e \<in> set [0, 1, 2]" for e using that assms(3) p by auto
  with match_if_result [of w ?d "\<lambda>e. Some (p e)" p, OF _ d] b show ?thesis unfolding sc by auto
qed

lemma main_found: "link_iface V OVS_DP_TYPE_SYSTEM (example_if ''br0'' ''internal'') (example_if ''br0'' ''internal'') True ovs_world =
   Some (0, (example_if ''br0'' ''internal'')\<lparr>oi_link := Some 0\<rparr>, ovs_world)"
proof -
  let ?f = "link_iface_search V OVS_DP_TYPE_SYSTEM (example_if ''br0'' ''internal'') (example_if ''br0'' ''internal'')"
  have f: "?f 0 ovs_world = Some (2, ovs_world)" "?f 1 ovs_world = Some (0, ovs_world)" "?f 2 ovs_world = Some (0, ovs_world)"
    by (simp_all add: link_iface_search_def weight_of_def ovs_world_def ovs_evals)
  have "oi_link (example_if ''br0'' ''internal'') = None" "w_list ovs_world = [0]" by (simp_all add: ovs_evals ovs_world_def)
  moreover have "\<exists>d. match_if ovs_world (\<lambda>e. Some ((((\<lambda>_. 0)(2 := 0, 1 := 0))(0 := 2)) e)) (match_init\<lparr>md_netns_list := Some [0]\<rparr>) = Some (0, d) \<and>
      match_found d = Some 0 \<and> \<not> match_ambiguous d"
    by (rule only_match [OF ovs_ifs]) (simp_all add: ovs_world_def)
  ultimately show ?thesis by (auto simp: link_iface_def ovs_ifs f simp del: One_nat_def fun_upd_apply)
qed

lemma port_found:
  assumes "oi_link m = Some 0"
  shows "link_iface V OVS_DP_TYPE_SYSTEM m (example_if ''eth0'' []) False ovs_world =
   Some (0, (example_if ''eth0'' [])\<lparr>oi_link := Some 2\<rparr>, ovs_world)"
proof -
  let ?f = "link_iface_search V OVS_DP_TYPE_SYSTEM m (example_if ''eth0'' [])"
  have f: "?f 0 ovs_world = Some (0, ovs_world)" "?f 1 ovs_world = Some (0, ovs_world)" "?f 2 ovs_world = Some (2, ovs_world)"
    using assms by (simp_all add: link_iface_search_def weight_of_def ovs_world_def ovs_evals)
  have "oi_link (example_if ''eth0'' []) = None" "w_list ovs_world = [0]" by (simp_all add: ovs_evals ovs_world_def)
  moreover have "\<exists>d. match_if ovs_world (\<lambda>e. Some ((((\<lambda>_. 0)(2 := 2, 1 := 0))(0 := 0)) e)) (match_init\<lparr>md_netns_list := Some [0]\<rparr>) = Some (0, d) \<and>
      match_found d = Some 2 \<and> \<not> match_ambiguous d"
    by (rule only_match [OF ovs_ifs]) (simp_all add: ovs_world_def)
  ultimately show ?thesis by (auto simp: link_iface_def ovs_ifs f simp del: One_nat_def fun_upd_apply)
qed

lemma small_connected: "\<exists>w'. link_ifaces V ovs_world = Some (0, w')"
proof -
  let ?i = "(example_if ''eth0'' [])\<lparr>oi_link := Some 2\<rparr>" and ?p = "ovs_port0\<lparr>op_name := ''eth0'', op_ifaces := [example_if ''eth0'' []], op_iface_count := 1, op_tag := 5\<rparr>"
  have m: "w_mem (set_master (Some 0) 2 ovs_world) = []" by (simp add: ovs_world_def)
  have "\<exists>w'. connect_iface V ?p (Some 0) ?i 2 ovs_world = Some (0, w')"
    using m by (simp add: connect_iface_def andthen_def label_iface_def master_set_assign assign_def ok_act_def label_port_or_iface_def
       if_alloc_def set_label_def iface_is_tunnel_def ovs_evals)
  moreover have "os_bridges (w_ovs ovs_world) = [small_bridge]" by (simp add: ovs_world_def ovs_state0_def)
  ultimately show ?thesis
    using main_found [of V] port_found [of "(example_if ''br0'' ''internal'')\<lparr>oi_link := Some 0\<rparr>" V]
    by (simp add: link_ifaces_def reading_def andthen_def link_bridge_def link_port_def link_port_iface_def small_bridge_def ok_act_def)
      (auto simp: ovs_port0_def ok_act_def)
qed

theorem link_ifaces_connects_witness:
  "\<exists>w'. link_ifaces example_ovs ovs_world = Some (0, w') \<and>
     (\<forall>p \<in> set (ob_ports small_bridge). port_connected (w_next ovs_world) w' small_bridge (Some 0) p)"
proof -
  let ?V = example_ovs
  from small_connected [of ?V] obtain w' where r: "link_ifaces ?V ovs_world = Some (0, w')" by blast
  have b: "os_bridges (w_ovs ovs_world) = [] @ small_bridge # []" by (simp add: ovs_world_def ovs_state0_def)
  have a: "names_apart ([] @ small_bridge # [])" by (simp add: names_apart_def ports_of_def ovs_evals)
  have p: "each_act (link_bridge ?V) [] ovs_world = Some (0, ovs_world)" by (simp add: ok_act_def)
  have n: "\<forall>p \<in> set (ports_of ([] @ small_bridge # [])). \<forall>i \<in> set (op_ifaces p). oi_name i \<noteq> oi_name (example_if ''br0'' ''internal'')"
    by (simp add: ports_of_def ovs_evals)
  have s: "ob_system small_bridge = Some (ovs_port0\<lparr>op_name := ''br0'', op_ifaces := [example_if ''br0'' ''internal''], op_iface_count := 1\<rparr>)"
    "ob_dp_type small_bridge = OVS_DP_TYPE_SYSTEM" by (simp_all add: small_bridge_def)
  from link_ifaces_connects [OF ovs_world_sound r b a p s(1) _ _ main_found [of ?V, folded s(2)] n] r
  show ?thesis by auto
qed

end
