(* ===== verification/Netns.thy ===== *)
theory Netns
  imports IfScan
begin

text \<open>
  Collecting the name spaces (\<open>netns.c\<close>): the root one, those with a name under
  \<open>/var/run/netns\<close>, and those of the processes in \<open>/proc\<close>, told apart by the inode number of
  the name space.  Which name space the process is in is part of the state, because what the
  kernel answers depends on it.
\<close>

section \<open>The kernel's side\<close>

text \<open>
  \<open>k_readlink\<close> gets the current name space; \<open>k_open\<close> gives a descriptor or a negative error,
  a descriptor standing for the file it was opened on; \<open>k_setns\<close> gives an error or the name
  space the descriptor stands for; \<open>k_comm\<close> is the result of opening and reading a \<open>comm\<close>
  file; \<open>k_mount\<close> the error of mounting sysfs in the current name space, \<open>k_umount\<close> that of the
  calls of \<open>umount2\<close> while something is mounted, in their order, and \<open>k_stat\<close> whether the mount
  point is there and a directory.
\<close>

record kernel =
  k_readlink :: "int \<Rightarrow> string \<Rightarrow> int + string"
  k_open :: "string \<Rightarrow> int"
  k_setns :: "int \<Rightarrow> int + int"
  k_readdir :: "string \<Rightarrow> string list option"
  k_comm :: "string \<Rightarrow> int + string"
  k_strerror :: "int \<Rightarrow> string"
  k_mkdtemp :: int
  k_mount :: "int \<Rightarrow> string option \<Rightarrow> int"
  k_umount :: "nat \<Rightarrow> int"
  k_stat :: "bool option"
  k_rmdir :: int
  k_ids :: "int \<Rightarrow> sock"

definition PATH_MAX :: nat where "PATH_MAX = 4096"
definition NETNS_RUN_DIR :: string where "NETNS_RUN_DIR = ''/var/run/netns''"

text \<open>
  The state while name spaces are collected: the list built so far, the name space the process
  is in, and the memory.
\<close>

record nsstate =
  s_list :: "netns_entry list"
  s_cur :: int
  s_mem :: mem

type_synonym 'a nscall = "nsstate \<Rightarrow> ('a \<times> nsstate) option"

section \<open>Kernel identifiers\<close>

definition LONG_MAX :: int where "LONG_MAX = 2 ^ 63 - 1"
definition LONG_MIN :: int where "LONG_MIN = - (2 ^ 63)"

text \<open>\<open>strtol\<close> in base 10: the value, cut to the range of \<open>long\<close>, and the rest of the text.\<close>

definition strtol :: "string \<Rightarrow> int \<times> string" where
  "strtol s =
     (let t = dropWhile is_space s;
          u = (case t of [] \<Rightarrow> [] | c # cs \<Rightarrow> if c = CHR ''-'' \<or> c = CHR ''+'' then cs else t);
          v = int (read_dec 0 (takeWhile is_digit u));
          v = (if t \<noteq> [] \<and> hd t = CHR ''-'' then - v else v) in
      if takeWhile is_digit u = [] then (0, s) else (max LONG_MIN (min LONG_MAX v), dropWhile is_digit u))"

definition before_last :: "char \<Rightarrow> string \<Rightarrow> string option" where
  "before_last c s = (if c \<in> set s then Some (rev (tl (dropWhile (\<lambda>x. x \<noteq> c) (rev s)))) else None)"

text \<open>A result \<open>None\<close>: the NUL is written behind the buffer when the link fills it.\<close>

definition netns_get_kernel_id :: "kernel \<Rightarrow> int \<Rightarrow> string \<Rightarrow> int option" where
  "netns_get_kernel_id K cur path =
     (case k_readlink K cur path of
        Inl err \<Rightarrow> Some (- err)
      | Inr dest \<Rightarrow>
          let dest = take PATH_MAX dest in
          if length dest = PATH_MAX then None
          else if take 5 dest \<noteq> ''net:['' then Some (- EINVAL)
          else (case before_last (CHR '']'') dest of
              None \<Rightarrow> Some (- EINVAL)
            | Some dest \<Rightarrow>
                let s = drop 5 dest; (result, endptr) = strtol s in
                if s = [] \<or> endptr \<noteq> [] then Some (- EINVAL) else Some result))"

definition netns_check_duplicate :: "netns_entry list \<Rightarrow> int \<Rightarrow> nat option" where
  "netns_check_duplicate netns_list kernel_id = find (\<lambda>i. n_kernel_id (netns_list ! i) = kernel_id) [0..<length netns_list]"

definition netns0 :: netns_entry where
  "netns0 = \<lparr>n_ifaces = [], n_warnings = [], n_kernel_id = 0, n_name = None, n_pid = 0, n_fd = 0, n_ids = [], n_rtables = []\<rparr>"

definition netns_create :: "netns_entry option nscall" where
  "netns_create s = (let (ok, m) = alloc (s_mem s) in Some (if ok then Some netns0 else None, s\<lparr>s_mem := m\<rparr>))"

section \<open>Switching\<close>

definition netns_switch :: "kernel \<Rightarrow> netns_entry \<Rightarrow> int \<Rightarrow> int \<times> int" where
  "netns_switch K dest cur = (case k_setns K (n_fd dest) of Inl err \<Rightarrow> (err, cur) | Inr c \<Rightarrow> (0, c))"

definition netns_switch_root :: "kernel \<Rightarrow> int \<Rightarrow> int \<times> int" where
  "netns_switch_root K cur =
     (let fd = k_open K ''/proc/1/ns/net'' in
      if fd < 0 then (if - fd = ENOENT then (-1, cur) else (- fd, cur))
      else (case k_setns K fd of Inl err \<Rightarrow> (if err = ENOENT then -1 else err, cur) | Inr c \<Rightarrow> (0, c)))"

section \<open>Named name spaces\<close>

definition warn_root :: "string \<Rightarrow> nsstate \<Rightarrow> nsstate" where
  "warn_root msg s =
     (case s_list s of
        [] \<Rightarrow> s
      | root # rest \<Rightarrow>
          let ((_, ls), m) = label_add (n_warnings root) msg (s_mem s) in
          s\<lparr>s_list := root\<lparr>n_warnings := ls\<rparr> # rest, s_mem := m\<rparr>)"

text \<open>
  \<open>netns_get_var_entry\<close> leaves the process in the name space it switched to on every path but
  the last, also for a duplicate.
\<close>

definition netns_get_var_entry :: "kernel \<Rightarrow> string \<Rightarrow> (int \<times> netns_entry) nscall" where
  "netns_get_var_entry K name s = do {
     (entry, s) \<leftarrow> netns_create s;
     case entry of
       None \<Rightarrow> Some ((ENOMEM, netns0), s)
     | Some entry \<Rightarrow>
         (let path = fit PATH_MAX (NETNS_RUN_DIR @ ''/'' @ name);
              entry = entry\<lparr>n_fd := k_open K path\<rparr> in
          if n_fd entry < 0 then
            Some ((-1, entry), warn_root (''Wrong '' @ path @ '': '' @ k_strerror K (- n_fd entry)) s)
          else
            let (err, cur) = netns_switch K entry (s_cur s); s = s\<lparr>s_cur := cur\<rparr> in
            if err \<noteq> 0 then Some ((-1, entry), warn_root (''Wrong '' @ path @ '': '' @ k_strerror K err) s)
            else do {
              kernel_id \<leftarrow> netns_get_kernel_id K cur ''/proc/self/ns/net'';
              if kernel_id < 0 then Some ((- kernel_id, entry), s)
              else if netns_check_duplicate (s_list s) kernel_id \<noteq> None then Some ((-1, entry), s)
              else let (ok, m) = alloc (s_mem s); s = s\<lparr>s_mem := m\<rparr> in
                if \<not> ok then Some ((ENOMEM, entry), s)
                else let (err, cur) = netns_switch_root K (s_cur s) in
                  Some ((err, entry\<lparr>n_kernel_id := kernel_id, n_name := Some name\<rparr>), s\<lparr>s_cur := cur\<rparr>) }) }"

fun add_var_names :: "kernel \<Rightarrow> string list \<Rightarrow> nsstate act" where
  "add_var_names K [] s = Some (0, s)"
| "add_var_names K (name # names) s =
     (if name = ''.'' \<or> name = ''..'' then add_var_names K names s
      else case netns_get_var_entry K name s of
          None \<Rightarrow> None
        | Some ((err, entry), s) \<Rightarrow>
            if err < 0 then add_var_names K names s
            else if err \<noteq> 0 then Some (err, s)
            else add_var_names K names (s\<lparr>s_list := s_list s @ [entry]\<rparr>))"

definition netns_add_var_list :: "kernel \<Rightarrow> nsstate act" where
  "netns_add_var_list K s =
     (case k_readdir K NETNS_RUN_DIR of None \<Rightarrow> Some (0, s) | Some names \<Rightarrow> add_var_names K names s)"

section \<open>Name spaces of processes\<close>

text \<open>
  The name of a process's name space.  The buffer holds the path before the file is read into
  it, so a text without the final newline is followed by what is left of the path; the byte
  before an empty text is outside the buffer (\<open>None\<close>).  Past the path the buffer is not
  initialised; there the model lets the text end.
\<close>

definition comm_text :: "string \<Rightarrow> string \<Rightarrow> string option" where
  "comm_text path s =
     (if s = [] then None
      else let s = take PATH_MAX s;
               buf = s @ drop (length s) (path @ [CHR 0x00]);
               buf = (if PATH_MAX \<le> length buf then butlast buf else buf) in
        Some (takeWhile (\<lambda>c. c \<noteq> CHR 0x00)
          (if buf ! (length s - 1) = CHR 0x0A then take (length s - 1) buf else buf)))"

definition netns_proc_entry_set_name :: "kernel \<Rightarrow> string \<Rightarrow> mem \<Rightarrow> (string \<times> mem) option" where
  "netns_proc_entry_set_name K spid m =
     (let path = fit PATH_MAX (''/proc/'' @ spid @ ''/comm'') in do {
        buf \<leftarrow> (case k_comm K path of
            Inl _ \<Rightarrow> Some (fit PATH_MAX (''PID '' @ spid))
          | Inr s \<Rightarrow> map_option (\<lambda>t. fit PATH_MAX (''PID '' @ spid @ '' ('' @ t @ '')'')) (comm_text path s));
        let (ok, m) = alloc m;
        Some (if ok then buf else ''?'', m) })"

text \<open>\<open>pid_t\<close> is a 32-bit \<open>int\<close>.\<close>

definition pid_of :: "string \<Rightarrow> int" where
  "pid_of spid = sint (word_of_int (fst (strtol spid)) :: u32)"

definition netns_get_proc_entry :: "kernel \<Rightarrow> string \<Rightarrow> (int \<times> netns_entry) nscall" where
  "netns_get_proc_entry K spid s =
     (let path = fit PATH_MAX (''/proc/'' @ spid @ ''/ns/net''); pid = pid_of spid in do {
        kernel_id \<leftarrow> netns_get_kernel_id K (s_cur s) path;
        if kernel_id < 0 then Some ((-1, netns0), s)
        else case netns_check_duplicate (s_list s) kernel_id of
          Some d \<Rightarrow>
            (let dup = s_list s ! d in
             if n_pid dup \<noteq> 0 \<and> n_pid dup > pid then do {
               (name, m) \<leftarrow> netns_proc_entry_set_name K spid (s_mem s);
               Some ((-1, netns0), s\<lparr>s_list := (s_list s)[d := dup\<lparr>n_pid := pid, n_name := Some name\<rparr>], s_mem := m\<rparr>) }
             else Some ((-1, netns0), s))
        | None \<Rightarrow> do {
            (entry, s) \<leftarrow> netns_create s;
            case entry of
              None \<Rightarrow> Some ((ENOMEM, netns0), s)
            | Some entry \<Rightarrow>
                (let entry = entry\<lparr>n_kernel_id := kernel_id, n_pid := pid, n_fd := k_open K path\<rparr> in
                 if n_fd entry < 0 then Some ((-1, entry), s)
                 else do {
                   (name, m) \<leftarrow> netns_proc_entry_set_name K spid (s_mem s);
                   Some ((0, entry\<lparr>n_name := Some name\<rparr>), s\<lparr>s_mem := m\<rparr>) }) } })"

definition is_pid :: "string \<Rightarrow> bool" where
  "is_pid name \<longleftrightarrow> name \<noteq> [] \<and> is_digit (hd name)"

fun add_proc_names :: "kernel \<Rightarrow> string list \<Rightarrow> nsstate act" where
  "add_proc_names K [] s = Some (0, s)"
| "add_proc_names K (name # names) s =
     (if name = ''.'' \<or> name = ''..'' \<or> \<not> is_pid name then add_proc_names K names s
      else case netns_get_proc_entry K name s of
          None \<Rightarrow> None
        | Some ((err, entry), s) \<Rightarrow>
            if err < 0 then add_proc_names K names s
            else if err \<noteq> 0 then Some (err, s)
            else add_proc_names K names (s\<lparr>s_list := s_list s @ [entry]\<rparr>))"

definition netns_add_proc_list :: "kernel \<Rightarrow> nsstate act" where
  "netns_add_proc_list K s =
     (case k_readdir K ''/proc'' of None \<Rightarrow> Some (0, s) | Some names \<Rightarrow> add_proc_names K names s)"

definition netns_new_list :: "kernel \<Rightarrow> bool \<Rightarrow> nsstate act" where
  "netns_new_list K supported s = do {
     (root, s) \<leftarrow> netns_create s;
     case root of
       None \<Rightarrow> Some (ENOMEM, s)
     | Some root \<Rightarrow>
         if \<not> supported then Some (0, s\<lparr>s_list := [root]\<rparr>)
         else do {
           kernel_id \<leftarrow> netns_get_kernel_id K (s_cur s) ''/proc/1/ns/net'';
           let fd = k_open K ''/proc/1/ns/net'';
           if kernel_id < 0 then Some (- kernel_id, s)
           else if fd < 0 then Some (- fd, s)
           else Some (0, s\<lparr>s_list := [root\<lparr>n_kernel_id := kernel_id, n_fd := fd\<rparr>]\<rparr>) } }"

text \<open>All name spaces: the root one, the named ones, those of processes.\<close>

definition netns_collect :: "kernel \<Rightarrow> bool \<Rightarrow> nsstate act" where
  "netns_collect K supported =
     andthen (netns_new_list K supported)
       (if supported then andthen (netns_add_var_list K) (netns_add_proc_list K) else ok_act)"

section \<open>Kernel identifiers are read back\<close>

lemma takeWhile_digits: "list_all is_digit xs \<Longrightarrow> takeWhile is_digit xs = xs"
  by (induction xs) auto

lemma digit_no_space: "is_digit c \<Longrightarrow> \<not> is_space c \<and> c \<noteq> CHR ''-'' \<and> c \<noteq> CHR ''+''"
  by (auto simp: is_digit_def is_space_def)

lemma strtol_dec:
  assumes "int n \<le> LONG_MAX"
  shows "strtol (dec n) = (int n, [])"
proof -
  have d: "list_all is_digit (dec n)" by (simp add: dec_def radix10_digits)
  obtain c cs where c: "dec n = c # cs" by (cases "dec n") auto
  with d have "is_digit c" by simp
  from digit_no_space [OF this] have "dropWhile is_space (dec n) = dec n" "c \<noteq> CHR ''-''" "c \<noteq> CHR ''+''" by (simp_all add: c)
  moreover have "dropWhile is_digit (dec n) = []" using d by (simp add: list.pred_set)
  ultimately show ?thesis
    using takeWhile_digits [OF d] assms read_radix10 [of n]
    by (simp add: strtol_def c Let_def LONG_MIN_def flip: dec_def)
qed

lemma kernel_id_link:
  assumes "k_readlink K cur path = Inr (''net:['' @ dec n @ '']'')" and "int n \<le> LONG_MAX"
  shows "netns_get_kernel_id K cur path = Some (int n)"
proof -
  have "n < 10 ^ 19" using assms(2) by (simp add: LONG_MAX_def)
  from length_radix10 [OF _ this] have l: "length (dec n) \<le> 19" by (simp add: dec_def)
  have b: "before_last (CHR '']'') (''net:['' @ dec n @ '']'') = Some (''net:['' @ dec n)"
    by (simp add: before_last_def)
  show ?thesis
    using l strtol_dec [OF assms(2)] b
    by (simp add: netns_get_kernel_id_def assms(1) PATH_MAX_def Let_def)
qed

section \<open>The collected list\<close>

text \<open>
  The root name space comes first and has neither name nor process; all others have a name and
  an open descriptor; no two entries are the same name space.
\<close>

definition collected :: "nsstate \<Rightarrow> bool" where
  "collected s \<longleftrightarrow> (\<exists>root rest. s_list s = root # rest \<and> n_name root = None \<and> n_pid root = 0 \<and>
     (\<forall>e \<in> set rest. n_name e \<noteq> None \<and> 0 \<le> n_fd e) \<and>
     distinct (map n_kernel_id (s_list s)) \<and> (\<forall>e \<in> set (s_list s). n_ifaces e = [] \<and> 0 \<le> n_kernel_id e))"

lemma no_duplicate: "netns_check_duplicate l k = None \<longleftrightarrow> k \<notin> n_kernel_id ` set l"
  by (simp add: netns_check_duplicate_def find_None_iff image_iff Bex_def in_set_conv_nth) metis

lemma duplicate_at:
  assumes "netns_check_duplicate l k = Some d"
  shows "d < length l \<and> n_kernel_id (l ! d) = k"
  using assms by (auto simp: netns_check_duplicate_def find_Some_iff)

lemma collected_cong: "s_list s' = s_list s \<Longrightarrow> collected s' = collected s"
  by (simp add: collected_def)

lemma collected_warn_root: "collected s \<Longrightarrow> collected (warn_root msg s)"
  by (auto simp: collected_def warn_root_def split: list.splits prod.splits)

lemma collected_append:
  assumes "collected s" and "n_name e \<noteq> None" "0 \<le> n_fd e" "0 \<le> n_kernel_id e" "n_ifaces e = []"
    and "n_kernel_id e \<notin> n_kernel_id ` set (s_list s)"
  shows "collected (s\<lparr>s_list := s_list s @ [e]\<rparr>)"
  using assms by (auto simp: collected_def)

lemma create_list: "netns_create s = Some (r, s') \<Longrightarrow> s_list s' = s_list s \<and> s_cur s' = s_cur s \<and> (r = None \<or> r = Some netns0)"
  by (auto simp: netns_create_def split: prod.splits if_splits)

lemma get_var_entry_result:
  assumes "netns_get_var_entry K name s = Some ((err, e), s')" and "collected s"
  shows "collected s' \<and> (err = 0 \<longrightarrow> s_list s' = s_list s \<and> n_name e \<noteq> None \<and> 0 \<le> n_fd e \<and> 0 \<le> n_kernel_id e \<and>
    n_ifaces e = [] \<and> n_kernel_id e \<notin> n_kernel_id ` set (s_list s))"
proof -
  have same: "collected s''" if "s_list s'' = s_list s" for s'' using assms(2) collected_cong [OF that] by simp
  have warned: "collected (warn_root msg s'')" if "s_list s'' = s_list s" for s'' msg
    by (rule collected_warn_root [OF same [OF that]])
  from assms(1) show ?thesis
    by (auto simp: netns_get_var_entry_def Let_def no_duplicate netns0_def errno_defs
        split: bind_splits prod.splits option.splits if_splits
        dest!: create_list intro!: warned intro: same)
qed

lemma add_var_collected: "add_var_names K names s = Some (err, s') \<Longrightarrow> collected s \<Longrightarrow> collected s'"
proof (induction names arbitrary: s)
  case (Cons name names)
  show ?case
  proof (cases "name = ''.'' \<or> name = ''..''")
    case False
    with Cons.prems(1) obtain e1 e s1 where g: "netns_get_var_entry K name s = Some ((e1, e), s1)"
      by (auto split: option.splits)
    from get_var_entry_result [OF g Cons.prems(2)] collected_append [of s1 e] have c: "collected s1"
      "e1 = 0 \<Longrightarrow> collected (s1\<lparr>s_list := s_list s1 @ [e]\<rparr>)"
      by auto
    from Cons.prems(1) False g c show ?thesis
      by (auto split: if_splits intro: Cons.IH)
  qed (use Cons in auto)
qed simp

lemma collected_update:
  assumes "collected s" and "d < length (s_list s)" and "n_pid (s_list s ! d) \<noteq> 0"
  shows "collected (s\<lparr>s_list := (s_list s)[d := (s_list s ! d)\<lparr>n_pid := p, n_name := Some nm\<rparr>], s_mem := m\<rparr>)"
proof -
  from assms(1) obtain root rest where l: "s_list s = root # rest" "n_name root = None" "n_pid root = 0"
    "\<forall>e \<in> set rest. n_name e \<noteq> None \<and> 0 \<le> n_fd e" "distinct (map n_kernel_id (s_list s))"
    "\<forall>e \<in> set (s_list s). n_ifaces e = [] \<and> 0 \<le> n_kernel_id e" by (auto simp: collected_def)
  from l assms(3) obtain k where k: "d = Suc k" by (cases d) auto
  let ?e = "(rest ! k)\<lparr>n_pid := p, n_name := Some nm\<rparr>"
  have in_rest: "rest ! k \<in> set rest" using assms(2) by (simp add: k l(1))
  have ids: "map n_kernel_id (rest[k := ?e]) = map n_kernel_id rest"
    by (simp add: map_update) (metis list_update_id map_update)
  have "\<forall>e \<in> set (rest[k := ?e]). n_name e \<noteq> None \<and> 0 \<le> n_fd e \<and> n_ifaces e = [] \<and> 0 \<le> n_kernel_id e"
    using l(4,6) in_rest by (auto simp: l(1) dest!: set_update_subset_insert [THEN subsetD])
  with l ids show ?thesis by (auto simp: collected_def k l(1))
qed

lemma get_proc_entry_result:
  assumes "netns_get_proc_entry K spid s = Some ((err, e), s')" and c: "collected s"
  shows "collected s' \<and> (err = 0 \<longrightarrow> s_list s' = s_list s \<and> n_name e \<noteq> None \<and> 0 \<le> n_fd e \<and> 0 \<le> n_kernel_id e \<and>
    n_ifaces e = [] \<and> n_kernel_id e \<notin> n_kernel_id ` set (s_list s))"
proof -
  have same: "collected s''" if "s_list s'' = s_list s" for s'' using c collected_cong [OF that] by simp
  have dup: "collected (s\<lparr>s_list := (s_list s)[d := (s_list s ! d)\<lparr>n_pid := p, n_name := Some nm\<rparr>], s_mem := m\<rparr>)"
    if "netns_check_duplicate (s_list s) k = Some d" "n_pid (s_list s ! d) \<noteq> 0" for d k p nm m
    using collected_update [OF c] duplicate_at [OF that(1)] that(2) by blast
  from assms(1) show ?thesis
    by (auto simp: netns_get_proc_entry_def Let_def no_duplicate netns0_def errno_defs
        split: bind_splits prod.splits option.splits if_splits
        dest!: create_list intro!: dup intro: same)
qed

lemma add_proc_collected: "add_proc_names K names s = Some (err, s') \<Longrightarrow> collected s \<Longrightarrow> collected s'"
proof (induction names arbitrary: s)
  case (Cons name names)
  show ?case
  proof (cases "name = ''.'' \<or> name = ''..'' \<or> \<not> is_pid name")
    case False
    with Cons.prems(1) obtain e1 e s1 where g: "netns_get_proc_entry K name s = Some ((e1, e), s1)"
      by (auto split: option.splits)
    from get_proc_entry_result [OF g Cons.prems(2)] collected_append [of s1 e] have c: "collected s1"
      "e1 = 0 \<Longrightarrow> collected (s1\<lparr>s_list := s_list s1 @ [e]\<rparr>)"
      by auto
    from Cons.prems(1) False g c show ?thesis
      by (auto split: if_splits intro: Cons.IH)
  qed (use Cons in auto)
qed simp

lemma new_list_collected: "netns_new_list K supported s = Some (0, s') \<Longrightarrow> collected s' \<and> s_cur s' = s_cur s"
  by (auto simp: netns_new_list_def Let_def collected_def netns0_def errno_defs
      split: bind_splits option.splits if_splits dest!: create_list)

lemma collect_result: "netns_collect K supported s = Some (0, s') \<Longrightarrow> collected s'"
  by (auto simp: netns_collect_def andthen_0 ok_act_def netns_add_var_list_def netns_add_proc_list_def
      split: if_splits option.splits dest!: new_list_collected)
    (blast intro: add_var_collected add_proc_collected)+

text \<open>
  C3: Every name space is listed once: when collecting succeeds, the list starts with the root
  name space, which alone has no name; all other entries have a name and an open descriptor,
  and no two entries have the same kernel identifier, however often a name space is found by
  name or through processes.
\<close>

theorem netns_collect_distinct:
  assumes "netns_collect K supported s = Some (0, s')"
  shows "\<exists>root rest. s_list s' = root # rest \<and> n_name root = None \<and>
    (\<forall>e \<in> set rest. n_name e \<noteq> None \<and> 0 \<le> n_fd e) \<and> distinct (map n_kernel_id (s_list s'))"
  using collect_result [OF assms] by (auto simp: collected_def)

definition net_link :: "nat \<Rightarrow> string" where
  "net_link n = ''net:['' @ dec n @ '']''"

text \<open>Root is 10, the names \<open>blue\<close> and \<open>azure\<close> are both 20, process 5 is in 20, processes 9 and 7 in 30.\<close>

definition example_kernel :: kernel where
  "example_kernel = \<lparr>
     k_readlink = (\<lambda>cur path.
       if path = ''/proc/self/ns/net'' then Inr (net_link (nat cur))
       else if path = ''/proc/1/ns/net'' then Inr (net_link 10)
       else if path = ''/proc/5/ns/net'' then Inr (net_link 20) else Inr (net_link 30)),
     k_open = (\<lambda>path. if path = ''/proc/1/ns/net'' then 3 else 4),
     k_setns = (\<lambda>fd. if fd = 3 then Inr 10 else Inr 20),
     k_readdir = (\<lambda>dir. if dir = ''/proc'' then Some [''5'', ''9'', ''self'', ''7''] else Some [''.'', ''blue'', ''azure'']),
     k_comm = (\<lambda>_. Inr [CHR ''s'', CHR ''h'', CHR 0x0A]), k_strerror = (\<lambda>_. ''error''), k_mkdtemp = 0, k_mount = (\<lambda>_ _. 0), k_umount = (\<lambda>_. 0), k_stat = Some True, k_rmdir = 0,
     k_ids = (\<lambda>_. \<lparr>sk_open = [], sk_pid = 7, sk_rx = [], sk_tx = []\<rparr>)\<rparr>"

definition start_state :: nsstate where
  "start_state = \<lparr>s_list = [], s_cur = 10, s_mem = []\<rparr>"

lemma example_ids [simp]:
  "netns_get_kernel_id example_kernel cur ''/proc/1/ns/net'' = Some 10"
  "netns_get_kernel_id example_kernel 20 ''/proc/self/ns/net'' = Some 20"
  "netns_get_kernel_id example_kernel cur ''/proc/5/ns/net'' = Some 20"
  "netns_get_kernel_id example_kernel cur ''/proc/7/ns/net'' = Some 30"
  "netns_get_kernel_id example_kernel cur ''/proc/9/ns/net'' = Some 30"
  using kernel_id_link [of example_kernel cur "''/proc/1/ns/net''" 10] kernel_id_link [of example_kernel 20 "''/proc/self/ns/net''" 20]
    kernel_id_link [of example_kernel cur "''/proc/5/ns/net''" 20] kernel_id_link [of example_kernel cur "''/proc/7/ns/net''" 30]
    kernel_id_link [of example_kernel cur "''/proc/9/ns/net''" 30]
  by (simp_all add: example_kernel_def net_link_def LONG_MAX_def)

lemma example_pids: "pid_of ''5'' = 5" "pid_of ''7'' = 7" "pid_of ''9'' = 9"
  by (simp_all add: pid_of_def strtol_def is_space_def is_digit_def LONG_MAX_def LONG_MIN_def)

lemma example_comm:
  "comm_text ''/proc/7/comm'' [CHR ''s'', CHR ''h'', CHR 0x0A] = Some ''sh''"
  "comm_text ''/proc/9/comm'' [CHR ''s'', CHR ''h'', CHR 0x0A] = Some ''sh''"
  by (simp_all add: comm_text_def PATH_MAX_def Let_def)

definition example_list :: "netns_entry list" where
  "example_list = [netns0\<lparr>n_kernel_id := 10, n_fd := 3\<rparr>, netns0\<lparr>n_kernel_id := 20, n_fd := 4, n_name := Some ''blue''\<rparr>,
     netns0\<lparr>n_kernel_id := 30, n_fd := 4, n_pid := 7, n_name := Some ''PID 7 (sh)''\<rparr>]"

lemma example_K:
  "k_open example_kernel p = (if p = ''/proc/1/ns/net'' then 3 else 4)"
    "k_setns example_kernel fd = (if fd = 3 then Inr 10 else Inr 20)"
    "k_readdir example_kernel dir = (if dir = ''/proc'' then Some [''5'', ''9'', ''self'', ''7''] else Some [''.'', ''blue'', ''azure''])"
    "k_comm example_kernel p = Inr [CHR ''s'', CHR ''h'', CHR 0x0A]"
  by (simp_all add: example_kernel_def)

lemma example_proc:
  "netns_add_proc_list example_kernel
      \<lparr>s_list = [netns0\<lparr>n_kernel_id := 10, n_fd := 3\<rparr>, netns0\<lparr>n_kernel_id := 20, n_fd := 4, n_name := Some ''blue''\<rparr>],
        s_cur = 20, s_mem = []\<rparr> = Some (0, \<lparr>s_list = example_list, s_cur = 20, s_mem = []\<rparr>)"
  by (simp add: netns_add_proc_list_def example_K is_pid_def is_digit_def netns_get_proc_entry_def netns_create_def
        PATH_MAX_def fit_def Let_def netns_check_duplicate_def netns0_def example_pids netns_proc_entry_set_name_def
        example_comm example_list_def)

lemma example_collect:
  "netns_collect example_kernel True start_state = Some (0, \<lparr>s_list = example_list, s_cur = 20, s_mem = []\<rparr>)"
proof -
  have root: "netns_new_list example_kernel True start_state =
      Some (0, start_state\<lparr>s_list := [netns0\<lparr>n_kernel_id := 10, n_fd := 3\<rparr>]\<rparr>)"
    by (simp add: netns_new_list_def netns_create_def start_state_def example_K)
  have var: "netns_add_var_list example_kernel (start_state\<lparr>s_list := [netns0\<lparr>n_kernel_id := 10, n_fd := 3\<rparr>]\<rparr>) =
      Some (0, \<lparr>s_list = [netns0\<lparr>n_kernel_id := 10, n_fd := 3\<rparr>, netns0\<lparr>n_kernel_id := 20, n_fd := 4, n_name := Some ''blue''\<rparr>],
        s_cur = 20, s_mem = []\<rparr>)"
    by (simp add: netns_add_var_list_def example_K NETNS_RUN_DIR_def netns_get_var_entry_def netns_create_def start_state_def
        PATH_MAX_def fit_def Let_def netns_switch_def netns_switch_root_def netns_check_duplicate_def netns0_def)
  show ?thesis
    by (simp add: netns_collect_def andthen_def root var example_proc)
qed

theorem netns_collect_distinct_witness:
  "\<exists>s'. netns_collect example_kernel True start_state = Some (0, s') \<and> length (s_list s') = 3 \<and> distinct (map n_kernel_id (s_list s'))"
  using netns_collect_distinct [OF example_collect] example_collect by (auto simp: example_list_def)

section \<open>The process that names a name space\<close>

definition proc_id :: "kernel \<Rightarrow> int \<Rightarrow> string \<Rightarrow> int option" where
  "proc_id K cur spid = netns_get_kernel_id K cur (fit PATH_MAX (''/proc/'' @ spid @ ''/ns/net''))"

definition pids_of :: "kernel \<Rightarrow> int \<Rightarrow> string list \<Rightarrow> int \<Rightarrow> int set" where
  "pids_of K cur names k = pid_of ` {nm \<in> set names. is_pid nm \<and> proc_id K cur nm = Some k}"

text \<open>
  After the processes \<open>names\<close>: an entry that has a process has the lowest of those in its name
  space, and every name space of these processes is on the list.
\<close>

definition lowest_pids :: "kernel \<Rightarrow> int \<Rightarrow> string list \<Rightarrow> netns_entry list \<Rightarrow> bool" where
  "lowest_pids K cur names l \<longleftrightarrow>
     (\<forall>e \<in> set l. n_pid e \<noteq> 0 \<longrightarrow> n_pid e \<in> pids_of K cur names (n_kernel_id e) \<and>
        (\<forall>p \<in> pids_of K cur names (n_kernel_id e). n_pid e \<le> p)) \<and>
     (\<forall>nm \<in> set names. \<forall>k. is_pid nm \<longrightarrow> proc_id K cur nm = Some k \<longrightarrow> 0 \<le> k \<longrightarrow> k \<in> n_kernel_id ` set l)"

lemma pids_of_snoc: "pids_of K cur (names @ [nm]) k =
    (if is_pid nm \<and> proc_id K cur nm = Some k then insert (pid_of nm) (pids_of K cur names k) else pids_of K cur names k)"
  by (auto simp: pids_of_def)

lemma get_proc_entry_cases:
  assumes "netns_get_proc_entry K nm s = Some ((err, e), s')" and "\<And>path. 0 \<le> k_open K path"
  obtains (unread) k where "proc_id K (s_cur s) nm = Some k" "k < 0" "err = -1" "s' = s"
  | (known) k d where "proc_id K (s_cur s) nm = Some k" "netns_check_duplicate (s_list s) k = Some d" "err = -1" "s_cur s' = s_cur s"
      "n_pid (s_list s ! d) = 0 \<or> n_pid (s_list s ! d) \<le> pid_of nm" "s_list s' = s_list s"
  | (lower) k d nm' where "proc_id K (s_cur s) nm = Some k" "netns_check_duplicate (s_list s) k = Some d" "err = -1" "s_cur s' = s_cur s"
      "n_pid (s_list s ! d) \<noteq> 0" "n_pid (s_list s ! d) > pid_of nm"
      "s_list s' = (s_list s)[d := (s_list s ! d)\<lparr>n_pid := pid_of nm, n_name := Some nm'\<rparr>]"
  | (failed) "err = ENOMEM"
  | (new) k where "proc_id K (s_cur s) nm = Some k" "0 \<le> k" "netns_check_duplicate (s_list s) k = None" "err = 0"
      "s_cur s' = s_cur s" "s_list s' = s_list s" "n_kernel_id e = k" "n_pid e = pid_of nm"
proof -
  note o = assms(2) [unfolded linorder_not_less [symmetric]]
  from assms(1) obtain k where k: "proc_id K (s_cur s) nm = Some k"
    by (auto simp: netns_get_proc_entry_def proc_id_def Let_def split: bind_splits)
  show ?thesis
  proof (cases "k < 0")
    case True
    with assms(1) k show ?thesis by (intro unread) (auto simp: netns_get_proc_entry_def proc_id_def Let_def)
  next
    case k0: False
    show ?thesis
    proof (cases "netns_check_duplicate (s_list s) k")
      case None
      with assms(1) k k0 have "err = ENOMEM \<or>
          err = 0 \<and> s_cur s' = s_cur s \<and> s_list s' = s_list s \<and> n_kernel_id e = k \<and> n_pid e = pid_of nm"
        by (auto simp: netns_get_proc_entry_def proc_id_def Let_def o
            split: bind_splits option.splits dest!: create_list)
      with None k k0 show ?thesis by (auto intro: failed new)
    next
      case (Some d)
      show ?thesis
      proof (cases "n_pid (s_list s ! d) \<noteq> 0 \<and> n_pid (s_list s ! d) > pid_of nm")
        case True
        with assms(1) k k0 Some show ?thesis
          by (auto simp: netns_get_proc_entry_def proc_id_def Let_def split: bind_splits intro: lower)
      next
        case False
        with assms(1) k k0 Some show ?thesis
          by (intro known) (auto simp: netns_get_proc_entry_def proc_id_def Let_def)
      qed
    qed
  qed
qed

lemma lowest_pids_same:
  assumes l: "lowest_pids K cur names l" and k: "proc_id K cur nm = Some k"
    and "k < 0 \<or> (\<exists>d < length l. n_kernel_id (l ! d) = k \<and> (n_pid (l ! d) = 0 \<or> n_pid (l ! d) \<le> pid_of nm)) \<and> distinct (map n_kernel_id l)"
    and pos: "\<forall>e \<in> set l. 0 \<le> n_kernel_id e"
  shows "lowest_pids K cur (names @ [nm]) l"
proof -
  have "n_pid e = 0 \<or> n_pid e \<le> pid_of nm" if e: "e \<in> set l" "n_kernel_id e = k" for e
  proof -
    from pos e assms(3) obtain d where d: "d < length l" "n_kernel_id (l ! d) = k" "n_pid (l ! d) = 0 \<or> n_pid (l ! d) \<le> pid_of nm"
      and dist: "distinct (map n_kernel_id l)" by fastforce
    from e obtain d' where d': "d' < length l" "l ! d' = e" by (auto simp: in_set_conv_nth)
    with dist d e have "d' = d" by (auto simp: distinct_conv_nth)
    with d d' show ?thesis by simp
  qed
  moreover have "k \<in> n_kernel_id ` set l" if "0 \<le> k" using assms(3) that by (force simp: image_iff)
  ultimately show ?thesis
    using l k unfolding lowest_pids_def by (auto simp: pids_of_snoc)
qed

lemma lowest_pids_lower:
  assumes l: "lowest_pids K cur names l" and k: "proc_id K cur nm = Some k" "is_pid nm"
    and d: "d < length l" "n_kernel_id (l ! d) = k" "n_pid (l ! d) > pid_of nm" and dist: "distinct (map n_kernel_id l)"
    and p0: "n_pid (l ! d) \<noteq> 0"
  shows "lowest_pids K cur (names @ [nm]) (l[d := (l ! d)\<lparr>n_pid := pid_of nm, n_name := v\<rparr>])"
proof -
  let ?l = "l[d := (l ! d)\<lparr>n_pid := pid_of nm, n_name := v\<rparr>]"
  have ids: "n_kernel_id ` set ?l = n_kernel_id ` set l"
    using d(1) by (metis (no_types, lifting) list.set_map list_update_id map_update netns_entry.select_convs(3) netns_entry.surjective netns_entry.update_convs(4,5))
  have ld: "\<forall>p \<in> pids_of K cur names k. n_pid (l ! d) \<le> p" using l d p0 by (auto simp: lowest_pids_def)
  have other: "n_kernel_id (l ! i) \<noteq> k" if "i < length l" "i \<noteq> d" for i
    using dist that d by (auto simp: distinct_conv_nth)
  have "n_pid e \<in> pids_of K cur (names @ [nm]) (n_kernel_id e) \<and> (\<forall>p \<in> pids_of K cur (names @ [nm]) (n_kernel_id e). n_pid e \<le> p)"
    if e: "e \<in> set ?l" "n_pid e \<noteq> 0" for e
  proof -
    from e(1) obtain i where i: "i < length l" "e = ?l ! i" by (auto simp: in_set_conv_nth)
    show ?thesis
    proof (cases "i = d")
      case True
      with i d ld k show ?thesis by (auto simp: pids_of_snoc intro: order_trans [OF less_imp_le])
    next
      case False
      with i have e': "e = l ! i" by simp
      with other [OF i(1) False] i(1) l e(2) show ?thesis
        by (auto simp: pids_of_snoc lowest_pids_def k)
    qed
  qed
  moreover have "k \<in> n_kernel_id ` set l" using d by auto
  ultimately show ?thesis
    using l k unfolding lowest_pids_def ids by auto
qed

lemma lowest_pids_new:
  assumes l: "lowest_pids K cur names l" and k: "proc_id K cur nm = Some k" "is_pid nm" "0 \<le> k"
    and e: "n_kernel_id e = k" "n_pid e = pid_of nm" and new: "k \<notin> n_kernel_id ` set l"
  shows "lowest_pids K cur (names @ [nm]) (l @ [e])"
proof -
  have none: "pids_of K cur names k = {}" using l k new by (force simp: lowest_pids_def pids_of_def)
  have old: "n_kernel_id x \<noteq> k" if "x \<in> set l" for x using new that by auto
  show ?thesis
    using l k e none old unfolding lowest_pids_def by (auto simp: pids_of_snoc)
qed

lemma lowest_pids_other: "lowest_pids K cur names l \<Longrightarrow> \<not> is_pid nm \<Longrightarrow> lowest_pids K cur (names @ [nm]) l"
  unfolding lowest_pids_def by (simp add: pids_of_snoc)

lemma add_proc_lowest:
  assumes o: "\<And>path. 0 \<le> k_open K path"
  shows "add_proc_names K names s = Some (0, s') \<Longrightarrow> collected s \<Longrightarrow> lowest_pids K (s_cur s) before (s_list s) \<Longrightarrow>
    lowest_pids K (s_cur s) (before @ names) (s_list s')"
proof (induction names arbitrary: s before)
  case (Cons nm names)
  note l = Cons.prems(3)
  have step: "lowest_pids K (s_cur s) (before @ nm # names) (s_list s')"
    if "add_proc_names K names t = Some (0, s')" "collected t" "lowest_pids K (s_cur s) (before @ [nm]) (s_list t)" "s_cur t = s_cur s" for t
    using Cons.IH [OF that(1,2), of "before @ [nm]"] that(3,4) by simp
  show ?case
  proof (cases "is_pid nm")
    case False
    with Cons.prems(1) have "add_proc_names K names s = Some (0, s')" by simp
    with lowest_pids_other [OF l False] show ?thesis by (intro step [OF _ Cons.prems(2)]) simp_all
  next
    case pid: True
    then have nd: "\<not> (nm = ''.'' \<or> nm = ''..'' \<or> \<not> is_pid nm)" by (auto simp: is_pid_def is_digit_def)
    from Cons.prems(1) nd obtain err e s1 where g: "netns_get_proc_entry K nm s = Some ((err, e), s1)"
      by (auto split: option.splits)
    note res = get_proc_entry_result [OF g Cons.prems(2)]
    have c: "distinct (map n_kernel_id (s_list s))" "\<forall>e \<in> set (s_list s). 0 \<le> n_kernel_id e"
      using Cons.prems(2) by (auto simp: collected_def)
    from g o show ?thesis
    proof (cases rule: get_proc_entry_cases)
      case (unread k)
      with Cons.prems(1) nd g have "add_proc_names K names s = Some (0, s')" by simp
      with lowest_pids_same [OF l unread(1)] unread c show ?thesis by (intro step [OF _ Cons.prems(2)]) auto
    next
      case (known k d)
      with Cons.prems(1) nd g have r: "add_proc_names K names s1 = Some (0, s')" by simp
      from known duplicate_at [OF known(2)] c
      have "lowest_pids K (s_cur s) (before @ [nm]) (s_list s)" by (intro lowest_pids_same [OF l known(1)]) auto
      with known(6) res show ?thesis by (intro step [OF r _ _ known(4)]) auto
    next
      case (lower k d nm')
      with Cons.prems(1) nd g have r: "add_proc_names K names s1 = Some (0, s')" by simp
      from lower duplicate_at [OF lower(2)] c
      have "lowest_pids K (s_cur s) (before @ [nm]) (s_list s1)"
        unfolding lower(7) by (intro lowest_pids_lower [OF l lower(1) pid]) auto
      with res show ?thesis by (intro step [OF r _ _ lower(4)]) auto
    next
      case failed
      with Cons.prems(1) nd g show ?thesis by (simp add: ENOMEM_def)
    next
      case (new k)
      with Cons.prems(1) nd g have r: "add_proc_names K names (s1\<lparr>s_list := s_list s1 @ [e]\<rparr>) = Some (0, s')" by simp
      from new(3) have "k \<notin> n_kernel_id ` set (s_list s)" by (simp add: no_duplicate)
      from lowest_pids_new [OF l new(1) pid new(2,7,8) this]
      have "lowest_pids K (s_cur s) (before @ [nm]) (s_list s1 @ [e])" by (simp add: new(6))
      with res collected_append [of s1 e] show ?thesis
        by (intro step [OF r]) (auto simp: new(4,5))
    qed
  qed
qed simp

text \<open>
  C27: A name space that is only known through processes carries the lowest process number in
  it: when all name space files can be opened, after \<open>/proc\<close> has been walked every entry with
  a process has the least number of the listed processes whose \<open>ns/net\<close> link shows the
  entry's identifier, whatever the order of the directory, and every name space of a readable
  process is on the list.
\<close>

theorem proc_list_lowest_pid:
  assumes "\<And>path. 0 \<le> k_open K path" and "k_readdir K ''/proc'' = Some names"
    and "collected s" and "\<forall>e \<in> set (s_list s). n_pid e = 0"
    and "netns_add_proc_list K s = Some (0, s')"
  shows "(\<forall>e \<in> set (s_list s'). n_pid e \<noteq> 0 \<longrightarrow>
      (\<exists>nm \<in> set names. is_pid nm \<and> proc_id K (s_cur s) nm = Some (n_kernel_id e) \<and> n_pid e = pid_of nm) \<and>
      (\<forall>nm \<in> set names. is_pid nm \<longrightarrow> proc_id K (s_cur s) nm = Some (n_kernel_id e) \<longrightarrow> n_pid e \<le> pid_of nm)) \<and>
    (\<forall>nm \<in> set names. \<forall>k. is_pid nm \<longrightarrow> proc_id K (s_cur s) nm = Some k \<longrightarrow> 0 \<le> k \<longrightarrow> (\<exists>e \<in> set (s_list s'). n_kernel_id e = k))"
proof -
  have "lowest_pids K (s_cur s) [] (s_list s)" using assms(4) by (simp add: lowest_pids_def)
  from add_proc_lowest [OF assms(1) _ assms(3) this] assms(2,5)
  have "lowest_pids K (s_cur s) names (s_list s')" by (simp add: netns_add_proc_list_def)
  then show ?thesis unfolding lowest_pids_def pids_of_def by fastforce
qed

theorem proc_list_lowest_pid_witness:
  "\<exists>e \<in> set example_list. n_pid e = 7 \<and> n_pid e \<le> pid_of ''9''"
proof -
  let ?s = "\<lparr>s_list = [netns0\<lparr>n_kernel_id := 10, n_fd := 3\<rparr>, netns0\<lparr>n_kernel_id := 20, n_fd := 4, n_name := Some ''blue''\<rparr>],
        s_cur = 20, s_mem = []\<rparr>"
  have o: "\<And>path. 0 \<le> k_open example_kernel path" and d: "k_readdir example_kernel ''/proc'' = Some [''5'', ''9'', ''self'', ''7'']"
    by (simp_all add: example_kernel_def)
  have c: "collected ?s" "\<forall>e \<in> set (s_list ?s). n_pid e = 0"
    by (simp_all add: collected_def netns0_def)
  let ?e = "example_list ! 2"
  have e: "?e \<in> set example_list" "n_pid ?e = 7" "n_kernel_id ?e = 30"
    by (simp_all add: example_list_def netns0_def)
  have nine: "is_pid ''9''" "proc_id example_kernel 20 ''9'' = Some 30"
    by (simp_all add: is_pid_def is_digit_def proc_id_def PATH_MAX_def fit_def)
  from proc_list_lowest_pid [OF o d c example_proc] e nine have "n_pid ?e \<le> pid_of ''9''"
    by (metis list.set_intros(1,2) nsstate.select_convs(1,2) zero_neq_numeral)
  with e show ?thesis by blast
qed

end
