(* ===== verification/Fill.thy ===== *)
theory Fill
  imports Netns OvsLinks Mount
begin

text \<open>
  \<open>netns_fill_list\<close> of \<open>netns.c\<close>, the program's main work: read every collected name space
  from inside, ask for the identifiers the name spaces have for each other, resolve the
  relations between interfaces, and call the handlers' final phases.
\<close>

section \<open>Identifiers of name spaces for each other\<close>

definition RTM_GETNSID :: nat where "RTM_GETNSID = 90"
definition NETNSA_NSID :: nat where "NETNSA_NSID = 1"
definition NETNSA_FD :: nat where "NETNSA_FD = 3"

text \<open>The result is -1 on any failure; an exchange that succeeds without a message is followed by a NULL dereference.\<close>

definition netns_get_id :: "nl_handle \<Rightarrow> netns_entry \<Rightarrow> nlenv \<Rightarrow> (int \<times> nl_handle \<times> nlenv) option" where
  "netns_get_id hnd entry nle = do {
     (req, m) \<leftarrow> rtnlmsg_new RTM_GETNSID 0 0 1 (e_mem nle);
     let nle = nle\<lparr>e_mem := m\<rparr>;
     case req of
       None \<Rightarrow> Some (-1, hnd, nle)
     | Some req \<Rightarrow> do {
         (err, req, m) \<leftarrow> nla_put_u32 req NETNSA_FD (word_of_int (n_fd entry)) (e_mem nle);
         let nle = nle\<lparr>e_mem := m\<rparr>;
         if err \<noteq> 0 then Some (-1, hnd, nle)
         else do {
           (err, resp, hnd, nle) \<leftarrow> nl_exchange hnd req nle;
           if err \<noteq> 0 then Some (-1, hnd, nle)
           else case resp of
             [] \<Rightarrow> None
           | r # _ \<Rightarrow>
              (case nlmsg_get r 1 of
                 (None, _) \<Rightarrow> Some (-1, hnd, nle)
               | (Some _, r) \<Rightarrow>
                   Some (case find (\<lambda>a. a_type a = NETNSA_NSID) (for_each_nla r) of
                      None \<Rightarrow> -1 | Some a \<Rightarrow> nla_read_s32 a, hnd, nle)) } } }"

fun get_ids :: "world \<Rightarrow> nl_handle \<Rightarrow> nsp list \<Rightarrow> netns_id list \<Rightarrow> nlenv \<Rightarrow> (netns_id list \<times> mem) option" where
  "get_ids w hnd [] ids nle = Some (ids, e_mem nle)"
| "get_ids w hnd (n # ns) ids nle =
     (case netns_get_id hnd (w_ns w n) nle of
        None \<Rightarrow> None
      | Some (i, hnd, nle) \<Rightarrow>
          if i < 0 then get_ids w hnd ns ids nle
          else let (ok, m) = alloc (e_mem nle) in
            if \<not> ok then Some (ids, m)
            else get_ids w hnd ns (ids @ [\<lparr>id_ns = n, id_id = i\<rparr>]) (nle\<lparr>e_mem := m\<rparr>))"

definition netns_get_all_ids :: "kernel \<Rightarrow> nsp \<Rightarrow> int \<Rightarrow> world \<Rightarrow> (int \<times> world) option" where
  "netns_get_all_ids K current cur w =
     (let (err, cur) = netns_switch K (w_ns w current) cur; sk = k_ids K cur; (err', hnd) = nl_open (sk_open sk) (sk_pid sk) in
      if err \<noteq> 0 then Some (cur, w)
      else if err' < 0 then Some (cur, w)
      else do {
        (ids, m) \<leftarrow> get_ids w hnd (w_list w) (n_ids (w_ns w current)) (sock_env sk w);
        Some (cur, upd_ns current (\<lambda>s. s\<lparr>n_ids := ids\<rparr>) (w\<lparr>w_mem := m\<rparr>)) })"

fun all_ids :: "kernel \<Rightarrow> nsp list \<Rightarrow> int \<Rightarrow> world \<Rightarrow> (int \<times> world) option" where
  "all_ids K [] cur w = Some (cur, w)"
| "all_ids K (n # ns) cur w = (case netns_get_all_ids K n cur w of None \<Rightarrow> None | Some (cur, w) \<Rightarrow> all_ids K ns cur w)"

section \<open>Everything together\<close>

text \<open>What the handlers and the netlink dumps see in each name space the process may be in.\<close>

record 'j surroundings =
  su_json :: "'j json_reader"
  su_teamd :: "string \<Rightarrow> teamd"
  su_env :: "int \<Rightarrow> env"
  su_links :: "int \<Rightarrow> sock"
  su_routes :: "int \<Rightarrow> sock"

definition su_handlers :: "'j surroundings \<Rightarrow> int \<Rightarrow> if_handler list" where
  "su_handlers S cur = register_handlers (su_json S) (su_teamd S) (su_env S cur)"

definition read_netns :: "'j surroundings \<Rightarrow> int \<Rightarrow> nsp \<Rightarrow> wact" where
  "read_netns S cur n =
     andthen (if_list (su_handlers S cur) (su_env S cur) (su_links S cur) n)
       (netns_handler_scan (register_netns_handlers (su_env S cur) (\<lambda>_. su_routes S cur)) n)"

text \<open>
  The first loop of \<open>netns_fill_list\<close>; the process does not switch for an entry without a name.
  \<open>mt\<close> is what is mounted.
\<close>

fun scan_all :: "kernel \<Rightarrow> 'j surroundings \<Rightarrow> nsp list \<Rightarrow> int \<Rightarrow> mount_state \<Rightarrow> world \<Rightarrow> (int \<times> int \<times> mount_state \<times> world) option" where
  "scan_all K S [] cur mt w = Some (0, cur, mt, w)"
| "scan_all K S (n # ns) cur mt w =
     (let entry = w_ns w n;
          (err, cur) = (if n_name entry \<noteq> None then netns_switch K entry cur else (0, cur)) in
      if err \<noteq> 0 then Some (err, cur, mt, w)
      else let (err, mt) = sysfs_mount (k_umount K) (k_mount K cur (n_name entry)) mt in
        if err \<noteq> 0 then Some (err, cur, mt, w)
        else case read_netns S cur n w of
            None \<Rightarrow> None
          | Some (err, w) \<Rightarrow>
              if err \<noteq> 0 then Some (err, cur, mt, w) else scan_all K S ns cur (sysfs_umount (k_umount K) mt) w)"

definition world_of :: "netns_entry list \<Rightarrow> mem \<Rightarrow> ovs_state \<Rightarrow> world" where
  "world_of l m os = \<lparr>w_if = (\<lambda>_. if_entry0), w_ns = (\<lambda>n. if n < length l then l ! n else netns0), w_list = [0..<length l],
     w_next = 0, w_mem = m, w_ovs = os\<rparr>"

definition resolve_all :: "'j surroundings \<Rightarrow> global_handler list \<Rightarrow> int \<Rightarrow> wact" where
  "resolve_all S ghs cur =
     ignoring match_all_netnsid
    (andthen master_resolve
    (andthen (global_handler_post ghs)
             (if_handler_post (su_handlers S cur))))"

definition netns_fill_list ::
    "kernel \<Rightarrow> 'j surroundings \<Rightarrow> global_handler list \<Rightarrow> bool \<Rightarrow> ovs_state \<Rightarrow> nsstate \<Rightarrow> mount_state \<Rightarrow>
      (int \<times> mount_state \<times> world) option" where
  "netns_fill_list K S ghs supported os s mt = do {
     (err, s) \<leftarrow> netns_collect K supported s;
     let w = world_of (s_list s) (s_mem s) os;
     if err \<noteq> 0 then Some (err, mt, w)
     else let (err, mt) = sysfs_init (k_mkdtemp K) mt in
       if err \<noteq> 0 then Some (err, mt, w)
       else do {
         (err, cur, mt, w) \<leftarrow> scan_all K S (w_list w) (s_cur s) mt w;
         if err \<noteq> 0 then Some (err, mt, w)
         else do {
           (cur, w) \<leftarrow> all_ids K (w_list w) cur w;
           (err, w) \<leftarrow> resolve_all S ghs cur w;
           Some (err, mt, w) } } }"

section \<open>Two names for one name space\<close>

text \<open>
  C34: A second name for a name space that is already listed leaves the process inside it: the
  entry is dropped as a duplicate before the process switches back, and as an entry without
  name is read without switching, the interfaces recorded for the root name space are then
  those of the other one.
\<close>

theorem duplicate_name_misplaces_root:
  assumes "0 \<le> k_open K (fit PATH_MAX (NETNS_RUN_DIR @ ''/'' @ name))"
    and "k_setns K (k_open K (fit PATH_MAX (NETNS_RUN_DIR @ ''/'' @ name))) = Inr c"
    and "netns_get_kernel_id K c ''/proc/self/ns/net'' = Some k" and "k \<in> n_kernel_id ` set (s_list s)" and "0 \<le> k"
    and "s_mem s = []" and "name \<noteq> ''.''" and "name \<noteq> ''..''" and "k_mount K c None = 0"
    and "n_name (w_ns w root) = None"
  shows "\<exists>s'. add_var_names K [name] s = Some (0, s') \<and> s_list s' = s_list s \<and> s_cur s' = c \<and>
    scan_all K S (root # ns) (s_cur s') mt w =
      (let mt = snd (sysfs_mount (k_umount K) 0 mt) in
       case read_netns S c root w of
         None \<Rightarrow> None
       | Some (err, w) \<Rightarrow> if err \<noteq> 0 then Some (err, c, mt, w) else scan_all K S ns c (sysfs_umount (k_umount K) mt) w)"
proof -
  from assms(4) have "netns_check_duplicate (s_list s) k \<noteq> None" by (simp add: no_duplicate)
  with assms have v: "add_var_names K [name] s = Some (0, s\<lparr>s_mem := [], s_cur := c\<rparr>)"
    by (auto simp: netns_get_var_entry_def netns_create_def Let_def netns_switch_def)
  define t where "t = s\<lparr>s_mem := [], s_cur := c\<rparr>"
  have t: "s_list t = s_list s" "s_cur t = c" by (simp_all add: t_def)
  show ?thesis
    by (rule exI [of _ t]) (use v t assms(9,10) in \<open>simp add: t_def [symmetric] sysfs_mount_def Let_def\<close>)
qed

theorem duplicate_name_misplaces_root_witness:
  "\<exists>s'. add_var_names example_kernel [''azure''] \<lparr>s_list = example_list, s_cur = 10, s_mem = []\<rparr> = Some (0, s') \<and> s_cur s' = 20"
proof -
  have "0 \<le> k_open example_kernel (fit PATH_MAX (NETNS_RUN_DIR @ ''/'' @ ''azure''))"
    "k_setns example_kernel (k_open example_kernel (fit PATH_MAX (NETNS_RUN_DIR @ ''/'' @ ''azure''))) = Inr 20"
    "k_mount example_kernel 20 None = 0"
    by (simp_all add: example_kernel_def NETNS_RUN_DIR_def PATH_MAX_def fit_def)
  moreover have "n_name (w_ns (world_of example_list [] ovs_state0) 0) = None" "20 \<in> n_kernel_id ` set example_list"
    by (simp_all add: world_of_def example_list_def netns0_def)
  ultimately show ?thesis
    using duplicate_name_misplaces_root [of example_kernel "''azure''" 20 20 "\<lparr>s_list = example_list, s_cur = 10, s_mem = []\<rparr>"
      "world_of example_list [] ovs_state0" 0 "undefined :: unit surroundings" "[]" at_start]
    by (auto simp del: add_var_names.simps scan_all.simps)
qed

section \<open>The result of filling the list\<close>

lemma keeps_netns_scan: "on_links P \<Longrightarrow> keeps P (netns_handler_scan (register_netns_handlers env sks) n)"
  unfolding netns_handler_scan_def register_netns_handlers_def netns_handler_register_def h_route_def handler_callback_def
  by (intro keeps_each) (auto intro: keeps_route_scan)

lemma on_links_homed: "on_links homed"
  unfolding on_links_def by (auto simp: homed_def same_links_def)

lemma if_list_elsewhere:
  assumes "if_list (register_handlers J teamds env) env sk n w = Some (0, w')" and "m \<noteq> n"
  shows "n_ifaces (w_ns w' m) = n_ifaces (w_ns w m)"
  using if_list_read [OF _ assms(1)] if_list_dumped [OF assms(1)] assms(2) by (auto simp: read_so_far_def)

lemma on_links_unrelated: "on_links (unrelated ns)"
  using blind_unrelated ident_only_links blind_ident by blast

lemma read_netns_result:
  assumes "read_netns S cur n w = Some (0, w')" and "unrelated ns w \<and> placed w \<and> homed w" and "n \<in> set ns"
  shows "unrelated ns w' \<and> placed w' \<and> homed w'"
proof -
  from assms(1) obtain v where v: "if_list (su_handlers S cur) (su_env S cur) (su_links S cur) n w = Some (0, v)"
    "netns_handler_scan (register_netns_handlers (su_env S cur) (\<lambda>_. su_routes S cur)) n v = Some (0, w')"
    by (auto simp: read_netns_def andthen_0)
  have u: "unrelated ns v"
    by (rule keepsD [OF keeps_if_list _ v(1)]) (use assms(2) in \<open>auto simp: su_handlers_def intro: reads_all on_links_unrelated\<close>)
  moreover have "placed v"
    using if_list_placed [OF v(1) [unfolded su_handlers_def]] assms(2) by blast
  moreover have "homed v"
    unfolding homed_def
  proof (intro conjI allI impI)
    have l: "w_list v = ns" "w_list w = ns" using u assms(2) by (simp_all add: unrelated_def)
    have h: "ns \<noteq> []" "distinct ns" "\<And>k. k \<notin> set ns \<Longrightarrow> n_ifaces (w_ns w k) = []"
      using assms(2) unfolding homed_def l by blast+
    show "w_list v \<noteq> []" "distinct (w_list v)" using h by (simp_all add: l)
    fix k assume "k \<notin> set (w_list v)"
    then have k: "k \<notin> set ns" by (simp add: l)
    with assms(3) have "k \<noteq> n" by blast
    from if_list_elsewhere [OF v(1) [unfolded su_handlers_def] this] h(3) [OF k] show "n_ifaces (w_ns v k) = []" by simp
  qed
  ultimately show ?thesis
    using keepsD [OF keeps_netns_scan [OF on_links_unrelated] _ v(2)] keepsD [OF keeps_netns_scan [OF on_links_placed] _ v(2)]
      keepsD [OF keeps_netns_scan [OF on_links_homed] _ v(2)]
    by blast
qed

lemma scan_all_result:
  "scan_all K S ns cur mt w = Some (0, cur', mt', w') \<Longrightarrow> unrelated l w \<and> placed w \<and> homed w \<Longrightarrow> set ns \<subseteq> set l \<Longrightarrow>
    unrelated l w' \<and> placed w' \<and> homed w'"
proof (induction ns arbitrary: cur mt w)
  case (Cons n ns)
  from Cons.prems(1) obtain c mt1 v where v: "read_netns S c n w = Some (0, v)" "scan_all K S ns c mt1 v = Some (0, cur', mt', w')"
    by (auto simp: Let_def split: prod.splits option.splits if_splits)
  from read_netns_result [OF v(1) Cons.prems(2)] Cons.prems(3) have "unrelated l v \<and> placed v \<and> homed v" by simp
  from Cons.IH [OF v(2) this] Cons.prems(3) show ?case by simp
qed simp

lemma all_ids_keeps:
  assumes P: "on_links P"
  shows "all_ids K ns cur w = Some (cur', w') \<Longrightarrow> P w \<Longrightarrow> P w'"
proof (induction ns arbitrary: cur w)
  case (Cons n ns)
  from Cons.prems(1) obtain c v where v: "netns_get_all_ids K n cur w = Some (c, v)" "all_ids K ns c v = Some (cur', w')"
    by (auto split: option.splits)
  have "P (upd_ns n (\<lambda>s. s\<lparr>n_ids := ids\<rparr>) (w\<lparr>w_mem := m\<rparr>))" for ids m
    by (rule on_links_upd_ns [OF P _ on_links_mem [OF P Cons.prems(2)]]) simp
  with v(1) Cons.prems(2) have "P v"
    by (auto simp: netns_get_all_ids_def Let_def split: bind_splits prod.splits if_splits)
  with Cons.IH v(2) show ?case by blast
qed simp

lemma unrelated_sound:
  assumes "unrelated ns w" and "placed w" and "homed w"
  shows "sound w"
proof -
  have "relations_ok w" using assms(1)
    by (simp add: unrelated_def if_relations_def relations_ok_def masters_ok_def links_ok_def peers_ok_def)
  then show ?thesis using assms by (simp add: sound_def within_def unrelated_def if_relations_def)
qed

lemma keeps_sound_resolving: "keeps (sound_with E) match_all_netnsid" "keeps (sound_with E) master_resolve"
  by (intro keeps_sound placing.match_all_keeps bounded.match_all_keeps steady.match_all_keeps)
    (intro keeps_sound placing.master_resolve_keeps bounded.master_resolve_keeps steady.master_resolve_keeps)

lemma resolve_all_result:
  assumes w: "sound w" and r: "resolve_all S ghs cur w = Some (err, w')"
    and ghs: "\<And>h g. h \<in> set ghs \<Longrightarrow> gh_post h = Some g \<Longrightarrow> keeps (sound_with {}) g"
  shows "within (set (all_ifs w')) w' \<and> placed w'"
proof -
  let ?P = "\<lambda>w. within (set (all_ifs w)) w \<and> placed w"
  have g: "keeps (sound_with {}) (global_handler_post ghs)"
    unfolding global_handler_post_def by (intro keeps_each) (auto split: option.splits intro: ghs keeps_return_err)
  have p: "keeps ?P (if_handler_post (su_handlers S cur))"
    unfolding su_handlers_def
  proof (rule keepsI)
    fix w err v
    assume w: "?P w" and r: "if_handler_post (register_handlers (su_json S) (su_teamd S) (su_env S cur)) w = Some (err, v)"
    from keepsD [OF bounded.phases.post_phase_keeps _ r] w have "within (set (all_ifs w)) v" by blast
    moreover from this have "set (all_ifs w) = set (all_ifs v)" by (simp add: within_def)
    moreover from keepsD [OF placing.phases.post_phase_keeps _ r] w have "placed v" by blast
    ultimately show "?P v" by simp
  qed
  have weaker: "?P v" if "sound_with {} v" for v using that by (simp add: sound_empty sound_def)
  from r obtain e1 v1 where v1: "match_all_netnsid w = Some (e1, v1)"
    and r1: "andthen master_resolve (andthen (global_handler_post ghs) (if_handler_post (su_handlers S cur))) v1 = Some (err, w')"
    by (auto simp: resolve_all_def ignoring_def split: option.splits)
  have s1: "sound_with {} v1" using keepsD [OF keeps_sound_resolving(1) _ v1, of "{}"] w by (simp add: sound_empty)
  from r1 obtain e2 v2 where v2: "master_resolve v1 = Some (e2, v2)"
    and r2: "e2 \<noteq> 0 \<and> w' = v2 \<or> andthen (global_handler_post ghs) (if_handler_post (su_handlers S cur)) v2 = Some (err, w')"
    by (auto simp: andthen_def [of master_resolve] split: option.splits if_splits)
  have s2: "sound_with {} v2" by (rule keepsD [OF keeps_sound_resolving(2) s1 v2])
  show ?thesis
  proof (cases "e2 \<noteq> 0 \<and> w' = v2")
    case False
    with r2 obtain e3 v3 where v3: "global_handler_post ghs v2 = Some (e3, v3)"
      and r3: "w' = v3 \<or> if_handler_post (su_handlers S cur) v3 = Some (err, w')"
      by (auto simp: andthen_def split: option.splits if_splits)
    have "?P v3" by (rule weaker [OF keepsD [OF g s2 v3]])
    with r3 keepsD [OF p] show ?thesis by blast
  qed (use weaker s2 in blast)
qed

lemma ovs_keeps: "h \<in> set (register_global_handlers V) \<Longrightarrow> gh_post h = Some g \<Longrightarrow> keeps (sound_with {}) g"
  by (auto simp: register_global_handlers_def global_handler_register_def gh_ovs_def keeps_ovs_post)

text \<open>Without an error, and at the point where the collected name spaces have been read.\<close>

lemma netns_fill_scanned:
  assumes r: "netns_fill_list K S ghs supported os s mt = Some (0, mt', w)" and os: "ovs_unlinked os"
  shows "\<exists>v cur. sound v \<and> resolve_all S ghs cur v = Some (0, w)"
proof -
  from r obtain s1 mt1 c1 w1 c2 w2 where
    c: "netns_collect K supported s = Some (0, s1)"
    and a: "scan_all K S (w_list (world_of (s_list s1) (s_mem s1) os)) (s_cur s1) mt1 (world_of (s_list s1) (s_mem s1) os) = Some (0, c1, mt', w1)"
    and i: "all_ids K (w_list w1) c1 w1 = Some (c2, w2)" and v: "resolve_all S ghs c2 w2 = Some (0, w)"
    by (auto simp: netns_fill_list_def Let_def split: bind_splits if_splits prod.splits)
  let ?w = "world_of (s_list s1) (s_mem s1) os"
  from collect_result [OF c] have "\<forall>e \<in> set (s_list s1). n_ifaces e = []" by (auto simp: collected_def)
  then have e: "n_ifaces (w_ns ?w n) = []" for n by (simp add: world_of_def netns0_def)
  have "unrelated (w_list ?w) ?w" using os by (simp add: unrelated_def world_of_def if_relations_def if_entry0_def)
  moreover have "homed ?w" using e collect_result [OF c] by (auto simp: homed_def) (auto simp: world_of_def collected_def)
  ultimately have "unrelated (w_list ?w) ?w \<and> placed ?w \<and> homed ?w" using e by (simp add: placed_def)
  from scan_all_result [OF a this] have u: "unrelated (w_list ?w) w1" "placed w1" "homed w1" by auto
  have "sound w2"
    using all_ids_keeps [OF on_links_unrelated i u(1)] all_ids_keeps [OF on_links_placed i u(2)] all_ids_keeps [OF on_links_homed i u(3)]
    by (rule unrelated_sound)
  with v show ?thesis by blast
qed

text \<open>
  What the program hands to its front ends: reverse lists and peers agree with the relations,
  whatever is related is listed, and every listed interface is listed once, in the name space
  it says it is in, and has a driver or is internal to Open vSwitch.
\<close>

definition well_formed :: "world \<Rightarrow> bool" where
  "well_formed w \<longleftrightarrow> masters_ok w \<and> links_ok w \<and> peers_ok w \<and> relations_listed w \<and>
     w_list w \<noteq> [] \<and> distinct (w_list w) \<and> distinct (all_ifs w) \<and>
     (\<forall>n \<in> set (w_list w). \<forall>e \<in> set (n_ifaces (w_ns w n)). i_ns (w_if w e) = n \<and>
        (i_driver (w_if w e) \<noteq> None \<or> i_internal_ns (w_if w e) \<noteq> None))"

lemma distinct_concat_map:
  assumes "\<And>n. distinct (f n)" and "\<And>m n. m \<noteq> n \<Longrightarrow> set (f m) \<inter> set (f n) = {}"
  shows "distinct ns \<Longrightarrow> distinct (concat (map f ns))"
proof (induction ns)
  case (Cons n ns)
  have "set (f n) \<inter> set (concat (map f ns)) = {}"
    using Cons.prems assms(2) [of n] by fastforce
  then show ?case using Cons assms(1) [of n] by simp
qed simp

lemma placed_distinct:
  assumes "placed w"
  shows "distinct ns \<Longrightarrow> distinct (concat (map (\<lambda>n. n_ifaces (w_ns w n)) ns))"
proof (rule distinct_concat_map)
  show "distinct (n_ifaces (w_ns w n))" for n using assms unfolding placed_def by blast
  have "i_ns (w_if w e) = k" if "e \<in> set (n_ifaces (w_ns w k))" for e k
    using assms that by (simp add: placed_def)
  then show "set (n_ifaces (w_ns w m)) \<inter> set (n_ifaces (w_ns w n)) = {}" if "m \<noteq> n" for m n
    using that by (metis disjoint_iff)
qed

text \<open>
  It is well formed when filling the list succeeds, whatever name spaces, interfaces and drivers
  there are and whatever Open vSwitch's database says.
\<close>

lemma netns_fill_list_well_formed:
  assumes "netns_fill_list K S (register_global_handlers V) supported os s mt = Some (0, mt', w)" and "ovs_unlinked os"
  shows "well_formed w"
proof -
  from netns_fill_scanned [OF assms] obtain v cur where "sound v" "resolve_all S (register_global_handlers V) cur v = Some (0, w)" by blast
  from resolve_all_result [OF this] ovs_keeps have w: "within (set (all_ifs w)) w" "placed w" by blast+
  have h: "relations_ok w" "w_list w \<noteq> []" "distinct (w_list w)" using w(1) by (auto simp: within_def homed_def)
  then have "distinct (all_ifs w)" using placed_distinct [OF w(2)] by (simp add: all_ifs_def)
  with h within_relations_listed [OF w(1)] w(2) show ?thesis
    unfolding well_formed_def relations_ok_def placed_def by blast
qed

section \<open>What is left mounted\<close>

lemma scan_all_mounted:
  "scan_all K S ns cur mt w = Some (err, cur', mt', w') \<Longrightarrow> mounted_upto 0 (k_umount K) mt \<Longrightarrow> mp_atexit mt \<Longrightarrow>
    mounted_upto (if err = 0 then 0 else 1) (k_umount K) mt'"
proof (induction ns arbitrary: cur mt w)
  case (Cons n ns)
  define sw where "sw = (if n_name (w_ns w n) \<noteq> None then netns_switch K (w_ns w n) cur else (0, cur))"
  obtain e1 c where sc: "sw = (e1, c)" by (cases sw)
  obtain e2 mt1 where m: "sysfs_mount (k_umount K) (k_mount K c (n_name (w_ns w n))) mt = (e2, mt1)" by fastforce
  from mount_mounted [OF mounted_more [OF Cons.prems(2)] Cons.prems(3) m]
  have mt1: "mounted_upto 1 (k_umount K) mt1" "mp_atexit mt1" by simp_all
  have u: "mounted_upto 0 (k_umount K) (sysfs_umount (k_umount K) mt1)" "mp_atexit (sysfs_umount (k_umount K) mt1)"
    using umount_mounted [OF mt1(1)] mt1(2) by (simp_all add: sysfs_umount_def)
  from Cons.prems(1) sc m consider "err \<noteq> 0" "mt' = mt" | "err \<noteq> 0" "mt' = mt1"
    | v where "scan_all K S ns c (sysfs_umount (k_umount K) mt1) v = Some (err, cur', mt', w')"
    unfolding scan_all.simps Let_def sw_def [symmetric] by (auto split: if_splits option.splits)
  then show ?case
  proof cases
    case 1
    with mounted_more [OF Cons.prems(2)] show ?thesis by simp
  next
    case 2
    with mt1 show ?thesis by simp
  next
    case 3
    from Cons.IH [OF 3 u] show ?thesis .
  qed
qed simp

lemma netns_fill_mounted:
  assumes r: "netns_fill_list K S ghs supported os s mt = Some (err, mt', w)" and m: "mounted_upto 0 (k_umount K) mt"
  shows "mounted_upto (if err = 0 then 0 else 1) (k_umount K) mt'"
proof -
  obtain e0 mt0 where i: "sysfs_init (k_mkdtemp K) mt = (e0, mt0)" by fastforce
  note m0 = init_mounted [OF m i]
  from r i consider "mt' = mt" | "mt' = mt0" "e0 \<noteq> 0"
    | ns cur w0 e1 c1 w1 where "e0 = 0" "scan_all K S ns cur mt0 w0 = Some (e1, c1, mt', w1)" "e1 = err \<or> e1 = 0"
    by (auto simp: netns_fill_list_def Let_def split: bind_splits if_splits prod.splits)
  then show ?thesis
  proof cases
    case 1
    with mounted_more [OF m] show ?thesis by simp
  next
    case 2
    with m0 mounted_more show ?thesis by auto
  next
    case 3
    from scan_all_mounted [OF 3(2)] m0 3(1) have "mounted_upto (if e1 = 0 then 0 else 1) (k_umount K) mt'" by simp
    with 3(3) mounted_more show ?thesis by (auto split: if_splits)
  qed
qed

text \<open>A kernel without name space support: only the root name space, with the loopback interface.\<close>

definition lone_kernel :: kernel where
  "lone_kernel = example_kernel\<lparr>k_open := (\<lambda>_. - ENOENT), k_setns := (\<lambda>_. Inl 38)\<rparr>"

definition lone_surroundings :: "'j json_reader \<Rightarrow> 'j surroundings" where
  "lone_surroundings J = \<lparr>su_json = J, su_teamd = (\<lambda>_. no_teamd),
     su_env = (\<lambda>_. quiet_env), su_links = (\<lambda>_. lo_sock), su_routes = (\<lambda>_. route_sock)\<rparr>"

text \<open>No Open vSwitch: the connection is refused.\<close>

definition no_ovs :: "json ovs_env" where
  "no_ovs = example_ovs\<lparr>oe_connect := (\<lambda>_. 111)\<rparr>"

lemma no_ovs_post: "w_mem w = [] \<Longrightarrow> ovs_global_post no_ovs w = Some (0, w)"
  by (simp add: ovs_global_post_def no_ovs_def example_ovs_def query_built ovs_talk_def connect_ovs_def Let_def ENOMEM_def)

lemma idle_resolved:
  assumes i: "idle (w_if w 0)" and l: "w_list w = [0]" "n_ifaces (w_ns w 0) = [0]" and m: "w_mem w = []"
  shows "resolve_all (lone_surroundings J) (register_global_handlers no_ovs) cur w = Some (0, w)"
proof -
  let ?hs = "su_handlers (lone_surroundings J) cur"
  have post: "each_act (\<lambda>h. if_handler_callback h (h_post h) 0) ?hs w = Some (0, w)"
    using i by (simp add: idle_def su_handlers_def handlers_list handler_defs if_handler_callback_def branch_def
        driver_match_def handler_callback_def return_err_def andthen_def ok_act_def iov_post_def reading_def)
  show ?thesis using i
    by (simp add: resolve_all_def ignoring_def match_all_netnsid_def reading_def l netnsid_links_def andthen_def idle_def
        ok_act_def master_resolve_def process_def branch_def return_err_def global_handler_post_def if_handler_post_def post
        register_global_handlers_def global_handler_register_def gh_ovs_def no_ovs_post [OF m])
qed

text \<open>The first call of \<open>umount2\<close> fails, nothing is mounted then; the second one undoes the mount.\<close>

definition lone_mounts :: mount_state where
  "lone_mounts = \<lparr>mp_dir = True, mp_mounts = 0, mp_atexit = True, mp_umounts = 1\<rparr>"

lemma lone_fill:
  "\<exists>w. netns_fill_list lone_kernel (lone_surroundings J) (register_global_handlers no_ovs) False ovs_state0 start_state at_start =
       Some (0, lone_mounts, w) \<and>
     n_ifaces (w_ns w 0) = [0] \<and> w_list w = [0] \<and> idle (w_if w 0) \<and> w_ovs w = ovs_state0 \<and> w_mem w = [] \<and> n_pid (w_ns w 0) = 0"
proof -
  let ?S = "lone_surroundings J"
  let ?w = "world_of [netns0] [] ovs_state0"
  have K: "k_mount lone_kernel c n = 0" "k_mkdtemp lone_kernel = 0" "k_setns lone_kernel fd = Inl 38"
    "k_umount lone_kernel = (\<lambda>_. 0)" for c n fd
    by (simp_all add: lone_kernel_def example_kernel_def)
  define mt where "mt = \<lparr>mp_dir = True, mp_mounts = 0, mp_atexit = True, mp_umounts = 0\<rparr>"
  have mt: "sysfs_init 0 at_start = (0, mt)" by (simp add: sysfs_init_def at_start_def mt_def)
  have c: "netns_collect lone_kernel False start_state = Some (0, start_state\<lparr>s_list := [netns0]\<rparr>)"
    by (simp add: netns_collect_def andthen_def netns_new_list_def netns_create_def start_state_def ok_act_def)
  have "w_mem ?w = []" "w_next ?w = 0" by (simp_all add: world_of_def)
  from lo_read [OF this] obtain v where v: "if_list (su_handlers ?S 10) quiet_env lo_sock 0 ?w = Some (0, v)"
    "n_ifaces (w_ns v 0) = [0]" "idle (w_if v 0)" "w_mem v = []" "w_list v = [0]" "w_ovs v = ovs_state0" "n_pid (w_ns v 0) = 0"
    by (auto simp: su_handlers_def lone_surroundings_def world_of_def netns0_def)
  from route_scan_example [OF v(4)] obtain t where
    rt: "route_scan quiet_env (\<lambda>_. route_sock) 0 v = Some (0, upd_ns 0 (\<lambda>s. s\<lparr>n_rtables := t\<rparr>) (v\<lparr>w_mem := []\<rparr>))" by blast
  define u where "u = upd_ns 0 (\<lambda>s. s\<lparr>n_rtables := t\<rparr>) (v\<lparr>w_mem := []\<rparr>)"
  have u: "n_ifaces (w_ns u 0) = [0]" "idle (w_if u 0)" "w_list u = [0]" "w_mem u = []" "w_ovs u = ovs_state0" "n_pid (w_ns u 0) = 0"
    by (simp_all add: u_def v)
  have "read_netns ?S 10 0 ?w = Some (0, u)"
    using v(1) rt
    by (simp add: read_netns_def andthen_def lone_surroundings_def su_handlers_def netns_handler_scan_def
        register_netns_handlers_def netns_handler_register_def h_route_def handler_callback_def ok_act_def u_def)
  moreover have "n_name (w_ns ?w 0) = None" "w_list ?w = [0]" by (simp_all add: world_of_def netns0_def)
  ultimately have s: "scan_all lone_kernel ?S (w_list ?w) 10 mt ?w = Some (0, 10, lone_mounts, u)"
    by (simp add: K sysfs_mount_def sysfs_umount_def mt_def lone_mounts_def)
  have i: "all_ids lone_kernel [0] 10 u = Some (10, u)"
    by (simp add: netns_get_all_ids_def netns_switch_def K Let_def split: prod.splits)
  show ?thesis
    using idle_resolved [OF u(2,3,1,4), of J 10] u
    by (simp add: netns_fill_list_def c Let_def K mt s i u(3)) (simp add: start_state_def s i u K mt del: all_ids.simps)
qed

end
