(* ===== verification/Cable.thy ===== *)
theory Cable
  imports OvsLinks
begin

text \<open>
  An example for the front ends: two name spaces whose interfaces are joined by a cable, with
  its identifiers and its consistent relations.
\<close>

text \<open>Two ends of a cable: interface 0 of the root name space and 2 of \<open>blue\<close>, each under a bridge.\<close>

definition cable_world :: world where
  "cable_world =
     \<lparr>w_if = (\<lambda>e. if_entry0\<lparr>i_ns := e div 2, i_name := (if e mod 2 = 0 then ''eth0'' else ''br0''),
         i_master := (if e = 0 then Some 1 else if e = 2 then Some 3 else None),
         i_rev_master := (if e = 1 then [0] else if e = 3 then [2] else []),
         i_peer := (if e = 0 then Some 2 else if e = 2 then Some 0 else None)\<rparr>),
      w_ns = (\<lambda>n. \<lparr>n_ifaces = [2 * n, 2 * n + 1], n_warnings = [], n_kernel_id = int n,
                   n_name = (if n = 0 then None else Some ''blue''), n_pid = 0, n_fd = 3, n_ids = [], n_rtables = []\<rparr>),
      w_list = [0, 1], w_next = 4, w_mem = [], w_ovs = ovs_state0\<rparr>"

lemma cable_ifs: "all_ifs cable_world = [0, 1, 2, 3]"
  by (simp add: all_ifs_def cable_world_def)

lemma cable_nameable: "nameable cable_world e"
  by (simp add: nameable_def cable_world_def if_entry0_def plain_name_def)

lemma cable_ids: "map (ifid cable_world) [0, 1, 2, 3] = [''//eth0'', ''//br0'', ''blue//eth0'', ''blue//br0'']"
  by (simp add: ifid_text [OF cable_nameable]) (simp add: ns_part_def ins_part_def cable_world_def if_entry0_def)

lemma cable_relations: "masters_ok cable_world" "links_ok cable_world" "peers_ok cable_world"
  by (auto simp: masters_ok_def links_ok_def peers_ok_def cable_world_def if_entry0_def)

lemma cable_listed: "relations_listed cable_world"
  unfolding relations_listed_def cable_ifs by (auto simp: cable_world_def if_entry0_def)

end
