(* ===== verification/Dot.thy ===== *)
theory Dot
  imports Cable
begin

text \<open>
  The dot front end (\<open>frontends/dot.c\<close>): the text written for the list of name spaces, its
  nodes in the first pass, its edges in the second.  A \<open>printf\<close> of a string that is NULL or
  freed has no defined behaviour, so the text is an option.  \<open>adr\<close> gives the addresses of
  the structures, which the code compares to draw a peer once.
\<close>

section \<open>Putting text together\<close>

definition nl :: char where "nl = CHR 0x0A"
definition dq :: char where "dq = CHR 0x22"

text \<open>The line break of dot labels, a backslash and an n.\<close>

definition label_nl :: string where
  "label_nl = [CHR 0x5C, CHR ''n'']"

fun cat :: "string option list \<Rightarrow> string option" where
  "cat [] = Some []"
| "cat (p # ps) = do { s \<leftarrow> p; t \<leftarrow> cat ps; Some (s @ t) }"

definition quoted :: "string \<Rightarrow> string" where
  "quoted s = dq # s @ [dq]"

text \<open>\<open>%s\<close> of a string that is printed only when it is there.\<close>

definition if_there :: "string \<Rightarrow> string cptr \<Rightarrow> string option" where
  "if_there before p = (case p of NullPtr \<Rightarrow> Some [] | BadPtr \<Rightarrow> None | Ptr s \<Rightarrow> Some (before @ s))"

section \<open>Labels\<close>

definition output_label :: "string list \<Rightarrow> string" where
  "output_label labels = concat (map (\<lambda>t. label_nl @ t) labels)"

definition output_label_properties :: "label_property list \<Rightarrow> int \<Rightarrow> string" where
  "output_label_properties properties prop_mask =
     concat (map (\<lambda>p. if label_prop_match_mask (lp_type p) prop_mask
                      then label_nl @ lp_key p @ '': '' @ lp_value p else []) properties)"

definition output_addresses :: "if_addr list \<Rightarrow> string option" where
  "output_addresses addresses =
     cat (map (\<lambda>a. cat [Some label_nl, deref (ad_formatted (ia_addr a)), if_there '' peer '' (ad_formatted (ia_peer a))]) addresses)"

definition output_mtu :: "if_entry \<Rightarrow> string" where
  "output_mtu i =
     (if i_mtu i \<noteq> 0 \<and> i_mtu i \<noteq> 1500 \<and> i_flags i AND IF_LOOPBACK = 0 then label_nl @ ''MTU '' @ dec_int (i_mtu i) else [])"

definition output_xdp :: "if_xdp list \<Rightarrow> string" where
  "output_xdp xdp_list =
     concat (map (\<lambda>x. label_nl @ ''xdp-'' @ xdp_mode x @ '' (id '' @ dec (unat (xdp_prog_id x)) @ '')'') xdp_list)"

section \<open>Nodes\<close>

definition node_style :: "u32 \<Rightarrow> string" where
  "node_style flags =
     (if flags AND IF_INTERNAL \<noteq> 0 then '',style=dotted''
      else if flags AND IF_UP = 0 then '',style=filled,fillcolor='' @ quoted ''grey''
      else if flags AND IF_HAS_LINK = 0 then '',style=filled,fillcolor='' @ quoted ''pink''
      else '',style=filled,fillcolor='' @ quoted ''darkolivegreen1'')"

definition node_label :: "world \<Rightarrow> int \<Rightarrow> ifp \<Rightarrow> string option" where
  "node_label w prop_mask e =
     (let i = w_if w e in
      cat [Some (i_name i),
           Some (if i_driver i \<noteq> None then '' ('' @ ifdrv w e @ '')'' else []),
           Some (output_label_properties (i_properties i) prop_mask),
           Some (output_mtu i),
           Some (output_xdp (i_xdp i)),
           if label_prop_match_mask IF_PROP_CONFIG prop_mask
           then cat [output_addresses (i_addr i),
                     if i_flags i AND IF_LOOPBACK = 0 then if_there (label_nl @ ''mac '') (mac_formatted (i_mac_addr i)) else Some []]
           else Some []])"

definition node_line :: "world \<Rightarrow> int \<Rightarrow> ifp \<Rightarrow> string option" where
  "node_line w prop_mask e =
     (let i = w_if w e in
      cat [Some (quoted (ifid w e) @ '' [label='' @ [dq]), node_label w prop_mask e, Some [dq],
           Some (if label_prop_match_mask IF_PROP_STATE prop_mask then node_style (i_flags i) else []),
           Some (if i_warnings i \<noteq> 0 then '',color='' @ quoted ''red'' else []),
           Some '']'', Some [nl]])"

text \<open>The first pass: the nodes, and whether some interface's link is in the root name space.\<close>

definition output_ifaces_pass1 :: "world \<Rightarrow> ifp list \<Rightarrow> int \<Rightarrow> (bool \<times> string) option" where
  "output_ifaces_pass1 w ifs prop_mask = do {
     t \<leftarrow> cat (map (node_line w prop_mask) ifs);
     Some (list_ex (\<lambda>e. case i_link_net (w_if w e) of None \<Rightarrow> False | Some n \<Rightarrow> n_name (w_ns w n) = None) ifs, t) }"

section \<open>Edges\<close>

definition edge_line :: "string \<Rightarrow> string \<Rightarrow> string \<Rightarrow> string" where
  "edge_line a b attrs = quoted a @ '' -> '' @ quoted b @ attrs @ [nl]"

definition edge_label_attr :: "string option \<Rightarrow> string" where
  "edge_label_attr l = (case l of None \<Rightarrow> [] | Some s \<Rightarrow> '',label='' @ quoted s)"

definition master_edge :: "world \<Rightarrow> ifp \<Rightarrow> string" where
  "master_edge w e =
     (let i = w_if w e in
      case i_master i of None \<Rightarrow> []
      | Some m \<Rightarrow> edge_line (ifid w e) (ifid w m)
          ('' [style='' @ (if i_flags i AND IF_PASSIVE_SLAVE \<noteq> 0 then ''dashed'' else ''solid'') @
           (if i_link i = None then edge_label_attr (i_edge_label i) else []) @ '']''))"

definition physfn_edge :: "world \<Rightarrow> ifp \<Rightarrow> string" where
  "physfn_edge w e =
     (case i_physfn (w_if w e) of None \<Rightarrow> []
      | Some p \<Rightarrow> edge_line (ifid w e) (ifid w p) ('' [style=dotted,taillabel='' @ quoted ''PF'' @ '']''))"

definition link_edge :: "world \<Rightarrow> ifp \<Rightarrow> string" where
  "link_edge w e =
     (let i = w_if w e in
      case i_link i of
        Some l \<Rightarrow> edge_line (ifid w l) (ifid w e)
          ('' [style='' @ (if i_flags i AND IF_LINK_WEAK \<noteq> 0 then ''dashed'' else ''solid'') @ edge_label_attr (i_edge_label i) @ '']'')
      | None \<Rightarrow>
          (case i_link_net i of None \<Rightarrow> []
           | Some n \<Rightarrow>
               if n_name (w_ns w n) \<noteq> None
               then edge_line (ifid w e) (nsid w n @ ''/lo'')
                      ('' [lhead='' @ quoted (''cluster/'' @ nsid w n) @ '', style='' @ quoted ''dashed'' @ '']'')
               else edge_line (ifid w e) ''cluster//'' ('' [style='' @ quoted ''dashed'' @ '']'')))"

definition draws_peer :: "(ifp \<Rightarrow> nat) \<Rightarrow> world \<Rightarrow> ifp \<Rightarrow> bool" where
  "draws_peer adr w e = (case i_peer (w_if w e) of None \<Rightarrow> False | Some p \<Rightarrow> adr p < adr e)"

definition peer_edge :: "(ifp \<Rightarrow> nat) \<Rightarrow> world \<Rightarrow> ifp \<Rightarrow> string" where
  "peer_edge adr w e =
     (case i_peer (w_if w e) of None \<Rightarrow> []
      | Some p \<Rightarrow> if adr p < adr e then edge_line (ifid w e) (ifid w p) '' [dir=none]'' else [])"

definition output_ifaces_pass2 :: "(ifp \<Rightarrow> nat) \<Rightarrow> world \<Rightarrow> ifp list \<Rightarrow> string" where
  "output_ifaces_pass2 adr w ifs =
     concat (map (\<lambda>e. master_edge w e @ physfn_edge w e @ link_edge w e @ peer_edge adr w e) ifs)"

section \<open>The whole graph\<close>

definition output_warnings :: "world \<Rightarrow> string" where
  "output_warnings w =
     (let ls = concat (map (\<lambda>n. output_label (n_warnings (w_ns w n))) (w_list w)) in
      if list_ex (\<lambda>n. n_warnings (w_ns w n) \<noteq> []) (w_list w)
      then ''label='' @ [dq] @ ls @ [dq, nl] @ ''fontcolor='' @ quoted ''red'' @ [nl] else [])"

text \<open>A named name space is a cluster around its interfaces.\<close>

definition output_netns :: "world \<Rightarrow> int \<Rightarrow> nsp \<Rightarrow> (bool \<times> string) option" where
  "output_netns w prop_mask n = do {
     (needed, t) \<leftarrow> output_ifaces_pass1 w (n_ifaces (w_ns w n)) prop_mask;
     Some (needed,
       (case n_name (w_ns w n) of None \<Rightarrow> t
        | Some name \<Rightarrow> ''subgraph '' @ quoted (''cluster/'' @ nsid w n) @ '' {'' @ [nl] @
            ''label='' @ quoted name @ [nl] @ ''fontcolor='' @ quoted ''black'' @ [nl] @ t @ ''}'' @ [nl])) }"

fun output_all_netns :: "world \<Rightarrow> int \<Rightarrow> nsp list \<Rightarrow> (bool \<times> string) option" where
  "output_all_netns w prop_mask [] = Some (False, [])"
| "output_all_netns w prop_mask (n # ns) = do {
     (needed, t) \<leftarrow> output_netns w prop_mask n;
     (needed', t') \<leftarrow> output_all_netns w prop_mask ns;
     Some (needed \<or> needed', t @ t') }"

text \<open>\<open>date\<close> is the text of \<open>ctime\<close>, \<open>version\<close> that of the build.\<close>

definition dot_output :: "(ifp \<Rightarrow> nat) \<Rightarrow> string \<Rightarrow> string \<Rightarrow> world \<Rightarrow> int \<Rightarrow> string option" where
  "dot_output adr version date w prop_mask = do {
     (need_init_net, t) \<leftarrow> output_all_netns w prop_mask (w_list w);
     Some (''// generated by plotnetcfg '' @ version @ '' on '' @ date @
       ''digraph {'' @ [nl] @ ''compound=true;'' @ [nl] @ ''node [shape=box]'' @ [nl] @ t @
       (if need_init_net then quoted ''cluster//'' @ ''[label='' @ quoted ''root netns'' @ '',penwidth=0];'' @ [nl] else []) @
       concat (map (\<lambda>n. output_ifaces_pass2 adr w (n_ifaces (w_ns w n))) (w_list w)) @
       output_warnings w @ ''}'' @ [nl]) }"

section \<open>Reading the text back\<close>

text \<open>
  What a reader of the text sees line by line: a line that starts with a quoted name is an edge
  when an arrow and another quoted name follow (undirected or not), and a node when a label follows.
\<close>

function text_lines :: "string \<Rightarrow> string list" where
  "text_lines [] = []"
| "text_lines (c # s) = takeWhile (\<lambda>c. c \<noteq> nl) (c # s) # text_lines (drop (Suc (length (takeWhile (\<lambda>c. c \<noteq> nl) (c # s)))) (c # s))"
  by pat_completeness auto
termination by (relation "measure length") auto

declare text_lines.simps(2) [simp del]

definition unquote :: "string \<Rightarrow> (string \<times> string) option" where
  "unquote s = (case s of [] \<Rightarrow> None
     | c # r \<Rightarrow> if c = dq then Some (takeWhile (\<lambda>c. c \<noteq> dq) r, drop (Suc (length (takeWhile (\<lambda>c. c \<noteq> dq) r))) r) else None)"

definition edge_of :: "string \<Rightarrow> (string \<times> string \<times> bool) option" where
  "edge_of s = do {
     (a, r) \<leftarrow> unquote s;
     if take 4 r = '' -> '' then do { (b, attrs) \<leftarrow> unquote (drop 4 r); Some (a, b, attrs = '' [dir=none]'') } else None }"

definition node_of :: "string \<Rightarrow> string option" where
  "node_of s = do { (a, r) \<leftarrow> unquote s; if take 8 r = '' [label='' then Some a else None }"

definition dot_edges :: "string \<Rightarrow> (string \<times> string \<times> bool) list" where
  "dot_edges s = List.map_filter edge_of (text_lines s)"

definition dot_nodes :: "string \<Rightarrow> string list" where
  "dot_nodes s = List.map_filter node_of (text_lines s)"

definition clean :: "string \<Rightarrow> bool" where
  "clean s \<longleftrightarrow> nl \<notin> set s"

definition plain_id :: "string \<Rightarrow> bool" where
  "plain_id s \<longleftrightarrow> nl \<notin> set s \<and> dq \<notin> set s"

lemma text_lines_line:
  assumes c: "clean l"
  shows "text_lines (l @ nl # s) = l # text_lines s"
proof -
  have t: "takeWhile (\<lambda>c. c \<noteq> nl) (l @ nl # s) = l"
    by (subst takeWhile_append2) (use c in \<open>auto simp: clean_def\<close>)
  show ?thesis
  proof (cases l)
    case Nil
    then show ?thesis by (simp add: text_lines.simps(2))
  next
    case (Cons c l')
    have "text_lines (l @ nl # s) = takeWhile (\<lambda>c. c \<noteq> nl) (l @ nl # s) #
        text_lines (drop (Suc (length (takeWhile (\<lambda>c. c \<noteq> nl) (l @ nl # s)))) (l @ nl # s))"
      using text_lines.simps(2) [of c "l' @ nl # s"] by (simp only: Cons append_Cons)
    then show ?thesis unfolding t by (simp del: text_lines.simps)
  qed
qed

text \<open>\<open>reads f t xs\<close>: \<open>t\<close> is complete lines, of which \<open>f\<close> recognises \<open>xs\<close>.\<close>

definition reads :: "(string \<Rightarrow> 'a option) \<Rightarrow> string \<Rightarrow> 'a list \<Rightarrow> bool" where
  "reads f t xs \<longleftrightarrow> (\<forall>s. List.map_filter f (text_lines (t @ s)) = xs @ List.map_filter f (text_lines s))"

named_theorems reads_intros

lemma reads_Nil [reads_intros]: "reads f [] []"
  by (simp add: reads_def)

lemma reads_append: "reads f t xs \<Longrightarrow> reads f u ys \<Longrightarrow> reads f (t @ u) (xs @ ys)"
  by (simp add: reads_def)

lemma reads_line: "clean l \<Longrightarrow> reads f (l @ [nl]) (case f l of None \<Rightarrow> [] | Some x \<Rightarrow> [x])"
  by (auto simp: reads_def text_lines_line map_filter_simps split: option.splits)

lemma reads_other: "clean l \<Longrightarrow> f l = None \<Longrightarrow> reads f u ys \<Longrightarrow> reads f (l @ nl # u) ys"
  using reads_append [OF reads_line [of l f], of u ys] by simp

lemma reads_concat: "(\<And>x. x \<in> set xs \<Longrightarrow> reads f (g x) (h x)) \<Longrightarrow> reads f (concat (map g xs)) (concat (map h xs))"
  by (induction xs) (auto intro: reads_Nil reads_append)

lemma reads_whole:
  assumes "reads f t xs"
  shows "List.map_filter f (text_lines t) = xs"
proof -
  from assms have "List.map_filter f (text_lines (t @ [])) = xs @ List.map_filter f (text_lines [])"
    unfolding reads_def by (rule spec)
  then show ?thesis by (simp add: map_filter_simps)
qed

section \<open>Texts without line breaks\<close>

lemma clean_simps [simp]:
  "clean []" "clean (s @ t) \<longleftrightarrow> clean s \<and> clean t" "clean (c # s) \<longleftrightarrow> c \<noteq> nl \<and> clean s"
  by (auto simp: clean_def)

lemma char_neq [simp]: "dq \<noteq> nl" "nl \<noteq> dq"
  by (simp_all add: dq_def nl_def)

lemma plain_id_clean: "plain_id s \<Longrightarrow> clean s"
  by (simp add: plain_id_def clean_def)

lemma clean_quoted [simp]: "clean (quoted s) \<longleftrightarrow> clean s"
  by (simp add: quoted_def)

lemma clean_label_nl [simp]: "clean label_nl"
  by (simp add: label_nl_def nl_def)

lemma clean_concat: "(\<And>x. x \<in> set xs \<Longrightarrow> clean (f x)) \<Longrightarrow> clean (concat (map f xs))"
  by (induction xs) auto

lemma clean_dec [simp]: "clean (dec n)"
proof -
  have "\<not> is_digit nl" by (simp add: is_digit_def nl_def)
  then show ?thesis using radix10_digits [of n] by (auto simp: clean_def dec_def list_all_iff)
qed

lemma clean_dec_int [simp]: "clean (dec_int i)"
  by (simp add: dec_int_def nl_def)

lemma clean_fit: "clean s \<Longrightarrow> clean (fit n s)"
  unfolding clean_def fit_def by (auto dest: in_set_takeD)

text \<open>What the texts of the model must be for every line to stay one line, and every identifier one name.\<close>

definition shown :: "string cptr \<Rightarrow> bool" where
  "shown p \<longleftrightarrow> (case p of Ptr s \<Rightarrow> clean s | _ \<Rightarrow> False)"

definition shown_if_there :: "string cptr \<Rightarrow> bool" where
  "shown_if_there p \<longleftrightarrow> p = NullPtr \<or> shown p"

definition if_text_ok :: "if_entry \<Rightarrow> bool" where
  "if_text_ok i \<longleftrightarrow> plain_id (i_name i) \<and> pred_option plain_id (i_internal_ns i) \<and>
     pred_option clean (i_driver i) \<and> pred_option clean (i_sub_driver i) \<and> pred_option clean (i_edge_label i) \<and>
     list_all (\<lambda>p. clean (lp_key p) \<and> clean (lp_value p)) (i_properties i) \<and> list_all (\<lambda>x. clean (xdp_mode x)) (i_xdp i) \<and>
     list_all (\<lambda>a. shown (ad_formatted (ia_addr a)) \<and> shown_if_there (ad_formatted (ia_peer a))) (i_addr i) \<and>
     shown_if_there (mac_formatted (i_mac_addr i))"

definition ns_text_ok :: "netns_entry \<Rightarrow> bool" where
  "ns_text_ok s \<longleftrightarrow> pred_option plain_id (n_name s) \<and> list_all clean (n_warnings s)"

definition text_ok :: "world \<Rightarrow> bool" where
  "text_ok w \<longleftrightarrow> (\<forall>e. if_text_ok (w_if w e)) \<and> (\<forall>n. ns_text_ok (w_ns w n))"

lemma plain_fit: "plain_id s \<Longrightarrow> plain_id (fit n s)"
  unfolding plain_id_def fit_def by (auto dest: in_set_takeD)

lemma plain_append [simp]: "plain_id (s @ t) \<longleftrightarrow> plain_id s \<and> plain_id t"
  by (auto simp: plain_id_def)

lemma plain_slash [simp]: "plain_id ''/''" "plain_id []" "plain_id (CHR ''/'' # s) \<longleftrightarrow> plain_id s"
  by (simp_all add: plain_id_def nl_def dq_def)

lemma plain_nsid:
  assumes "text_ok w"
  shows "plain_id (nsid w n)"
proof -
  from assms have "pred_option plain_id (n_name (w_ns w n))" by (simp add: text_ok_def ns_text_ok_def)
  then show ?thesis by (auto simp: nsid_def intro: plain_fit split: option.splits)
qed

lemma plain_ifid:
  assumes "text_ok w"
  shows "plain_id (ifid w e)"
proof -
  from assms have "plain_id (i_name (w_if w e))" "pred_option plain_id (i_internal_ns (w_if w e))"
    by (simp_all add: text_ok_def if_text_ok_def)
  with plain_nsid [OF assms] show ?thesis by (auto simp: ifid_def Let_def intro!: plain_fit split: option.splits)
qed

lemma clean_ifid [simp]: "text_ok w \<Longrightarrow> clean (ifid w e)"
  and clean_nsid [simp]: "text_ok w \<Longrightarrow> clean (nsid w n)"
  by (simp_all add: plain_id_clean plain_ifid plain_nsid)

section \<open>The lines of the graph\<close>

lemma unquote_quoted: "plain_id a \<Longrightarrow> unquote (quoted a @ r) = Some (a, r)"
proof -
  assume "plain_id a"
  then have "takeWhile (\<lambda>c. c \<noteq> dq) (a @ dq # r) = a" by (subst takeWhile_append2) (auto simp: plain_id_def)
  then show ?thesis by (simp add: unquote_def quoted_def)
qed

lemma unquote_other: "c \<noteq> dq \<Longrightarrow> unquote (c # r) = None"
  by (simp add: unquote_def)

lemma edge_of_edge:
  "plain_id a \<Longrightarrow> plain_id b \<Longrightarrow> edge_of (quoted a @ '' -> '' @ quoted b @ attrs) = Some (a, b, attrs = '' [dir=none]'')"
  by (simp add: edge_of_def unquote_quoted)

lemma node_of_edge: "plain_id a \<Longrightarrow> node_of (quoted a @ '' -> '' @ r) = None"
  by (simp add: node_of_def unquote_quoted)

lemma edge_of_node: "plain_id a \<Longrightarrow> edge_of (quoted a @ '' [label='' @ r) = None"
  and node_of_node: "plain_id a \<Longrightarrow> node_of (quoted a @ '' [label='' @ r) = Some a"
  by (simp_all add: edge_of_def node_of_def unquote_quoted)

lemma other_line: "c \<noteq> dq \<Longrightarrow> edge_of (c # r) = None" "c \<noteq> dq \<Longrightarrow> node_of (c # r) = None"
  by (simp_all add: edge_of_def node_of_def unquote_other)

lemma cat_clean:
  assumes "\<And>p. p \<in> set ps \<Longrightarrow> \<exists>t. p = Some t \<and> clean t"
  shows "\<exists>t. cat ps = Some t \<and> clean t"
  using assms by (induction ps) fastforce+

lemma cat_3 [simp]: "cat [Some a, p, Some c] = map_option (\<lambda>b. a @ b @ c) p"
  by (cases p) simp_all

lemma shown_text: "shown p \<Longrightarrow> \<exists>t. deref p = Some t \<and> clean t"
  by (cases p) (auto simp: shown_def)

lemma there_text: "shown_if_there p \<Longrightarrow> clean s \<Longrightarrow> \<exists>t. if_there s p = Some t \<and> clean t"
  by (cases p) (auto simp: shown_if_there_def shown_def if_there_def)

lemma addresses_clean:
  assumes "list_all (\<lambda>a. shown (ad_formatted (ia_addr a)) \<and> shown_if_there (ad_formatted (ia_peer a))) as"
  shows "\<exists>t. output_addresses as = Some t \<and> clean t"
  unfolding output_addresses_def
proof (rule cat_clean)
  fix p assume "p \<in> set (map (\<lambda>a. cat [Some label_nl, deref (ad_formatted (ia_addr a)), if_there '' peer '' (ad_formatted (ia_peer a))]) as)"
  then obtain a where a: "a \<in> set as" "p = cat [Some label_nl, deref (ad_formatted (ia_addr a)), if_there '' peer '' (ad_formatted (ia_peer a))]"
    by auto
  with assms have "shown (ad_formatted (ia_addr a))" "shown_if_there (ad_formatted (ia_peer a))" by (auto simp: list_all_iff)
  with shown_text there_text [of "ad_formatted (ia_peer a)" "'' peer ''"] obtain s t where
    "deref (ad_formatted (ia_addr a)) = Some s" "clean s" "if_there '' peer '' (ad_formatted (ia_peer a)) = Some t" "clean t"
    by (force simp: nl_def)
  with a(2) show "\<exists>t. p = Some t \<and> clean t" by simp
qed

lemma properties_clean:
  "list_all (\<lambda>p. clean (lp_key p) \<and> clean (lp_value p)) ps \<Longrightarrow> clean (output_label_properties ps msk)"
  unfolding output_label_properties_def by (rule clean_concat) (auto simp: list_all_iff nl_def)

lemma xdp_clean: "list_all (\<lambda>x. clean (xdp_mode x)) xs \<Longrightarrow> clean (output_xdp xs)"
  unfolding output_xdp_def by (rule clean_concat) (auto simp: list_all_iff nl_def)

lemma label_clean: "list_all clean ls \<Longrightarrow> clean (output_label ls)"
  unfolding output_label_def by (rule clean_concat) (auto simp: list_all_iff)

lemma node_label_clean:
  assumes "text_ok w"
  shows "\<exists>t. node_label w msk e = Some t \<and> clean t"
proof -
  from assms have i: "if_text_ok (w_if w e)" by (simp add: text_ok_def)
  from i obtain a where a: "output_addresses (i_addr (w_if w e)) = Some a" "clean a"
    using addresses_clean by (auto simp: if_text_ok_def)
  have m: "\<exists>t. if_there (label_nl @ ''mac '') (mac_formatted (i_mac_addr (w_if w e))) = Some t \<and> clean t"
    by (rule there_text) (use i in \<open>simp_all add: if_text_ok_def nl_def\<close>)
  have d: "clean (ifdrv w e)" using i by (auto simp: if_text_ok_def ifdrv_def nl_def intro!: clean_fit split: option.splits)
  show ?thesis
    unfolding node_label_def Let_def
    by (rule cat_clean) (use i a m d in \<open>auto simp: if_text_ok_def plain_id_clean properties_clean xdp_clean output_mtu_def nl_def\<close>)
qed

text \<open>The relations an interface is drawn with: from, to, and whether without direction.\<close>

definition graph_edges :: "(ifp \<Rightarrow> nat) \<Rightarrow> world \<Rightarrow> ifp \<Rightarrow> (string \<times> string \<times> bool) list" where
  "graph_edges adr w e =
     (let i = w_if w e in
      (case i_master i of None \<Rightarrow> [] | Some m \<Rightarrow> [(ifid w e, ifid w m, False)]) @
      (case i_physfn i of None \<Rightarrow> [] | Some p \<Rightarrow> [(ifid w e, ifid w p, False)]) @
      (case i_link i of
         Some l \<Rightarrow> [(ifid w l, ifid w e, False)]
       | None \<Rightarrow> (case i_link_net i of None \<Rightarrow> []
           | Some n \<Rightarrow> [(ifid w e, if n_name (w_ns w n) = None then ''cluster//'' else nsid w n @ ''/lo'', False)])) @
      (if draws_peer adr w e then [(ifid w e, ifid w (the (i_peer i)), True)] else []))"

lemma node_line_reads:
  assumes w: "text_ok w"
  shows "\<exists>t. node_line w msk e = Some t \<and> reads edge_of t [] \<and> reads node_of t [ifid w e]"
proof -
  obtain t where t: "node_label w msk e = Some t" "clean t" using node_label_clean [OF w] by blast
  define r where "r = dq # t @ dq # (if label_prop_match_mask IF_PROP_STATE msk then node_style (i_flags (w_if w e)) else []) @
     (if i_warnings (w_if w e) \<noteq> 0 then '',color='' @ quoted ''red'' else []) @ '']''"
  have l: "node_line w msk e = Some ((quoted (ifid w e) @ '' [label='' @ r) @ [nl])"
    by (simp add: node_line_def t r_def Let_def)
  have "clean r" using t(2) by (simp add: r_def node_style_def nl_def quoted_def dq_def)
  then have c: "clean (quoted (ifid w e) @ '' [label='' @ r)" using w by (simp add: nl_def)
  note p = plain_ifid [OF w, of e]
  show ?thesis
    using reads_line [OF c, of edge_of] reads_line [OF c, of node_of] l by (simp add: edge_of_node [OF p, simplified] node_of_node [OF p, simplified])
qed

lemma reads_edge:
  assumes "plain_id a" and "plain_id b" and "clean attrs"
  shows "reads edge_of (edge_line a b attrs) [(a, b, attrs = '' [dir=none]'')]" and "reads node_of (edge_line a b attrs) []"
proof -
  have c: "clean (quoted a @ '' -> '' @ quoted b @ attrs)" using assms by (simp add: plain_id_clean nl_def)
  show "reads edge_of (edge_line a b attrs) [(a, b, attrs = '' [dir=none]'')]"
    using reads_line [OF c, of edge_of] by (simp add: edge_line_def edge_of_edge [OF assms(1,2), simplified])
  show "reads node_of (edge_line a b attrs) []"
    using reads_line [OF c, of node_of] by (simp add: edge_line_def node_of_edge [OF assms(1), simplified])
qed

lemma clean_edge_label: "text_ok w \<Longrightarrow> clean (edge_label_attr (i_edge_label (w_if w e)))"
  by (auto simp: text_ok_def if_text_ok_def edge_label_attr_def nl_def option.pred_set split: option.splits)

lemma plain_cluster: "plain_id ''cluster//''"
  by (simp add: plain_id_def nl_def dq_def)

lemma reads_directed:
  assumes "plain_id a" and "plain_id b" and "clean attrs" and "attrs \<noteq> '' [dir=none]''"
  shows "reads edge_of (edge_line a b attrs) [(a, b, False)]"
  using reads_edge(1) [OF assms(1-3)] assms(4) by simp

lemma reads_relations:
  assumes w: "text_ok w"
  shows "reads edge_of (master_edge w e @ physfn_edge w e @ link_edge w e @ peer_edge adr w e) (graph_edges adr w e)"
    and "reads node_of (master_edge w e @ physfn_edge w e @ link_edge w e @ peer_edge adr w e) []"
proof -
  let ?i = "w_if w e"
  note ok = plain_ifid [OF w] plain_nsid [OF w] plain_cluster clean_edge_label [OF w]
  have m: "reads edge_of (master_edge w e) (case i_master ?i of None \<Rightarrow> [] | Some m \<Rightarrow> [(ifid w e, ifid w m, False)])"
    "reads node_of (master_edge w e) []"
    using ok by (auto simp: master_edge_def Let_def nl_def intro!: reads_Nil reads_directed reads_edge(2) split: option.splits)
  have p: "reads edge_of (physfn_edge w e) (case i_physfn ?i of None \<Rightarrow> [] | Some p \<Rightarrow> [(ifid w e, ifid w p, False)])"
    "reads node_of (physfn_edge w e) []"
    using ok by (auto simp: physfn_edge_def Let_def nl_def intro!: reads_Nil reads_directed reads_edge(2) split: option.splits)
  have l: "reads edge_of (link_edge w e) (case i_link ?i of
         Some l \<Rightarrow> [(ifid w l, ifid w e, False)]
       | None \<Rightarrow> (case i_link_net ?i of None \<Rightarrow> []
           | Some n \<Rightarrow> [(ifid w e, if n_name (w_ns w n) = None then ''cluster//'' else nsid w n @ ''/lo'', False)]))"
    "reads node_of (link_edge w e) []"
    using ok w by (auto simp: link_edge_def Let_def nl_def plain_id_def dq_def quoted_def
        intro!: reads_Nil reads_directed reads_edge(2) split: option.splits)
  have q: "reads edge_of (peer_edge adr w e) (if draws_peer adr w e then [(ifid w e, ifid w (the (i_peer ?i)), True)] else [])"
    "reads node_of (peer_edge adr w e) []"
    using ok reads_edge(1) [of "ifid w e" "ifid w (the (i_peer ?i))" "'' [dir=none]''"]
    by (auto simp: peer_edge_def draws_peer_def nl_def intro!: reads_Nil reads_edge(2) split: option.splits)
  show "reads edge_of (master_edge w e @ physfn_edge w e @ link_edge w e @ peer_edge adr w e) (graph_edges adr w e)"
    unfolding graph_edges_def Let_def by (intro reads_append m p l q)
  show "reads node_of (master_edge w e @ physfn_edge w e @ link_edge w e @ peer_edge adr w e) []"
    using reads_append [OF m(2) reads_append [OF p(2) reads_append [OF l(2) q(2)]]] by simp
qed

section \<open>The whole graph read back\<close>

text \<open>Lines of the frame: neither nodes nor edges.\<close>

definition framing :: "string \<Rightarrow> bool" where
  "framing t \<longleftrightarrow> reads edge_of t [] \<and> reads node_of t []"

lemma framing_Nil: "framing []"
  by (simp add: framing_def reads_Nil)

lemma framing_append: "framing t \<Longrightarrow> framing u \<Longrightarrow> framing (t @ u)"
  using reads_append [of edge_of t "[]" u "[]"] reads_append [of node_of t "[]" u "[]"] by (simp add: framing_def)

lemma framing_line: "clean l \<Longrightarrow> l \<noteq> [] \<Longrightarrow> hd l \<noteq> dq \<Longrightarrow> framing (l @ [nl])"
  using reads_line [of l edge_of] reads_line [of l node_of] by (cases l) (simp_all add: framing_def other_line)

lemma reads_framed: "framing t \<Longrightarrow> reads edge_of u xs \<Longrightarrow> reads edge_of (t @ u) xs"
  "framing t \<Longrightarrow> reads node_of u ys \<Longrightarrow> reads node_of (t @ u) ys"
  "framing t \<Longrightarrow> reads edge_of u xs \<Longrightarrow> reads edge_of (u @ t) xs"
  "framing t \<Longrightarrow> reads node_of u ys \<Longrightarrow> reads node_of (u @ t) ys"
  using reads_append [of edge_of t "[]" u xs] reads_append [of node_of t "[]" u ys]
    reads_append [of edge_of u xs t "[]"] reads_append [of node_of u ys t "[]"] by (simp_all add: framing_def)

lemma pass1_reads:
  assumes w: "text_ok w"
  shows "\<exists>b t. output_ifaces_pass1 w ifs msk = Some (b, t) \<and> reads edge_of t [] \<and> reads node_of t (map (ifid w) ifs)"
proof -
  have "\<exists>t. cat (map (node_line w msk) ifs) = Some t \<and> reads edge_of t [] \<and> reads node_of t (map (ifid w) ifs)"
  proof (induction ifs)
    case (Cons e ifs)
    then obtain t where t: "cat (map (node_line w msk) ifs) = Some t" "reads edge_of t []" "reads node_of t (map (ifid w) ifs)" by blast
    from node_line_reads [OF w, of msk e] obtain l where l: "node_line w msk e = Some l" "reads edge_of l []" "reads node_of l [ifid w e]" by blast
    show ?case using t(1) l(1) reads_append [OF l(2) t(2)] reads_append [OF l(3) t(3)] by simp
  qed (simp add: reads_Nil)
  then show ?thesis by (auto simp: output_ifaces_pass1_def)
qed

lemma netns_reads:
  assumes w: "text_ok w"
  shows "\<exists>b t. output_netns w msk n = Some (b, t) \<and> reads edge_of t [] \<and> reads node_of t (map (ifid w) (n_ifaces (w_ns w n)))"
proof -
  from pass1_reads [OF w] obtain b t where
    t: "output_ifaces_pass1 w (n_ifaces (w_ns w n)) msk = Some (b, t)" "reads edge_of t []"
    "reads node_of t (map (ifid w) (n_ifaces (w_ns w n)))" by blast
  show ?thesis
  proof (cases "n_name (w_ns w n)")
    case None
    with t show ?thesis by (simp add: output_netns_def)
  next
    case (Some name)
    have "pred_option plain_id (n_name (w_ns w n))" using w by (simp add: text_ok_def ns_text_ok_def)
    with Some have name: "clean name" by (simp add: plain_id_clean)
    define h where "h = ((''subgraph '' @ quoted (''cluster/'' @ nsid w n) @ '' {'') @ [nl]) @
      ((''label='' @ quoted name) @ [nl]) @ (''fontcolor='' @ quoted ''black'') @ [nl]"
    define u where "u = ''}'' @ [nl]"
    have h: "framing h" unfolding h_def
      by (intro framing_append framing_line) (use w name in \<open>simp_all add: nl_def dq_def\<close>)
    have u: "framing u" unfolding u_def by (rule framing_line) (simp_all add: nl_def dq_def)
    show ?thesis
      using t Some reads_framed(1) [OF h reads_framed(3) [OF u t(2)]] reads_framed(2) [OF h reads_framed(4) [OF u t(3)]]
      by (simp add: output_netns_def h_def u_def)
  qed
qed

lemma all_netns_reads:
  assumes w: "text_ok w"
  shows "\<exists>b t. output_all_netns w msk ns = Some (b, t) \<and> reads edge_of t [] \<and>
    reads node_of t (map (ifid w) (concat (map (\<lambda>n. n_ifaces (w_ns w n)) ns)))"
proof (induction ns)
  case (Cons n ns)
  then obtain b t where t: "output_all_netns w msk ns = Some (b, t)" "reads edge_of t []"
    "reads node_of t (map (ifid w) (concat (map (\<lambda>n. n_ifaces (w_ns w n)) ns)))" by blast
  from netns_reads [OF w, of msk n] obtain c l where l: "output_netns w msk n = Some (c, l)" "reads edge_of l []"
    "reads node_of l (map (ifid w) (n_ifaces (w_ns w n)))" by blast
  show ?case using t(1) l(1) reads_append [OF l(2) t(2)] reads_append [OF l(3) t(3)] by simp
qed (auto simp: reads_Nil intro: exI [of _ False])

lemma concat_none: "concat (map (\<lambda>_. []) xs) = []"
  by (induction xs) simp_all

lemma concat_nested: "concat (map g (concat (map h ns))) = concat (map (\<lambda>n. concat (map g (h n))) ns)"
  by (induction ns) simp_all

lemma pass2_reads:
  assumes w: "text_ok w"
  shows "reads edge_of (output_ifaces_pass2 adr w ifs) (concat (map (graph_edges adr w) ifs))"
    and "reads node_of (output_ifaces_pass2 adr w ifs) []"
proof -
  show "reads edge_of (output_ifaces_pass2 adr w ifs) (concat (map (graph_edges adr w) ifs))"
    unfolding output_ifaces_pass2_def by (intro reads_concat reads_relations [OF w])
  have "reads node_of (output_ifaces_pass2 adr w ifs) (concat (map (\<lambda>_. []) ifs))"
    unfolding output_ifaces_pass2_def by (intro reads_concat reads_relations [OF w])
  then show "reads node_of (output_ifaces_pass2 adr w ifs) []" by (simp only: concat_none)
qed

lemma all_pass2_reads:
  assumes w: "text_ok w"
  shows "reads edge_of (concat (map (\<lambda>n. output_ifaces_pass2 adr w (n_ifaces (w_ns w n))) ns))
      (concat (map (graph_edges adr w) (concat (map (\<lambda>n. n_ifaces (w_ns w n)) ns))))"
    and "reads node_of (concat (map (\<lambda>n. output_ifaces_pass2 adr w (n_ifaces (w_ns w n))) ns)) []"
proof -
  have "reads edge_of (concat (map (\<lambda>n. output_ifaces_pass2 adr w (n_ifaces (w_ns w n))) ns))
      (concat (map (\<lambda>n. concat (map (graph_edges adr w) (n_ifaces (w_ns w n)))) ns))"
    by (intro reads_concat pass2_reads [OF w])
  then show "reads edge_of (concat (map (\<lambda>n. output_ifaces_pass2 adr w (n_ifaces (w_ns w n))) ns))
      (concat (map (graph_edges adr w) (concat (map (\<lambda>n. n_ifaces (w_ns w n)) ns))))"
    by (simp only: concat_nested)
  have "reads node_of (concat (map (\<lambda>n. output_ifaces_pass2 adr w (n_ifaces (w_ns w n))) ns)) (concat (map (\<lambda>_. []) ns))"
    by (intro reads_concat pass2_reads [OF w])
  then show "reads node_of (concat (map (\<lambda>n. output_ifaces_pass2 adr w (n_ifaces (w_ns w n))) ns)) []" by (simp only: concat_none)
qed

lemma warnings_framing:
  assumes w: "text_ok w"
  shows "framing (output_warnings w)"
proof -
  have "list_all clean (n_warnings (w_ns w n))" for n using w by (simp add: text_ok_def ns_text_ok_def)
  then have c: "clean (concat (map (\<lambda>n. output_label (n_warnings (w_ns w n))) (w_list w)))"
    by (intro clean_concat label_clean)
  have "framing (((''label='' @ [dq] @ concat (map (\<lambda>n. output_label (n_warnings (w_ns w n))) (w_list w)) @ [dq]) @ [nl]) @
      (''fontcolor='' @ quoted ''red'') @ [nl])"
    by (intro framing_append framing_line) (use c in \<open>simp_all add: nl_def dq_def\<close>)
  then show ?thesis by (simp add: output_warnings_def Let_def framing_Nil)
qed

lemma dot_output_reads:
  assumes w: "text_ok w" and v: "clean version" and d: "clean day"
  shows "\<exists>t. dot_output adr version (day @ [nl]) w msk = Some t \<and> dot_nodes t = map (ifid w) (all_ifs w) \<and>
    dot_edges t = concat (map (graph_edges adr w) (all_ifs w))"
proof -
  from all_netns_reads [OF w, of msk "w_list w"] obtain b t where
    t: "output_all_netns w msk (w_list w) = Some (b, t)" "reads edge_of t []" "reads node_of t (map (ifid w) (all_ifs w))"
    unfolding all_ifs_def by blast
  define h where "h = ((''// generated by plotnetcfg '' @ version @ '' on '' @ day) @ [nl]) @ (''digraph {'' @ [nl]) @
    (''compound=true;'' @ [nl]) @ ''node [shape=box]'' @ [nl]"
  define r where "r = (if b then quoted ''cluster//'' @ ''[label='' @ quoted ''root netns'' @ '',penwidth=0];'' @ [nl] else [])"
  define p where "p = concat (map (\<lambda>n. output_ifaces_pass2 adr w (n_ifaces (w_ns w n))) (w_list w))"
  define f where "f = output_warnings w @ ''}'' @ [nl]"
  have h: "framing h" unfolding h_def by (intro framing_append framing_line) (use v d in \<open>simp_all add: nl_def dq_def\<close>)
  have r: "framing r"
  proof -
    let ?l = "quoted ''cluster//'' @ ''[label='' @ quoted ''root netns'' @ '',penwidth=0];''"
    have "clean ?l" by (simp add: nl_def)
    from reads_line [OF this, of edge_of] reads_line [OF this, of node_of]
    have "framing (?l @ [nl])" by (simp add: framing_def edge_of_def node_of_def unquote_quoted [OF plain_cluster, simplified])
    then show ?thesis by (simp add: r_def framing_Nil)
  qed
  have f: "framing f" unfolding f_def
    by (intro framing_append framing_line warnings_framing [OF w]) (simp_all add: nl_def dq_def)
  have p: "reads edge_of p (concat (map (graph_edges adr w) (all_ifs w)))" "reads node_of p []"
    unfolding p_def all_ifs_def using all_pass2_reads [OF w] by blast+
  have dot: "dot_output adr version (day @ [nl]) w msk = Some (h @ t @ r @ p @ f)"
    by (simp add: dot_output_def t(1) h_def r_def p_def f_def)
  note e = reads_append [OF t(2) reads_framed(1) [OF r reads_framed(3) [OF f p(1)]]]
  note n = reads_append [OF t(3) reads_framed(2) [OF r reads_framed(4) [OF f p(2)]]]
  show ?thesis
    using dot reads_whole [OF reads_framed(1) [OF h e]] reads_whole [OF reads_framed(2) [OF h n]]
    by (simp add: dot_edges_def dot_nodes_def)
qed

section \<open>What the graph shows\<close>

text \<open>
  C8: The dot output can be read back: as long as no text has a line break and no name a quote,
  the output has a node for every interface of every name space, in their order, and its edges
  are exactly the master, physical function, link and peer relations of the interfaces and
  their links into name spaces.
\<close>

theorem dot_roundtrip:
  assumes "text_ok w" and "clean version" and "clean day"
  shows "\<exists>t. dot_output adr version (day @ [nl]) w msk = Some t \<and> dot_nodes t = map (ifid w) (all_ifs w) \<and>
    dot_edges t = concat (map (graph_edges adr w) (all_ifs w))"
  by (rule dot_output_reads [OF assms])

lemma cable_text: "text_ok cable_world"
  by (simp add: text_ok_def ns_text_ok_def if_text_ok_def cable_world_def if_entry0_def mac_addr_init_def
      shown_if_there_def plain_id_def nl_def dq_def)

theorem dot_roundtrip_witness:
  "\<exists>t. dot_output (\<lambda>e. e) ''v0.4.1'' (''Thu'' @ [nl]) cable_world 3 = Some t \<and>
    dot_edges t = [(''//eth0'', ''//br0'', False), (''blue//eth0'', ''blue//br0'', False), (''blue//eth0'', ''//eth0'', True)]"
proof -
  have "clean ''v0.4.1''" "clean ''Thu''" by (simp_all add: nl_def)
  from dot_roundtrip [OF cable_text this, of "\<lambda>e. e" 3] obtain t where
    t: "dot_output (\<lambda>e. e) ''v0.4.1'' (''Thu'' @ [nl]) cable_world 3 = Some t"
    "dot_edges t = concat (map (graph_edges (\<lambda>e. e) cable_world) [0, 1, 2, 3])" by (auto simp: cable_ifs)
  have "graph_edges (\<lambda>e. e) cable_world e =
      (if e = 0 then [(ifid cable_world 0, ifid cable_world 1, False)]
       else if e = 2 then [(ifid cable_world 2, ifid cable_world 3, False), (ifid cable_world 2, ifid cable_world 0, True)] else [])" for e
    by (simp add: graph_edges_def draws_peer_def cable_world_def if_entry0_def)
  with t cable_ids show ?thesis by simp
qed

text \<open>
  C9: The graph is closed: when relations only lead to listed interfaces, as they do in what the
  program reads, every edge of the dot output starts at a node of the output and ends at one,
  but for the edges that lead into another name space.
\<close>

theorem dot_closed:
  assumes "text_ok w" and "clean version" and "clean day" and "relations_listed w"
  shows "\<exists>t. dot_output adr version (day @ [nl]) w msk = Some t \<and>
    (\<forall>(a, b, undirected) \<in> set (dot_edges t). a \<in> set (dot_nodes t) \<and>
       (b \<in> set (dot_nodes t) \<or> (\<exists>e n. e \<in> set (all_ifs w) \<and> a = ifid w e \<and> i_link (w_if w e) = None \<and> i_link_net (w_if w e) = Some n)))"
proof -
  from dot_output_reads [OF assms(1-3), of adr msk] obtain t where
    t: "dot_output adr version (day @ [nl]) w msk = Some t" "dot_nodes t = map (ifid w) (all_ifs w)"
    "dot_edges t = concat (map (graph_edges adr w) (all_ifs w))" by blast
  have edge: "a \<in> ifid w ` set (all_ifs w) \<and> (b \<in> ifid w ` set (all_ifs w) \<or>
      (a = ifid w e \<and> i_link (w_if w e) = None \<and> (\<exists>n. i_link_net (w_if w e) = Some n)))"
    if e: "e \<in> set (all_ifs w)" and g: "(a, b, u) \<in> set (graph_edges adr w e)" for a b u e
    using g e assms(4) unfolding graph_edges_def draws_peer_def Let_def relations_listed_def
    by (fastforce split: option.splits if_splits)
  show ?thesis
  proof (intro exI [of _ t] conjI t(1) ballI)
    fix x
    assume "x \<in> set (dot_edges t)"
    then obtain e where e: "e \<in> set (all_ifs w)" "x \<in> set (graph_edges adr w e)" unfolding t(3) by auto
    obtain a b u where "x = (a, b, u)" by (rule prod_cases3)
    with e have x: "x = (a, b, u)" "e \<in> set (all_ifs w)" "(a, b, u) \<in> set (graph_edges adr w e)" by simp_all
    from edge [OF x(2,3)] x(2) show "case x of (a, b, undirected) \<Rightarrow> a \<in> set (dot_nodes t) \<and>
       (b \<in> set (dot_nodes t) \<or> (\<exists>e n. e \<in> set (all_ifs w) \<and> a = ifid w e \<and> i_link (w_if w e) = None \<and> i_link_net (w_if w e) = Some n))"
      unfolding x(1) t(2) by auto
  qed
qed

theorem dot_closed_witness:
  "\<exists>t. dot_output (\<lambda>e. e) ''v0.4.1'' (''Thu'' @ [nl]) cable_world 3 = Some t \<and>
    (\<forall>(a, b, undirected) \<in> set (dot_edges t). b \<in> set (dot_nodes t))"
proof -
  have c: "clean ''v0.4.1''" "clean ''Thu''" by (simp_all add: nl_def)
  have "i_link_net (w_if cable_world e) = None" for e by (simp add: cable_world_def if_entry0_def)
  with dot_closed [OF cable_text c cable_listed, of "\<lambda>e. e" 3] show ?thesis by fastforce
qed

lemma sum_list_one: "distinct xs \<Longrightarrow> k \<in> set xs \<Longrightarrow> (\<Sum>x\<leftarrow>xs. if x = k then 1 else 0) = (1 :: nat)"
  by (induction xs) auto

lemma filter_concat_length: "length (filter Q (concat (map f xs))) = (\<Sum>x\<leftarrow>xs. length (filter Q (f x)))"
  by (induction xs) simp_all

definition between :: "string \<Rightarrow> string \<Rightarrow> string \<times> string \<times> bool \<Rightarrow> bool" where
  "between a b = (\<lambda>(x, y, undirected). undirected \<and> (x = a \<and> y = b \<or> x = b \<and> y = a))"

lemma directed_between: "filter (between a b) (graph_edges adr w e) =
   filter (between a b) (if draws_peer adr w e then [(ifid w e, ifid w (the (i_peer (w_if w e))), True)] else [])"
  by (auto simp: graph_edges_def Let_def between_def split: option.splits)

lemma peer_edges:
  assumes p: "i_peer (w_if w d) = Some e" "i_peer (w_if w e) = Some d" and a: "adr e < adr d"
    and u: "inj_on (ifid w) (set (all_ifs w))" and d: "distinct (all_ifs w)" and m: "d \<in> set (all_ifs w)" "e \<in> set (all_ifs w)"
  shows "length (filter (between (ifid w d) (ifid w e)) (concat (map (graph_edges adr w) (all_ifs w)))) = 1"
proof -
  have "length (filter (between (ifid w d) (ifid w e)) (graph_edges adr w x)) = (if x = d then 1 else 0)" if x: "x \<in> set (all_ifs w)" for x
  proof -
    consider "x = d" | "x = e" "x \<noteq> d" | "x \<noteq> d" "x \<noteq> e" by blast
    then show ?thesis
    proof cases
      case 1
      show ?thesis using p a unfolding 1 directed_between by (simp add: draws_peer_def between_def)
    next
      case 2
      show ?thesis using p a 2(2) unfolding 2(1) directed_between by (simp add: draws_peer_def)
    next
      case 3
      with u x m have "ifid w x \<noteq> ifid w d" "ifid w x \<noteq> ifid w e" by (auto dest: inj_onD)
      with 3 show ?thesis unfolding directed_between by (auto simp: between_def)
    qed
  qed
  then have "length (filter (between (ifid w d) (ifid w e)) (concat (map (graph_edges adr w) (all_ifs w)))) =
      (\<Sum>x\<leftarrow>all_ifs w. if x = d then 1 else 0)"
    unfolding filter_concat_length by (intro arg_cong [where f = sum_list] map_cong) auto
  with sum_list_one [OF d m(1)] show ?thesis by simp
qed

lemma between_sym: "between a b = between b a"
  by (auto simp: between_def fun_eq_iff)

text \<open>
  C10: A peer relation is drawn once: for two listed interfaces that are each other's peers, the
  output has exactly one undirected edge between their identifiers, whatever their addresses
  in memory are, when identifiers are unique.
\<close>

theorem peer_drawn_once:
  assumes "text_ok w" and "clean version" and "clean day" and "inj adr" and "peers_ok w"
    and "distinct (map (ifid w) (all_ifs w))" and "d \<in> set (all_ifs w)" and "e \<in> set (all_ifs w)" and "d \<noteq> e"
    and "i_peer (w_if w d) = Some e"
  shows "\<exists>t. dot_output adr version (day @ [nl]) w msk = Some t \<and> length (filter (between (ifid w d) (ifid w e)) (dot_edges t)) = 1"
proof -
  from dot_output_reads [OF assms(1-3), of adr msk] obtain t where
    t: "dot_output adr version (day @ [nl]) w msk = Some t" "dot_edges t = concat (map (graph_edges adr w) (all_ifs w))" by blast
  have p: "i_peer (w_if w e) = Some d" using assms(5,10) unfolding peers_ok_def by blast
  have u: "inj_on (ifid w) (set (all_ifs w))" "distinct (all_ifs w)" using assms(6) by (simp_all add: distinct_map)
  have "adr e < adr d \<or> adr d < adr e" using assms(9) injD [OF assms(4), of e d] by (cases "adr e" "adr d" rule: linorder_cases) simp_all
  then have "length (filter (between (ifid w d) (ifid w e)) (dot_edges t)) = 1"
    unfolding t(2)
  proof
    assume "adr e < adr d"
    then show "length (filter (between (ifid w d) (ifid w e)) (concat (map (graph_edges adr w) (all_ifs w)))) = 1"
      by (rule peer_edges [OF assms(10) p _ u assms(7,8)])
  next
    assume "adr d < adr e"
    from peer_edges [OF p assms(10) this u assms(8,7)]
    show "length (filter (between (ifid w d) (ifid w e)) (concat (map (graph_edges adr w) (all_ifs w)))) = 1" by (subst between_sym)
  qed
  with t(1) show ?thesis by blast
qed

theorem peer_drawn_once_witness:
  "\<exists>t. dot_output (\<lambda>e. e) ''v0.4.1'' (''Thu'' @ [nl]) cable_world 3 = Some t \<and>
    length (filter (between (ifid cable_world 0) (ifid cable_world 2)) (dot_edges t)) = 1"
proof -
  have c: "clean ''v0.4.1''" "clean ''Thu''" by (simp_all add: nl_def)
  have p: "peers_ok cable_world" by (simp add: peers_ok_def cable_world_def if_entry0_def)
  have d: "distinct (map (ifid cable_world) (all_ifs cable_world))" using cable_ids by (simp add: cable_ifs)
  have i: "inj (\<lambda>e :: nat. e)" by simp
  have e: "i_peer (w_if cable_world 0) = Some 2" by (simp add: cable_world_def)
  show ?thesis using peer_drawn_once [OF cable_text c i p d _ _ _ e] by (simp add: cable_ifs)
qed

end
