(* ===== verification/Json.thy ===== *)
theory Json
  imports Cable RouteH
begin

text \<open>
  The JSON front end (\<open>frontends/json.c\<close>): the value built with the library for the list of
  name spaces.  As in the code no result of the library is checked: memory is available and
  the texts are valid UTF-8.  Reading freed memory has no defined behaviour (\<open>None\<close>);
  \<open>json_string\<close> of NULL is NULL, and setting a member to NULL leaves it out.
\<close>

section \<open>Objects and arrays\<close>

text \<open>The parts of the library the front end needs besides those of the Open vSwitch handler.\<close>

record 'j json_writer = "'j json_builder" +
  jw_true :: 'j
  jw_size :: "'j \<Rightarrow> nat"

type_synonym 'j members = "(string \<times> 'j) list"

text \<open>Members set one after the other, values appended one after the other.\<close>

definition set_all :: "'j json_writer \<Rightarrow> 'j members \<Rightarrow> 'j" where
  "set_all B kvs = foldl (\<lambda>obj (k, v). jb_set B obj k v) (jb_object B) kvs"

definition append_all :: "'j json_writer \<Rightarrow> 'j list \<Rightarrow> 'j" where
  "append_all B vs = foldl (jb_append B) (jb_array B) vs"

definition str_member :: "'j json_writer \<Rightarrow> string \<Rightarrow> string cptr \<Rightarrow> 'j members option" where
  "str_member B k p = (case p of NullPtr \<Rightarrow> Some [] | BadPtr \<Rightarrow> None | Ptr s \<Rightarrow> Some [(k, jb_string B s)])"

definition label_to_array :: "'j json_writer \<Rightarrow> string list \<Rightarrow> 'j" where
  "label_to_array B labels = append_all B (map (jb_string B) labels)"

definition label_properties_to_object :: "'j json_writer \<Rightarrow> label_property list \<Rightarrow> int \<Rightarrow> 'j" where
  "label_properties_to_object B properties prop_mask =
     set_all B (map (\<lambda>p. (lp_key p, jb_string B (lp_value p))) (filter (\<lambda>p. label_prop_match_mask (lp_type p) prop_mask) properties))"

definition address_family :: "'j json_writer \<Rightarrow> int \<Rightarrow> 'j" where
  "address_family B family =
     (if family = AF_INET then jb_string B ''INET'' else if family = AF_INET6 then jb_string B ''INET6''
      else jb_string B ''unknown'')"

definition address_members :: "'j json_writer \<Rightarrow> addr \<Rightarrow> 'j members option" where
  "address_members B a = do {
     s \<leftarrow> str_member B ''address'' (ad_formatted a);
     Some ((''family'', address_family B (ad_family a)) # s) }"

definition address_to_obj :: "'j json_writer \<Rightarrow> addr \<Rightarrow> 'j option" where
  "address_to_obj B a = map_option (set_all B) (address_members B a)"

definition addresses_to_array :: "'j json_writer \<Rightarrow> if_addr list \<Rightarrow> 'j option" where
  "addresses_to_array B addresses =
     map_option (append_all B) (those (map (\<lambda>a. do {
       ms \<leftarrow> address_members B (ia_addr a);
       peer \<leftarrow> (if ad_formatted (ia_peer a) = NullPtr then Some []
                else map_option (\<lambda>p. [(''peer'', p)]) (address_to_obj B (ia_peer a)));
       Some (set_all B (ms @ peer)) }) addresses))"

definition xdp_to_array :: "'j json_writer \<Rightarrow> if_xdp list \<Rightarrow> 'j" where
  "xdp_to_array B xdp_list =
     append_all B (map (\<lambda>x. set_all B [(''mode'', jb_string B (xdp_mode x)), (''prog_id'', jb_integer B (uint (xdp_prog_id x)))]) xdp_list)"

section \<open>Interfaces\<close>

definition connection :: "'j json_writer \<Rightarrow> world \<Rightarrow> ifp \<Rightarrow> string option \<Rightarrow> 'j" where
  "connection B w target edge_label =
     set_all B [(''target'', jb_string B (ifid w target)),
       (''info'', append_all B (case edge_label of None \<Rightarrow> [] | Some l \<Rightarrow> [jb_string B l]))]"

definition link_netns :: "'j json_writer \<Rightarrow> world \<Rightarrow> nsp \<Rightarrow> 'j" where
  "link_netns B w target = set_all B [(''target'', jb_string B (nsid w target)), (''info'', append_all B [])]"

definition state_name :: "u32 \<Rightarrow> string" where
  "state_name flags =
     (if flags AND IF_INTERNAL \<noteq> 0 then ''none''
      else if flags AND IF_UP = 0 then ''down''
      else if flags AND IF_HAS_LINK = 0 then ''up_no_link''
      else ''up'')"

definition config_members :: "'j json_writer \<Rightarrow> if_entry \<Rightarrow> 'j members option" where
  "config_members B i = do {
     as \<leftarrow> addresses_to_array B (i_addr i);
     mac \<leftarrow> (if i_flags i AND IF_LOOPBACK = 0 then str_member B ''mac'' (mac_formatted (i_mac_addr i)) else Some []);
     Some ([(''addresses'', as), (''mtu'', jb_integer B (i_mtu i))] @ mac) }"

definition parents_of :: "'j json_writer \<Rightarrow> world \<Rightarrow> ifp \<Rightarrow> 'j members" where
  "parents_of B w e =
     (let i = w_if w e in
      case i_master i of
        Some m \<Rightarrow> [(ifid w m, connection B w m (if i_link i \<noteq> None then None else i_edge_label i))]
      | None \<Rightarrow> map (\<lambda>l. (ifid w l, connection B w l (i_edge_label (w_if w l)))) (i_rev_link i))"

definition children_of :: "'j json_writer \<Rightarrow> world \<Rightarrow> ifp \<Rightarrow> 'j members" where
  "children_of B w e =
     (let i = w_if w e in
      case i_link i of
        Some l \<Rightarrow> [(ifid w l, connection B w l (i_edge_label i))]
      | None \<Rightarrow> map (\<lambda>s. (ifid w s, connection B w s (if i_link (w_if w s) \<noteq> None then None else i_edge_label (w_if w s))))
                   (i_rev_master i))"

definition unless_empty :: "'j json_writer \<Rightarrow> string \<Rightarrow> 'j members \<Rightarrow> 'j members" where
  "unless_empty B k kvs = (if jw_size B (set_all B kvs) \<noteq> 0 then [(k, set_all B kvs)] else [])"

definition interface_members :: "'j json_writer \<Rightarrow> world \<Rightarrow> int \<Rightarrow> ifp \<Rightarrow> 'j members \<Rightarrow> 'j members" where
  "interface_members B w print_mask e config =
     (let i = w_if w e in
      [(''id'', jb_string B (ifid w e)), (''namespace'', jb_string B (nsid w (i_ns i))), (''name'', jb_string B (i_name i)),
       (''driver'', jb_string B (ifdrv w e)), (''info'', label_properties_to_object B (i_properties i) print_mask)] @
      config @
      (if i_link_index i = 0 then (case i_link_net i of None \<Rightarrow> [] | Some n \<Rightarrow> [(''link-netns'', link_netns B w n)]) else []) @
      [(''type'', jb_string B (if i_flags i AND IF_INTERNAL \<noteq> 0 then ''internal'' else ''device''))] @
      (if label_prop_match_mask IF_PROP_STATE print_mask then [(''state'', jb_string B (state_name (i_flags i)))] else []) @
      (if i_xdp i \<noteq> [] then [(''xdp'', xdp_to_array B (i_xdp i))] else []) @
      (if i_warnings i \<noteq> 0 then [(''warning'', jw_true B)] else []) @
      unless_empty B ''parents'' (parents_of B w e) @
      unless_empty B ''children'' (children_of B w e) @
      (case i_peer i of None \<Rightarrow> [] | Some p \<Rightarrow> [(''peer'', connection B w p None)]))"

definition interface_obj :: "'j json_writer \<Rightarrow> world \<Rightarrow> int \<Rightarrow> ifp \<Rightarrow> 'j option" where
  "interface_obj B w print_mask e = do {
     config \<leftarrow> (if label_prop_match_mask IF_PROP_CONFIG print_mask then config_members B (w_if w e) else Some []);
     Some (set_all B (interface_members B w print_mask e config)) }"

definition interfaces_to_array :: "'j json_writer \<Rightarrow> world \<Rightarrow> int \<Rightarrow> ifp list \<Rightarrow> 'j option" where
  "interfaces_to_array B w print_mask ifs =
     map_option (set_all B) (those (map (\<lambda>e. map_option (\<lambda>j. (ifid w e, j)) (interface_obj B w print_mask e)) ifs))"

section \<open>Routes\<close>

definition route_addr_member :: "'j json_writer \<Rightarrow> string \<Rightarrow> addr \<Rightarrow> 'j members option" where
  "route_addr_member B k a = (if ad_family a \<noteq> 0 then str_member B k (ad_formatted a) else Some [])"

definition if_member :: "'j json_writer \<Rightarrow> world \<Rightarrow> string \<Rightarrow> ifp option \<Rightarrow> 'j members" where
  "if_member B w k e = (case e of None \<Rightarrow> [] | Some e \<Rightarrow> [(k, jb_string B (ifid w e))])"

definition route_obj :: "'j json_writer \<Rightarrow> world \<Rightarrow> route \<Rightarrow> 'j option" where
  "route_obj B w r = do {
     dst \<leftarrow> route_addr_member B ''destination'' (r_dst r);
     gw \<leftarrow> route_addr_member B ''gateway'' (r_gw r);
     src \<leftarrow> route_addr_member B ''source'' (r_src r);
     prefsrc \<leftarrow> route_addr_member B ''preferred-source'' (r_prefsrc r);
     Some (set_all B
       (dst @ [(''family'', address_family B (uint (r_family r)))] @ gw @ if_member B w ''iif'' (r_iif r) @
        (if r_metrics r \<noteq> []
         then [(''metrics'', set_all B (map (\<lambda>m. (route_metric (rm_type m), jb_integer B (rm_value m))) (r_metrics r)))] else []) @
        if_member B w ''oif'' (r_oif r) @
        [(''priority'', jb_integer B (uint (r_priority r))), (''protocol'', jb_string B (route_protocol (uint (r_protocol r)))),
         (''scope'', jb_string B (route_scope (uint (r_scope r))))] @
        src @ prefsrc @
        [(''tos'', jb_integer B (uint (r_tos r))), (''type'', jb_string B (route_type (uint (r_type r))))])) }"

definition routes_to_array :: "'j json_writer \<Rightarrow> world \<Rightarrow> route list \<Rightarrow> 'j option" where
  "routes_to_array B w routes = map_option (append_all B) (those (map (route_obj B w) routes))"

definition rtables_to_array :: "'j json_writer \<Rightarrow> world \<Rightarrow> rtable list \<Rightarrow> 'j option" where
  "rtables_to_array B w tables =
     map_option (set_all B) (those (map (\<lambda>rt. do {
       rs \<leftarrow> routes_to_array B w (rt_routes rt);
       Some (rtid rt, set_all B [(''name'', jb_string B (route_table (rt_id rt))), (''routes'', rs)]) }) tables))"

section \<open>The whole value\<close>

definition netns_obj :: "'j json_writer \<Rightarrow> world \<Rightarrow> int \<Rightarrow> nsp \<Rightarrow> 'j option" where
  "netns_obj B w print_mask n = do {
     let s = w_ns w n;
     ifs \<leftarrow> interfaces_to_array B w print_mask (n_ifaces s);
     routes \<leftarrow> rtables_to_array B w (n_rtables s);
     Some (set_all B
       ([(''id'', jb_string B (nsid w n)), (''name'', jb_string B (case n_name s of None \<Rightarrow> [] | Some name \<Rightarrow> name)),
         (''interfaces'', ifs), (''routes'', routes)] @
        (if n_warnings s \<noteq> [] then [(''warnings'', label_to_array B (n_warnings s))] else []))) }"

definition json_value :: "'j json_writer \<Rightarrow> string \<Rightarrow> string \<Rightarrow> world \<Rightarrow> int \<Rightarrow> 'j option" where
  "json_value B version date w print_mask = do {
     root \<leftarrow> (case w_list w of [] \<Rightarrow> None | n # _ \<Rightarrow> Some n);
     nss \<leftarrow> those (map (\<lambda>n. map_option (\<lambda>j. (nsid w n, j)) (netns_obj B w print_mask n)) (w_list w));
     Some (set_all B [(''format'', jb_integer B 2), (''version'', jb_string B version), (''date'', jb_string B date),
       (''root'', jb_string B (nsid w root)), (''namespaces'', set_all B nss)]) }"

definition json_output :: "'j json_writer \<Rightarrow> string \<Rightarrow> string \<Rightarrow> world \<Rightarrow> int \<Rightarrow> string option" where
  "json_output B version date w print_mask = map_option (jb_dumps B) (json_value B version date w print_mask)"

section \<open>Reading a value\<close>

text \<open>The front end's part of the library on the datatype of JSON values, and looking up members along a path.\<close>

definition json_write :: "(json \<Rightarrow> string) \<Rightarrow> json json_writer" where
  "json_write dumps = \<lparr>jb_object = JObj [], jb_array = JArr [], jb_null = JNull, jb_string = JStr, jb_integer = JInt,
     jb_append = jb_append (json_build dumps), jb_set = jb_set (json_build dumps), jb_dumps = dumps, jw_true = JTrue,
     jw_size = (\<lambda>j. case j of JObj kvs \<Rightarrow> length kvs | _ \<Rightarrow> 0)\<rparr>"

definition obj_of :: "json members \<Rightarrow> json members" where
  "obj_of kvs = foldl (\<lambda>obj (k, v). obj_set obj k v) [] kvs"

fun member :: "json \<Rightarrow> string \<Rightarrow> json option" where
  "member (JObj kvs) k = map_of kvs k"
| "member _ k = None"

fun path :: "json \<Rightarrow> string list \<Rightarrow> json option" where
  "path j [] = Some j"
| "path j (k # ks) = (case member j k of None \<Rightarrow> None | Some v \<Rightarrow> path v ks)"

fun keys :: "json option \<Rightarrow> string set" where
  "keys (Some (JObj kvs)) = fst ` set kvs"
| "keys _ = {}"

lemma json_write_simps [simp]:
  "jb_object (json_write d) = JObj []" "jb_array (json_write d) = JArr []" "jb_null (json_write d) = JNull"
  "jb_string (json_write d) = JStr" "jb_integer (json_write d) = JInt" "jw_true (json_write d) = JTrue"
  "jb_append (json_write d) (JArr vs) v = JArr (vs @ [v])"
  "jb_set (json_write d) (JObj kvs) k v = JObj (obj_set kvs k v)"
  "jw_size (json_write d) (JObj kvs) = length kvs" "jb_dumps (json_write d) = d"
  by (simp_all add: json_write_def)

lemma foldl_set: "foldl (\<lambda>obj (k, v). jb_set (json_write d) obj k v) (JObj ms) kvs = JObj (foldl (\<lambda>obj (k, v). obj_set obj k v) ms kvs)"
  by (induction kvs arbitrary: ms) auto

lemma set_all_obj: "set_all (json_write d) kvs = JObj (obj_of kvs)"
  by (simp add: set_all_def obj_of_def foldl_set)

lemma map_of_foldl: "map_of (foldl (\<lambda>obj (k, v). obj_set obj k v) ms kvs) = map_of ms ++ map_of (rev kvs)"
  by (induction kvs arbitrary: ms) (auto simp: map_of_obj_set)

lemma map_of_obj_of: "map_of (obj_of kvs) = map_of (rev kvs)"
  by (simp add: obj_of_def map_of_foldl)

lemma member_set_all: "member (set_all (json_write d) kvs) k = map_of (rev kvs) k"
  by (simp add: set_all_obj map_of_obj_of)

lemma keys_set_all: "keys (Some (set_all (json_write d) kvs)) = fst ` set kvs"
proof -
  have "fst ` set (obj_of kvs) = dom (map_of (obj_of kvs))" by (simp add: dom_map_of_conv_image_fst)
  also have "\<dots> = dom (map_of (rev kvs))" by (simp only: map_of_obj_of)
  also have "\<dots> = fst ` set kvs" by (simp add: dom_map_of_conv_image_fst)
  finally show ?thesis by (simp add: set_all_obj)
qed

lemma size_set_all: "jw_size (json_write d) (set_all (json_write d) kvs) = 0 \<longleftrightarrow> kvs = []"
  using keys_set_all [of d kvs] by (auto simp: set_all_obj)

lemma unless_empty_eq: "unless_empty (json_write d) k kvs = (if kvs = [] then [] else [(k, set_all (json_write d) kvs)])"
  by (simp add: unless_empty_def size_set_all)

text \<open>A list of members with distinct keys, built one by one.\<close>

lemma those_keyed:
  assumes "those (map (\<lambda>x. map_option (Pair (g x)) (f x)) xs) = Some kvs" and "distinct (map g xs)" and "x \<in> set xs"
  shows "\<exists>j. f x = Some j \<and> map_of (rev kvs) (g x) = Some j"
proof -
  have "\<exists>j. f x = Some j \<and> (g x, j) \<in> set kvs \<and> map fst kvs = map g xs"
    using assms(1,3)
  proof (induction xs arbitrary: kvs)
    case (Cons y ys)
    from Cons.prems(1) obtain j ms where j: "f y = Some j" "those (map (\<lambda>x. map_option (Pair (g x)) (f x)) ys) = Some ms" "kvs = (g y, j) # ms"
      by (auto split: option.splits)
    have k: "map fst ms = map g ys" using j(2)
      by (induction ys arbitrary: ms) (auto split: option.splits)
    show ?case
    proof (cases "x = y")
      case True
      with j k show ?thesis by auto
    next
      case False
      with Cons.prems(2) Cons.IH [OF j(2)] obtain i where "f x = Some i" "(g x, i) \<in> set ms" by auto
      with j k show ?thesis by auto
    qed
  qed simp
  then obtain j where j: "f x = Some j" "(g x, j) \<in> set kvs" "map fst kvs = map g xs" by blast
  with assms(2) have "distinct (map fst (rev kvs))" by (simp add: rev_map [symmetric])
  with j show ?thesis by simp
qed

lemma those_ok: "(\<And>x. x \<in> set xs \<Longrightarrow> f x \<noteq> None) \<Longrightarrow> \<exists>ys. those (map f xs) = Some ys"
  by (induction xs) (auto split: option.splits)

text \<open>Where the interface \<open>e\<close> of the name space \<open>n\<close> is found.\<close>

definition iface_path :: "world \<Rightarrow> nsp \<Rightarrow> ifp \<Rightarrow> string list" where
  "iface_path w n e = [''namespaces'', nsid w n, ''interfaces'', ifid w e]"

definition ids_distinct :: "world \<Rightarrow> bool" where
  "ids_distinct w \<longleftrightarrow> distinct (map (nsid w) (w_list w)) \<and> distinct (map (ifid w) (all_ifs w))"

lemma value_interface:
  assumes v: "json_value (json_write d) version date w msk = Some out" and u: "ids_distinct w"
    and n: "n \<in> set (w_list w)" "e \<in> set (n_ifaces (w_ns w n))"
  shows "\<exists>i. interface_obj (json_write d) w msk e = Some i \<and> path out (iface_path w n e) = Some i"
proof -
  let ?B = "json_write d"
  from v obtain root nss where nss: "those (map (\<lambda>n. map_option (Pair (nsid w n)) (netns_obj ?B w msk n)) (w_list w)) = Some nss"
    and out: "out = set_all ?B [(''format'', jb_integer ?B 2), (''version'', jb_string ?B version), (''date'', jb_string ?B date),
       (''root'', jb_string ?B (nsid w root)), (''namespaces'', set_all ?B nss)]"
    by (auto simp: json_value_def split: bind_splits)
  from those_keyed [OF nss _ n(1)] u obtain j where
    j: "netns_obj ?B w msk n = Some j" "map_of (rev nss) (nsid w n) = Some j" by (auto simp: ids_distinct_def)
  from j(1) obtain ifs where ifs: "interfaces_to_array ?B w msk (n_ifaces (w_ns w n)) = Some ifs" "member j ''interfaces'' = Some ifs"
    by (auto simp: netns_obj_def Let_def member_set_all split: bind_splits)
  from ifs(1) obtain kvs where
    kvs: "those (map (\<lambda>e. map_option (Pair (ifid w e)) (interface_obj ?B w msk e)) (n_ifaces (w_ns w n))) = Some kvs" "ifs = set_all ?B kvs"
    by (auto simp: interfaces_to_array_def)
  have "distinct (map (ifid w) (n_ifaces (w_ns w n)))"
  proof -
    from n(1) obtain xs ys where "w_list w = xs @ n # ys" by (auto simp: in_set_conv_decomp)
    with u show ?thesis by (simp add: ids_distinct_def all_ifs_def)
  qed
  from those_keyed [OF kvs(1) this n(2)] obtain i where i: "interface_obj ?B w msk e = Some i" "map_of (rev kvs) (ifid w e) = Some i" by blast
  then show ?thesis by (simp add: iface_path_def out member_set_all j(2) ifs(2) kvs(2))
qed

text \<open>The members that hold an interface's relations.\<close>

lemma config_keys: "config_members B i = Some ms \<Longrightarrow> fst ` set ms \<subseteq> {''addresses'', ''mtu'', ''mac''}"
  by (auto simp: config_members_def str_member_def split: bind_splits if_splits cptr.splits)

lemma no_config: "config_members B i = Some ms \<Longrightarrow> k \<notin> {''addresses'', ''mtu'', ''mac''} \<Longrightarrow> map_of (rev ms) k = None"
  using config_keys [of B i ms] by (auto simp: map_of_eq_None_iff)

lemma lookup_simps:
  "map_of (rev (xs @ ys)) k = (case map_of (rev ys) k of None \<Rightarrow> map_of (rev xs) k | Some v \<Rightarrow> Some v)"
  "map_of (rev (if b then [(k', v)] else [])) k = (if b \<and> k = k' then Some v else None)"
  "map_of (rev (if b then [] else [(k', v)])) k = (if \<not> b \<and> k = k' then Some v else None)"
  "map_of (rev (case x of None \<Rightarrow> [] | Some y \<Rightarrow> [(k', f y)])) k = (if k = k' then map_option f x else None)"
  "map_of (rev (if b then case x of None \<Rightarrow> [] | Some y \<Rightarrow> [(k', f y)] else [])) k = (if b \<and> k = k' then map_option f x else None)"
proof -
  show "map_of (rev (xs @ ys)) k = (case map_of (rev ys) k of None \<Rightarrow> map_of (rev xs) k | Some v \<Rightarrow> Some v)"
    by (simp only: rev_append map_of_append map_add_def)
qed (cases b; cases x; simp)+

lemma interface_relations:
  assumes "interface_obj (json_write d) w msk e = Some j"
  shows "member j ''parents'' = (if parents_of (json_write d) w e = [] then None else Some (set_all (json_write d) (parents_of (json_write d) w e)))"
    and "member j ''children'' = (if children_of (json_write d) w e = [] then None else Some (set_all (json_write d) (children_of (json_write d) w e)))"
    and "member j ''id'' = Some (JStr (ifid w e))"
proof -
  from assms obtain config where
    cs: "(if label_prop_match_mask IF_PROP_CONFIG msk then config_members (json_write d) (w_if w e) else Some []) = Some config"
    and j: "j = set_all (json_write d) (interface_members (json_write d) w msk e config)"
    unfolding interface_obj_def by (auto split: bind_splits)
  from cs have c: "map_of (rev config) k = None" if "k \<notin> {''addresses'', ''mtu'', ''mac''}" for k
    using no_config [OF _ that] by (auto split: if_splits)
  show "member j ''parents'' = (if parents_of (json_write d) w e = [] then None else Some (set_all (json_write d) (parents_of (json_write d) w e)))"
    "member j ''children'' = (if children_of (json_write d) w e = [] then None else Some (set_all (json_write d) (children_of (json_write d) w e)))"
    "member j ''id'' = Some (JStr (ifid w e))"
    unfolding j member_set_all unless_empty_eq interface_members_def Let_def
    by (simp_all only: lookup_simps) (simp_all add: c)
qed

section \<open>What the value says\<close>

definition shown_parents :: "world \<Rightarrow> ifp \<Rightarrow> ifp set" where
  "shown_parents w e = (case i_master (w_if w e) of Some m \<Rightarrow> {m} | None \<Rightarrow> {l. i_link (w_if w l) = Some e})"

definition shown_children :: "world \<Rightarrow> ifp \<Rightarrow> ifp set" where
  "shown_children w e = (case i_link (w_if w e) of Some l \<Rightarrow> {l} | None \<Rightarrow> {s. i_master (w_if w s) = Some e})"

lemma parents_keys:
  assumes "links_ok w"
  shows "fst ` set (parents_of B w e) = ifid w ` shown_parents w e"
proof -
  have "set (i_rev_link (w_if w e)) = {l. i_link (w_if w l) = Some e}" using assms by (auto simp: links_ok_def)
  then show ?thesis by (auto simp: parents_of_def shown_parents_def Let_def image_image split: option.splits)
qed

lemma children_keys:
  assumes "masters_ok w"
  shows "fst ` set (children_of B w e) = ifid w ` shown_children w e"
proof -
  have "set (i_rev_master (w_if w e)) = {s. i_master (w_if w s) = Some e}" using assms by (auto simp: masters_ok_def)
  then show ?thesis by (auto simp: children_of_def shown_children_def Let_def image_image split: option.splits)
qed

lemma keys_unless: "keys (if kvs = [] then None else Some (set_all (json_write d) kvs)) = fst ` set kvs"
  by (simp add: keys_set_all)

lemma path_append: "path j (ks @ ls) = (case path j ks of None \<Rightarrow> None | Some i \<Rightarrow> path i ls)"
  by (induction ks arbitrary: j) (auto split: option.split)

lemma shown_relations:
  assumes "json_value (json_write d) version date w msk = Some out" and "ids_distinct w" and "masters_ok w" and "links_ok w"
    and "n \<in> set (w_list w)" and "e \<in> set (n_ifaces (w_ns w n))"
  shows "keys (path out (iface_path w n e @ [''parents''])) = ifid w ` shown_parents w e"
    and "keys (path out (iface_path w n e @ [''children''])) = ifid w ` shown_children w e"
    and "path out (iface_path w n e @ [''id'']) = Some (JStr (ifid w e))"
proof -
  from value_interface [OF assms(1,2,5,6)] obtain j where
    j: "interface_obj (json_write d) w msk e = Some j" "path out (iface_path w n e) = Some j" by blast
  have p: "path out (iface_path w n e @ [k]) = member j k" for k
    by (simp add: path_append j(2) split: option.split)
  note r = interface_relations [OF j(1)]
  show "keys (path out (iface_path w n e @ [''parents''])) = ifid w ` shown_parents w e"
    unfolding p r(1) keys_unless by (rule parents_keys [OF assms(4)])
  show "keys (path out (iface_path w n e @ [''children''])) = ifid w ` shown_children w e"
    unfolding p r(2) keys_unless by (rule children_keys [OF assms(3)])
  show "path out (iface_path w n e @ [''id'']) = Some (JStr (ifid w e))"
    unfolding p by (rule r(3))
qed

text \<open>The front end returns when no text it prints was freed; only the address texts are of that kind.\<close>

definition readable_addr :: "addr \<Rightarrow> bool" where
  "readable_addr a \<longleftrightarrow> ad_formatted a \<noteq> BadPtr"

definition readable_if :: "if_entry \<Rightarrow> bool" where
  "readable_if i \<longleftrightarrow> list_all (\<lambda>a. readable_addr (ia_addr a) \<and> readable_addr (ia_peer a)) (i_addr i) \<and>
     mac_formatted (i_mac_addr i) \<noteq> BadPtr"

definition readable_route :: "route \<Rightarrow> bool" where
  "readable_route r \<longleftrightarrow> readable_addr (r_dst r) \<and> readable_addr (r_gw r) \<and> readable_addr (r_src r) \<and> readable_addr (r_prefsrc r)"

definition readable_ns :: "world \<Rightarrow> nsp \<Rightarrow> bool" where
  "readable_ns w n \<longleftrightarrow> list_all (\<lambda>e. readable_if (w_if w e)) (n_ifaces (w_ns w n)) \<and>
     list_all (\<lambda>rt. list_all readable_route (rt_routes rt)) (n_rtables (w_ns w n))"

lemma str_member_ok: "p \<noteq> BadPtr \<Longrightarrow> \<exists>ms. str_member B k p = Some ms"
  by (cases p) (auto simp: str_member_def)

lemma address_ok: "readable_addr a \<Longrightarrow> \<exists>ms. address_members B a = Some ms"
  using str_member_ok [of "ad_formatted a" B "''address''"] by (auto simp: readable_addr_def address_members_def)

lemma interface_ok:
  assumes "readable_if (w_if w e)"
  shows "\<exists>j. interface_obj B w msk e = Some j"
proof -
  let ?i = "w_if w e"
  have "\<exists>as. addresses_to_array B (i_addr ?i) = Some as"
  proof -
    have "\<exists>ys. those (map (\<lambda>a. do {
       ms \<leftarrow> address_members B (ia_addr a);
       peer \<leftarrow> (if ad_formatted (ia_peer a) = NullPtr then Some []
                else map_option (\<lambda>p. [(''peer'', p)]) (address_to_obj B (ia_peer a)));
       Some (set_all B (ms @ peer)) }) (i_addr ?i)) = Some ys"
    proof (rule those_ok)
      fix a assume "a \<in> set (i_addr ?i)"
      with assms have "readable_addr (ia_addr a)" "readable_addr (ia_peer a)" by (auto simp: readable_if_def list_all_iff)
      with address_ok [of "ia_addr a" B] address_ok [of "ia_peer a" B]
      show "do { ms \<leftarrow> address_members B (ia_addr a);
         peer \<leftarrow> (if ad_formatted (ia_peer a) = NullPtr then Some []
                  else map_option (\<lambda>p. [(''peer'', p)]) (address_to_obj B (ia_peer a)));
         Some (set_all B (ms @ peer)) } \<noteq> None"
        by (auto simp: address_to_obj_def)
    qed
    then show ?thesis by (auto simp: addresses_to_array_def)
  qed
  moreover have "\<exists>ms. str_member B ''mac'' (mac_formatted (i_mac_addr ?i)) = Some ms"
    using assms by (intro str_member_ok) (simp add: readable_if_def)
  ultimately show ?thesis by (auto simp: interface_obj_def config_members_def)
qed

lemma route_ok:
  assumes "readable_route r"
  shows "route_obj B w r \<noteq> None"
proof -
  have "\<exists>ms. route_addr_member B k a = Some ms" if "readable_addr a" for k a
    using that str_member_ok [of "ad_formatted a" B k] by (auto simp: route_addr_member_def readable_addr_def)
  note ok = this
  from assms ok [of "r_dst r" "''destination''"] ok [of "r_gw r" "''gateway''"] ok [of "r_src r" "''source''"]
    ok [of "r_prefsrc r" "''preferred-source''"]
  obtain a b c e where "route_addr_member B ''destination'' (r_dst r) = Some a" "route_addr_member B ''gateway'' (r_gw r) = Some b"
    "route_addr_member B ''source'' (r_src r) = Some c" "route_addr_member B ''preferred-source'' (r_prefsrc r) = Some e"
    unfolding readable_route_def by iprover
  then show ?thesis by (simp add: route_obj_def)
qed

lemma netns_ok:
  assumes "readable_ns w n"
  shows "netns_obj B w msk n \<noteq> None"
proof -
  have "\<exists>ys. those (map (\<lambda>e. map_option (Pair (ifid w e)) (interface_obj B w msk e)) (n_ifaces (w_ns w n))) = Some ys"
    using assms by (intro those_ok) (auto simp: readable_ns_def list_all_iff intro: interface_ok)
  moreover have "\<exists>ys. those (map (\<lambda>rt. do { rs \<leftarrow> routes_to_array B w (rt_routes rt);
       Some (rtid rt, set_all B [(''name'', jb_string B (route_table (rt_id rt))), (''routes'', rs)]) }) (n_rtables (w_ns w n))) = Some ys"
  proof (rule those_ok)
    fix rt assume "rt \<in> set (n_rtables (w_ns w n))"
    with assms have "\<exists>ys. those (map (route_obj B w) (rt_routes rt)) = Some ys"
      by (intro those_ok route_ok) (auto simp: readable_ns_def list_all_iff)
    then show "do { rs \<leftarrow> routes_to_array B w (rt_routes rt);
       Some (rtid rt, set_all B [(''name'', jb_string B (route_table (rt_id rt))), (''routes'', rs)]) } \<noteq> None"
      by (auto simp: routes_to_array_def)
  qed
  ultimately show ?thesis by (auto simp: netns_obj_def Let_def interfaces_to_array_def rtables_to_array_def)
qed

lemma value_ok:
  assumes "list_all (readable_ns w) (w_list w)" and "w_list w \<noteq> []"
  shows "\<exists>j. json_value B version date w msk = Some j"
proof -
  have "\<exists>ys. those (map (\<lambda>n. map_option (Pair (nsid w n)) (netns_obj B w msk n)) (w_list w)) = Some ys"
    using assms(1) by (intro those_ok) (auto simp: list_all_iff dest: netns_ok [of w _ B msk])
  with assms(2) show ?thesis by (auto simp: json_value_def split: list.split)
qed

lemma shown_listed:
  assumes "relations_listed w"
  shows "shown_parents w e \<subseteq> set (all_ifs w)" and "shown_children w e \<subseteq> set (all_ifs w)"
  using assms by (auto simp: relations_listed_def shown_parents_def shown_children_def split: option.splits)

lemma id_in_image:
  assumes "ids_distinct w" and "S \<subseteq> set (all_ifs w)" and "d \<in> set (all_ifs w)"
  shows "ifid w d \<in> ifid w ` S \<longleftrightarrow> d \<in> S"
  using assms by (auto simp: ids_distinct_def distinct_map dest: inj_onD)

lemma in_all_ifs: "n \<in> set (w_list w) \<Longrightarrow> e \<in> set (n_ifaces (w_ns w n)) \<Longrightarrow> e \<in> set (all_ifs w)"
  by (auto simp: all_ifs_def)

lemma json_shows:
  assumes v: "json_value (json_write dumps) version date w msk = Some out"
    and ok: "ids_distinct w" "masters_ok w" "links_ok w" "relations_listed w"
    and d: "m \<in> set (w_list w)" "d \<in> set (n_ifaces (w_ns w m))"
    and e: "n \<in> set (w_list w)" "e \<in> set (n_ifaces (w_ns w n))"
  shows "ifid w d \<in> keys (path out (iface_path w n e @ [''children''])) \<longleftrightarrow>
      i_link (w_if w e) = Some d \<or> i_link (w_if w e) = None \<and> i_master (w_if w d) = Some e"
    and "ifid w e \<in> keys (path out (iface_path w m d @ [''parents''])) \<longleftrightarrow>
      i_master (w_if w d) = Some e \<or> i_master (w_if w d) = None \<and> i_link (w_if w e) = Some d"
  unfolding shown_relations(1) [OF v ok(1-3) d] shown_relations(2) [OF v ok(1-3) e]
    id_in_image [OF ok(1) shown_listed(1) [OF ok(4)] in_all_ifs [OF e]] id_in_image [OF ok(1) shown_listed(2) [OF ok(4)] in_all_ifs [OF d]]
  by (auto simp: shown_parents_def shown_children_def split: option.splits)

text \<open>
  C11: The JSON output shows the relations: it is built whenever no address text was freed, and
  then every listed interface is found under its name space and identifier, its children are
  its link or, without one, the interfaces it is master of, and its parents its master or,
  without one, the interfaces it is the link of.
\<close>

theorem json_relations:
  assumes "list_all (readable_ns w) (w_list w)" and "ids_distinct w" and "masters_ok w" and "links_ok w" and "relations_listed w"
    and "m \<in> set (w_list w)" and "d \<in> set (n_ifaces (w_ns w m))"
    and "n \<in> set (w_list w)" and "e \<in> set (n_ifaces (w_ns w n))"
  shows "\<exists>out. json_value (json_write dumps) version date w msk = Some out \<and>
    path out (iface_path w n e @ [''id'']) = Some (JStr (ifid w e)) \<and>
    (ifid w d \<in> keys (path out (iface_path w n e @ [''children''])) \<longleftrightarrow>
      i_link (w_if w e) = Some d \<or> i_link (w_if w e) = None \<and> i_master (w_if w d) = Some e) \<and>
    (ifid w e \<in> keys (path out (iface_path w m d @ [''parents''])) \<longleftrightarrow>
      i_master (w_if w d) = Some e \<or> i_master (w_if w d) = None \<and> i_link (w_if w e) = Some d)"
proof -
  from assms(6) have "w_list w \<noteq> []" by auto
  from value_ok [OF assms(1) this, of "json_write dumps" version date msk] obtain out where
    v: "json_value (json_write dumps) version date w msk = Some out" by blast
  show ?thesis
    using v shown_relations(3) [OF v assms(2-4,8,9)] json_shows [OF v assms(2-9)] by blast
qed

lemma cable_shown: "ids_distinct cable_world" "list_all (readable_ns cable_world) (w_list cable_world)"
proof -
  have "nsid cable_world 0 \<noteq> nsid cable_world 1" by (simp add: nsid_def cable_world_def fit_def)
  moreover have "distinct (map (ifid cable_world) (all_ifs cable_world))" unfolding cable_ifs cable_ids by simp
  ultimately show "ids_distinct cable_world" by (simp add: ids_distinct_def) (simp add: cable_world_def)
  show "list_all (readable_ns cable_world) (w_list cable_world)"
    by (simp add: readable_ns_def readable_if_def cable_world_def if_entry0_def mac_addr_init_def)
qed

lemma cable_lists: "0 \<in> set (w_list cable_world)" "0 \<in> set (n_ifaces (w_ns cable_world 0))" "1 \<in> set (n_ifaces (w_ns cable_world 0))"
  by (simp_all add: cable_world_def)

theorem json_relations_witness:
  "\<exists>out. json_value (json_write (\<lambda>_. [])) ''v0.4.1'' ''Thu'' cable_world 3 = Some out \<and>
    ''//eth0'' \<in> keys (path out [''namespaces'', ''/'', ''interfaces'', ''//br0'', ''children''])"
proof -
  have m: "i_link (w_if cable_world 1) = None" "i_master (w_if cable_world 0) = Some 1" by (simp_all add: cable_world_def if_entry0_def)
  have "ifid cable_world 0 = ''//eth0''" "ifid cable_world 1 = ''//br0''" "nsid cable_world 0 = ''/''"
    using cable_ids by (simp_all add: nsid_def cable_world_def)
  with m json_relations [OF cable_shown(2,1) cable_relations(1,2) cable_listed cable_lists(1,2) cable_lists(1,3), of "\<lambda>_. []" "''v0.4.1''" "''Thu''" 3]
  show ?thesis by (auto simp: iface_path_def simp del: path.simps)
qed

text \<open>
  C31: A parent can be missing in the JSON output: an interface that has a master does not list
  the interfaces it is the link of, although each of these lists it as a child; so a VLAN on an
  enslaved interface is no parent of it.
\<close>

theorem json_hides_parent:
  assumes "json_value (json_write dumps) version date w msk = Some out"
    and "ids_distinct w" and "masters_ok w" and "links_ok w" and "relations_listed w"
    and "m \<in> set (w_list w)" and "d \<in> set (n_ifaces (w_ns w m))"
    and "n \<in> set (w_list w)" and "e \<in> set (n_ifaces (w_ns w n))"
    and "i_link (w_if w e) = Some d" and "i_master (w_if w d) = Some b" and "b \<noteq> e"
  shows "ifid w d \<in> keys (path out (iface_path w n e @ [''children''])) \<and>
    ifid w e \<notin> keys (path out (iface_path w m d @ [''parents'']))"
  using json_shows [OF assms(1-9)] assms(10-12) by simp

text \<open>A VLAN (2) on an interface (0) under a bridge (1).\<close>

definition vlan_world :: world where
  "vlan_world = cable_world
     \<lparr>w_if := (\<lambda>e. if e = 0 then if_entry0\<lparr>i_name := ''eth0'', i_master := Some 1, i_rev_link := [2]\<rparr>
         else if e = 1 then if_entry0\<lparr>i_name := ''br0'', i_rev_master := [0]\<rparr>
         else if_entry0\<lparr>i_name := ''vlan5'', i_link := (if e = 2 then Some 0 else None)\<rparr>),
      w_ns := (\<lambda>n. \<lparr>n_ifaces = [0, 1, 2], n_warnings = [], n_kernel_id = 0,
                   n_name = None, n_pid = 0, n_fd = 3, n_ids = [], n_rtables = []\<rparr>),
      w_list := [0]\<rparr>"

theorem json_hides_parent_witness:
  "\<exists>out. json_value (json_write (\<lambda>_. [])) ''v0.4.1'' ''Thu'' vlan_world 3 = Some out \<and>
    ifid vlan_world 2 \<notin> keys (path out (iface_path vlan_world 0 0 @ [''parents'']))"
proof -
  have a: "all_ifs vlan_world = [0, 1, 2]" by (simp add: all_ifs_def vlan_world_def)
  have r: "relations_listed vlan_world" unfolding relations_listed_def a by (auto simp: vlan_world_def if_entry0_def)
  have k: "masters_ok vlan_world" "links_ok vlan_world"
    by (auto simp: masters_ok_def links_ok_def vlan_world_def if_entry0_def)
  have n: "nameable vlan_world e" for e by (simp add: nameable_def vlan_world_def if_entry0_def plain_name_def)
  have i: "map (ifid vlan_world) [0, 1, 2] = [''//eth0'', ''//br0'', ''//vlan5'']"
    by (simp add: ifid_text [OF n]) (simp add: ns_part_def ins_part_def vlan_world_def if_entry0_def)
  have l: "w_list vlan_world = [0]" "n_ifaces (w_ns vlan_world 0) = [0, 1, 2]" by (simp_all add: vlan_world_def)
  have u: "ids_distinct vlan_world" unfolding ids_distinct_def a i l(1) by simp
  have "list_all (readable_ns vlan_world) (w_list vlan_world)"
    by (simp add: readable_ns_def readable_if_def vlan_world_def if_entry0_def mac_addr_init_def)
  from value_ok [OF this, of "json_write (\<lambda>_. [])" "''v0.4.1''" "''Thu''" 3] l(1) obtain out where
    v: "json_value (json_write (\<lambda>_. [])) ''v0.4.1'' ''Thu'' vlan_world 3 = Some out" by auto
  have "i_link (w_if vlan_world 2) = Some 0" "i_master (w_if vlan_world 0) = Some 1" by (simp_all add: vlan_world_def if_entry0_def)
  from json_hides_parent [OF v u k r _ _ _ _ this] l v show ?thesis by simp
qed

end
