(* ===== verification/Args.thy ===== *)
theory Args
  imports Devices
begin

text \<open>
  Command line options (\<open>args.c\<close>): the registered options, the tables handed to
  \<open>getopt_long\<close>, the calls of the options' actions, and the help text.  \<open>'s\<close> is the
  state the actions change.  The C library's \<open>getopt_long\<close> is modelled as the program uses it:
  arguments that are no options are skipped, a long option may be abbreviated.
\<close>

section \<open>Options\<close>

datatype arg_type = ARG_NONE | ARG_INT | ARG_CHAR | ARG_CALLBACK

text \<open>The union of pointers: a variable to store to, or a callback.\<close>

datatype 's arg_action = VoidVar | IntVar "int \<Rightarrow> 's \<Rightarrow> 's" | CharVar "string cptr \<Rightarrow> 's \<Rightarrow> 's" | Callback "string option \<Rightarrow> 's act"

record 's arg_option =
  long_name :: "string option"
  short_name :: "char option"
  has_arg :: nat
  arg_kind :: arg_type
  action :: "'s arg_action"
  help_text :: string

definition arg_register :: "'s arg_option \<Rightarrow> 's arg_option list \<Rightarrow> 's arg_option list" where
  "arg_register opt opts = opts @ [opt]"

definition arg_register_batch :: "'s arg_option list \<Rightarrow> 's arg_option list \<Rightarrow> 's arg_option list" where
  "arg_register_batch batch opts = foldl (\<lambda>opts opt. arg_register opt opts) opts batch"

section \<open>The library's parser\<close>

text \<open>What a call returns: 0 with the index of the long option, a short option, or a complaint.\<close>

datatype got = GotLong nat "string option" | GotShort char "string option" | GotBad

fun colons :: "string \<Rightarrow> nat" where
  "colons (c # cs) = (if c = CHR '':'' then Suc (colons cs) else 0)"
| "colons [] = 0"

definition short_arg :: "string \<Rightarrow> char \<Rightarrow> nat option" where
  "short_arg S c =
     (case dropWhile (\<lambda>x. x \<noteq> c) S of [] \<Rightarrow> None
      | _ # rest \<Rightarrow> if c = CHR '':'' then None else Some (colons rest))"

text \<open>The letters after a single dash, with the arguments that follow; \<open>None\<close> after a complaint.\<close>

fun short_cluster :: "string \<Rightarrow> string \<Rightarrow> string list \<Rightarrow> got list \<times> string list option" where
  "short_cluster S [] rest = ([], Some rest)"
| "short_cluster S (c # cs) rest =
     (case short_arg S c of
        None \<Rightarrow> ([GotBad], None)
      | Some k \<Rightarrow>
          if k = 0 then let (gs, r) = short_cluster S cs rest in (GotShort c None # gs, r)
          else if cs \<noteq> [] then ([GotShort c (Some cs)], Some rest)
          else if k = 1 then (case rest of [] \<Rightarrow> ([GotBad], None) | v # rest \<Rightarrow> ([GotShort c (Some v)], Some rest))
          else ([GotShort c None], Some rest))"

definition long_match :: "(string \<times> nat) list \<Rightarrow> string \<Rightarrow> nat option" where
  "long_match L name =
     (case find (\<lambda>i. fst (L ! i) = name) [0..<length L] of
        Some i \<Rightarrow> Some i
      | None \<Rightarrow>
          (case filter (\<lambda>i. take (length name) (fst (L ! i)) = name) [0..<length L] of
             [] \<Rightarrow> None
           | i # is \<Rightarrow> if list_all (\<lambda>j. snd (L ! j) = snd (L ! i)) is then Some i else None))"

lemma short_cluster_shorter: "short_cluster S cs rest = (gs, Some r) \<Longrightarrow> length r \<le> length rest"
  by (induction S cs rest arbitrary: gs r rule: short_cluster.induct)
    (fastforce simp: Let_def split: option.splits if_splits prod.splits list.splits)+

function getopt_long :: "(string \<times> nat) list \<Rightarrow> string \<Rightarrow> string list \<Rightarrow> got list" where
  "getopt_long L S [] = []"
| "getopt_long L S (a # rest) =
     (if a = ''--'' then []
      else if take 2 a = ''--'' then
        let body = drop 2 a; name = takeWhile (\<lambda>c. c \<noteq> CHR ''='') body;
            val = (if CHR ''='' \<in> set body then Some (drop (Suc (length name)) body) else None) in
        (case long_match L name of
           None \<Rightarrow> [GotBad]
         | Some i \<Rightarrow>
             if snd (L ! i) = 0 then (if val \<noteq> None then [GotBad] else GotLong i None # getopt_long L S rest)
             else if val \<noteq> None \<or> snd (L ! i) = 2 then GotLong i val # getopt_long L S rest
             else (case rest of [] \<Rightarrow> [GotBad] | v # rest \<Rightarrow> GotLong i (Some v) # getopt_long L S rest))
      else if take 1 a = ''-'' \<and> a \<noteq> ''-'' then
        (case short_cluster S (drop 1 a) rest of
           (gs, None) \<Rightarrow> gs
         | (gs, Some r) \<Rightarrow> gs @ getopt_long L S r)
      else getopt_long L S rest)"
  by pat_completeness auto
termination
  by (relation "measure (\<lambda>(L, S, as). length as)") (auto dest: short_cluster_shorter [OF sym])

section \<open>Parsing the command line\<close>

definition glong_table :: "'s arg_option list \<Rightarrow> (string \<times> nat) list" where
  "glong_table opts = map (\<lambda>opt. (the (long_name opt), has_arg opt)) (filter (\<lambda>opt. long_name opt \<noteq> None) opts)"

definition gshort_table :: "'s arg_option list \<Rightarrow> string" where
  "gshort_table opts =
     concat (map (\<lambda>opt. case short_name opt of None \<Rightarrow> [] | Some c \<Rightarrow> c # replicate (has_arg opt) CHR '':'') opts)"

text \<open>The index of a long option is taken as one into all options; past the last one the loop ends on the list's own end.\<close>

definition find_opt :: "'s arg_option list \<Rightarrow> got \<Rightarrow> 's arg_option option" where
  "find_opt opts g =
     (case g of GotLong i _ \<Rightarrow> (if i < length opts then Some (opts ! i) else None)
      | GotShort c _ \<Rightarrow> find (\<lambda>opt. short_name opt = Some c) opts
      | GotBad \<Rightarrow> None)"

definition got_arg :: "got \<Rightarrow> string option" where
  "got_arg g = (case g of GotLong _ a \<Rightarrow> a | GotShort _ a \<Rightarrow> a | GotBad \<Rightarrow> None)"

text \<open>\<open>al\<close> allocates in the state.  An action of another kind than its type says is undefined.\<close>

definition run_opt :: "('s \<Rightarrow> bool \<times> 's) \<Rightarrow> 's arg_option \<Rightarrow> string option \<Rightarrow> 's act" where
  "run_opt al opt optarg =
     andthen
       (case optarg of
          None \<Rightarrow> ok_act
        | Some v \<Rightarrow>
            (case arg_kind opt of
               ARG_NONE \<Rightarrow> crash
             | ARG_INT \<Rightarrow> (case action opt of IntVar f \<Rightarrow> assign (f (atoi v)) | _ \<Rightarrow> crash)
             | ARG_CHAR \<Rightarrow>
                 (case action opt of
                    CharVar f \<Rightarrow> (\<lambda>s. let (ok, s) = al s in Some (0, f (if ok then Ptr v else NullPtr) s))
                  | _ \<Rightarrow> crash)
             | ARG_CALLBACK \<Rightarrow> ok_act))
       (if arg_kind opt = ARG_CALLBACK then (case action opt of Callback f \<Rightarrow> f optarg | _ \<Rightarrow> crash) else ok_act)"

fun run_opts :: "('s \<Rightarrow> bool \<times> 's) \<Rightarrow> 's arg_option list \<Rightarrow> got list \<Rightarrow> 's act" where
  "run_opts al opts [] = return_err 0"
| "run_opts al opts (g # gs) =
     (if g = GotBad then return_err 1
      else case find_opt opts g of
          None \<Rightarrow> crash
        | Some opt \<Rightarrow> andthen (run_opt al opt (got_arg g)) (run_opts al opts gs))"

definition arg_parse :: "('s \<Rightarrow> bool \<times> 's) \<Rightarrow> 's arg_option list \<Rightarrow> string list \<Rightarrow> 's act" where
  "arg_parse al opts argv s =
     (let (ok, s) = al s; (ok', s) = al s in
      if \<not> (ok \<and> ok') then Some (1, s)
      else run_opts al opts (getopt_long (glong_table opts) (gshort_table opts) argv) s)"

section \<open>Help\<close>

definition str_append :: "string \<Rightarrow> string \<Rightarrow> int \<Rightarrow> nat \<Rightarrow> string \<times> int" where
  "str_append dest src sz col =
     (if sz = 0 then (dest, 0)
      else let pad = min (nat (sz - 1)) (col - length dest); t = take (nat (sz - 1) - pad) src in
        (dest @ replicate pad CHR '' '' @ t, int (pad + length t)))"

definition HELP_BUF_SIZE :: int where "HELP_BUF_SIZE = 512"

text \<open>One call on the buffer, keeping what is left of its size.\<close>

definition append_to :: "string \<Rightarrow> nat \<Rightarrow> string \<times> int \<Rightarrow> string \<times> int" where
  "append_to src col = (\<lambda>(buf, sz). let (buf, n) = str_append buf src sz col in (buf, sz - n))"

definition append_name :: "string \<Rightarrow> string \<times> int \<Rightarrow> string \<times> int" where
  "append_name src = (\<lambda>(buf, sz). let (buf, n) = str_append buf src 16 0 in (buf, sz - n))"

definition help_short :: "'s arg_option \<Rightarrow> string \<times> int \<Rightarrow> string \<times> int" where
  "help_short opt = (\<lambda>(buf, sz).
     (case short_name opt of
        None \<Rightarrow> (buf, sz)
      | Some c \<Rightarrow>
          let b = ([CHR ''-'', c], sz - 2) in
          if has_arg opt \<noteq> 0 \<and> long_name opt = None
          then (if has_arg opt = 1 then append_to '' ARG'' 0 b else append_to '' [ARG]'' 0 b) else b))"

definition help_long :: "'s arg_option \<Rightarrow> string \<times> int \<Rightarrow> string \<times> int" where
  "help_long opt b =
     (case long_name opt of
        None \<Rightarrow> b
      | Some name \<Rightarrow>
          let b = (if short_name opt \<noteq> None then append_to '', '' 0 b else b);
              b = append_to ''--'' 4 b;
              b = append_name name b in
          if has_arg opt = 1 then append_to ''=ARG'' 0 b else if has_arg opt = 2 then append_to ''[=ARG]'' 0 b else b)"

definition help_line :: "'s arg_option \<Rightarrow> string \<times> int" where
  "help_line opt = append_to (help_text opt) 26 (help_long opt (help_short opt ([], HELP_BUF_SIZE)))"

definition arg_get_help :: "'s arg_option list \<Rightarrow> bool \<Rightarrow> string list" where
  "arg_get_help opts ok = (if ok then map (\<lambda>opt. fst (help_line opt)) opts else [])"

section \<open>Properties\<close>

text \<open>What the help buffer holds and the size that is left add up, and a byte stays for the end.\<close>

definition help_ok :: "string \<times> int \<Rightarrow> bool" where
  "help_ok b \<longleftrightarrow> int (length (fst b)) + snd b = HELP_BUF_SIZE \<and> 0 < snd b"

lemma str_append_bounds:
  assumes "str_append dest src sz col = (buf, n)" and "0 < sz"
  shows "int (length buf) = int (length dest) + n" and "n < sz" and "0 \<le> n"
  using assms by (auto simp: str_append_def Let_def min_def)

lemma append_to_ok: "help_ok b \<Longrightarrow> help_ok (append_to src col b)"
  by (cases b) (auto simp: help_ok_def append_to_def dest: str_append_bounds split: prod.splits)

lemma append_name_ok:
  assumes "help_ok b" and "16 \<le> snd b"
  shows "help_ok (append_name src b)"
proof -
  obtain buf sz where b: "b = (buf, sz)" by (cases b)
  obtain buf' n where a: "str_append buf src 16 0 = (buf', n)" by (cases "str_append buf src 16 0")
  from str_append_bounds [OF a] have "int (length buf') = int (length buf) + n" "n < 16" by simp_all
  with assms b a show ?thesis by (simp add: help_ok_def append_name_def)
qed

lemma append_to_size: "snd b - int (col + length src) \<le> snd (append_to src col b)"
  by (cases b) (auto simp: append_to_def str_append_def Let_def min_def split: prod.splits)

lemma help_short_ok:
  assumes "b = ([], HELP_BUF_SIZE)"
  shows "help_ok (help_short opt b) \<and> 504 \<le> snd (help_short opt b)"
proof -
  have b: "help_ok b" "snd b = 512" "help_ok ([CHR ''-'', c], HELP_BUF_SIZE - 2)" for c
    by (simp_all add: assms help_ok_def HELP_BUF_SIZE_def)
  have "504 \<le> snd (append_to src 0 ([CHR ''-'', c], HELP_BUF_SIZE - 2))" if "length src \<le> 6" for src c
    using append_to_size [of "([CHR ''-'', c], HELP_BUF_SIZE - 2)" 0 src] that by (simp add: HELP_BUF_SIZE_def)
  with b append_to_ok [OF b(3)] assms show ?thesis
    by (auto simp: help_short_def Let_def HELP_BUF_SIZE_def split: option.split)
qed

lemma help_long_ok:
  assumes "help_ok b" and "504 \<le> snd b"
  shows "help_ok (help_long opt b)"
proof -
  define b1 where "b1 = (if short_name opt \<noteq> None then append_to '', '' 0 b else b)"
  define b2 where "b2 = append_to ''--'' 4 b1"
  have b1: "help_ok b1" "502 \<le> snd b1"
    using assms append_to_ok [OF assms(1)] append_to_size [of b 0 "'', ''"] by (auto simp: b1_def)
  have b2: "help_ok b2" "16 \<le> snd b2"
    using b1 append_to_ok [OF b1(1)] append_to_size [of b1 4 "''--''"] by (auto simp: b2_def)
  show ?thesis
    unfolding help_long_def Let_def b1_def [symmetric] b2_def [symmetric]
    using assms(1) b2 by (cases "long_name opt") (simp_all add: append_name_ok append_to_ok)
qed

lemma help_line_ok: "help_ok (help_line opt)"
  unfolding help_line_def using help_short_ok [OF refl, of opt] by (intro append_to_ok help_long_ok) auto

lemma gshort_length: "(\<And>opt. opt \<in> set opts \<Longrightarrow> has_arg opt \<le> 2) \<Longrightarrow> length (gshort_table opts) \<le> 3 * length opts"
proof (induction opts)
  case (Cons opt opts)
  then have "length (gshort_table opts) \<le> 3 * length opts" "has_arg opt \<le> 2" by auto
  moreover have "length (gshort_table (opt # opts)) \<le> Suc (has_arg opt) + length (gshort_table opts)"
    by (auto simp: gshort_table_def split: option.split)
  ultimately show ?case by simp
qed (simp add: gshort_table_def)

text \<open>
  C33: The buffers of the option parser suffice: the tables for the C library fit the arrays
  allocated for them with their terminators, when no option says more than that its argument is
  optional, and no line of the help text is longer than its buffer, whatever the options are.
\<close>

theorem args_fit:
  fixes opts :: "'s arg_option list"
  assumes "\<And>opt. opt \<in> set opts \<Longrightarrow> has_arg opt \<le> 2"
  shows "length (glong_table opts) < length opts + 1 \<and> length (gshort_table opts) < 3 * length opts + 1 \<and>
    (\<forall>line \<in> set (arg_get_help opts ok). int (length line) < HELP_BUF_SIZE)"
proof (intro conjI ballI)
  show "length (glong_table opts) < length opts + 1" by (simp add: glong_table_def less_Suc_eq_le)
  show "length (gshort_table opts) < 3 * length opts + 1" using gshort_length [of opts] assms by simp
next
  fix line assume "line \<in> set (arg_get_help opts ok)"
  then obtain opt :: "'s arg_option" where "line = fst (help_line opt)" by (auto simp: arg_get_help_def split: if_splits)
  with help_line_ok [of opt] show "int (length line) < HELP_BUF_SIZE" by (simp add: help_ok_def)
qed

definition example_opt :: "nat arg_option" where
  "example_opt = \<lparr>long_name = Some ''format'', short_name = Some CHR ''f'', has_arg = 1, arg_kind = ARG_CALLBACK,
     action = Callback (\<lambda>_. ok_act), help_text = ''output format''\<rparr>"

theorem args_fit_witness:
  "arg_get_help [example_opt] True = [''-f, --format=ARG          output format''] \<and> length (gshort_table [example_opt]) < 3 * length [example_opt] + 1"
proof -
  have "\<And>opt. opt \<in> set [example_opt] \<Longrightarrow> has_arg opt \<le> 2" by (simp add: example_opt_def)
  from args_fit [OF this, where ok = True] have "length (gshort_table [example_opt]) < 3 * length [example_opt] + 1" by blast
  moreover have "arg_get_help [example_opt] True = [''-f, --format=ARG          output format'']"
    by (simp add: arg_get_help_def help_line_def help_long_def help_short_def example_opt_def append_to_def append_name_def
        str_append_def Let_def HELP_BUF_SIZE_def numeral_eq_Suc)
  ultimately show ?thesis by blast
qed

end
