(* ===== verification/Frontend.thy ===== *)
theory Frontend
  imports Args Mount
begin

text \<open>
  The choice of outputs (\<open>frontend.c\<close>): the options that build the list of outputs, and the
  loop that writes them.  The list has the last output first.
\<close>

section \<open>State\<close>

record output_entry =
  out_format :: string
  out_file :: "string option"
  out_mask :: u32

text \<open>A front end writes a text for a filled list of name spaces and a mask of properties.\<close>

record frontend =
  fe_format :: string
  fe_desc :: string
  fe_output :: "world \<Rightarrow> int \<Rightarrow> string option"

text \<open>
  The state the options and the outputs work on: the static variables of \<open>frontend.c\<close>, the path
  of Open vSwitch's database (\<open>db\<close> of \<open>openvswitch.c\<close>), the memory, what has arrived on standard
  output (\<open>None\<close>) or in a file, what was printed to standard error, and the sysfs mount.
\<close>

record fe_state =
  fs_outputs :: "output_entry list"
  fs_used_default :: bool
  fs_db :: "string cptr"
  fs_mem :: mem
  fs_written :: "(string option \<times> string) list"
  fs_errors :: "string list"
  fs_mounts :: mount_state

type_synonym fact = "fe_state act"

definition default_output :: output_entry where
  "default_output = \<lparr>out_format = ''dot'', out_file = None, out_mask = -1\<rparr>"

definition fe_state0 :: "mem \<Rightarrow> fe_state" where
  "fe_state0 m = \<lparr>fs_outputs = [], fs_used_default = False, fs_db = NullPtr, fs_mem = m, fs_written = [], fs_errors = [],
     fs_mounts = at_start\<rparr>"

definition fs_alloc :: "fe_state \<Rightarrow> bool \<times> fe_state" where
  "fs_alloc s = (let (ok, m) = alloc (fs_mem s) in (ok, s\<lparr>fs_mem := m\<rparr>))"

definition allocating :: "fact \<Rightarrow> fact" where
  "allocating f s = (let (ok, s) = fs_alloc s in if ok then f s else Some (ENOMEM, s))"

definition print_out :: "string \<Rightarrow> fact" where
  "print_out t = assign (\<lambda>s. s\<lparr>fs_written := fs_written s @ [(None, t)]\<rparr>)"

definition print_err :: "string \<Rightarrow> fact" where
  "print_err t = assign (\<lambda>s. s\<lparr>fs_errors := fs_errors s @ [t]\<rparr>)"

section \<open>The options\<close>

definition add_output :: "string \<Rightarrow> fact" where
  "add_output fmt =
     allocating (allocating (assign (\<lambda>s. s\<lparr>fs_outputs := default_output\<lparr>out_format := fmt\<rparr> # fs_outputs s\<rparr>)))"

definition add_format :: "string option \<Rightarrow> fact" where
  "add_format arg =
     branch fs_used_default
       (andthen (print_err (''Failed to parse arguments: output options must come after --format.'' @ [CHR 0x0A])) (return_err EINVAL))
       (case arg of None \<Rightarrow> crash | Some fmt \<Rightarrow> add_output fmt)"

definition require_format :: fact where
  "require_format =
     branch (\<lambda>s. fs_outputs s = [])
       (andthen (add_output (out_format default_output)) (assign (\<lambda>s. s\<lparr>fs_used_default := True\<rparr>)))
       (return_err 0)"

definition upd_head :: "(output_entry \<Rightarrow> output_entry) \<Rightarrow> fact" where
  "upd_head f s = (case fs_outputs s of [] \<Rightarrow> None | h # t \<Rightarrow> Some (0, s\<lparr>fs_outputs := f h # t\<rparr>))"

definition head_out :: "fe_state \<Rightarrow> output_entry" where
  "head_out s = hd (fs_outputs s)"

text \<open>Several files for one format: the last output is made anew for the next file.\<close>

definition set_output :: "string option \<Rightarrow> fact" where
  "set_output arg =
     andthen require_format
    (andthen (branch (\<lambda>s. out_file (head_out s) \<noteq> None) (reading (\<lambda>s. add_output (out_format (head_out s)))) ok_act)
      (case arg of None \<Rightarrow> crash | Some f \<Rightarrow>
         (\<lambda>s. let (ok, s) = fs_alloc s in
            andthen (upd_head (\<lambda>h. h\<lparr>out_file := (if ok then Some f else None)\<rparr>)) (return_err (if ok then 0 else ENOMEM)) s)))"

definition set_nostate :: "string option \<Rightarrow> fact" where
  "set_nostate _ =
     andthen require_format
    (andthen (upd_head (\<lambda>h. h\<lparr>out_mask := out_mask h AND NOT (word_of_int IF_PROP_STATE)\<rparr>)) (return_err 0))"

definition print_formats :: "frontend list \<Rightarrow> string option \<Rightarrow> fact" where
  "print_formats fes _ =
     andthen (print_out (''Available output formats:'' @ [CHR 0x0A]))
    (andthen (each_act (\<lambda>f. print_out (CHR 0x09 # fe_format f @ '' - '' @ fe_desc f @ [CHR 0x0A])) fes) (return_err 1))"

definition frontend_options :: "frontend list \<Rightarrow> fe_state arg_option list" where
  "frontend_options fes =
     [\<lparr>long_name = Some ''format'', short_name = Some CHR ''f'', has_arg = 1, arg_kind = ARG_CALLBACK,
       action = Callback add_format, help_text = ''output format (default: dot)''\<rparr>,
      \<lparr>long_name = Some ''output'', short_name = Some CHR ''o'', has_arg = 1, arg_kind = ARG_CALLBACK,
       action = Callback set_output, help_text = ''output file (default: standart output)''\<rparr>,
      \<lparr>long_name = Some ''config-only'', short_name = Some CHR ''C'', has_arg = 0, arg_kind = ARG_CALLBACK,
       action = Callback set_nostate, help_text = ''skip state in output, print only configuration''\<rparr>,
      \<lparr>long_name = Some ''list-formats'', short_name = Some CHR ''F'', has_arg = 0, arg_kind = ARG_CALLBACK,
       action = Callback (print_formats fes), help_text = ''list available output formats''\<rparr>]"

definition frontend_init :: "frontend list \<Rightarrow> fe_state arg_option list \<Rightarrow> fe_state arg_option list" where
  "frontend_init fes opts = arg_register_batch (frontend_options fes) opts"

definition frontend_register :: "frontend \<Rightarrow> frontend list \<Rightarrow> frontend list" where
  "frontend_register f fes = fes @ [f]"

section \<open>Writing the outputs\<close>

text \<open>
  The results of opening and closing a file, 0 or an error number, and what arrives of the
  \<open>n\<close>th text: writing may fail or stop in the middle, to a file and to standard output.
\<close>

record files =
  fl_open :: "string \<Rightarrow> int"
  fl_close :: "string \<Rightarrow> int"
  fl_take :: "nat \<Rightarrow> string \<Rightarrow> string"

definition find_frontend :: "frontend list \<Rightarrow> string \<Rightarrow> frontend option" where
  "find_frontend fes fmt = find (\<lambda>f. fe_format f = fmt) fes"

text \<open>The front end's function returns nothing: whether its text could be written is not known to the caller.\<close>

definition write_to :: "files \<Rightarrow> string option \<Rightarrow> frontend \<Rightarrow> world \<Rightarrow> u32 \<Rightarrow> fact" where
  "write_to F file f w msk s =
     (case fe_output f w (uint msk) of None \<Rightarrow> None
      | Some t \<Rightarrow> Some (0, s\<lparr>fs_written := fs_written s @ [(file, fl_take F (length (fs_written s)) t)]\<rparr>))"

definition write_output :: "files \<Rightarrow> frontend list \<Rightarrow> world \<Rightarrow> output_entry \<Rightarrow> fact" where
  "write_output F fes w out =
     (case find_frontend fes (out_format out) of
        None \<Rightarrow> crash
      | Some f \<Rightarrow>
          (case out_file out of
             Some p \<Rightarrow>
               if p \<noteq> ''-''
               then (if fl_open F p \<noteq> 0 then return_err (fl_open F p)
                     else andthen (write_to F (Some p) f w (out_mask out)) (return_err (fl_close F p)))
               else write_to F None f w (out_mask out)
           | None \<Rightarrow> write_to F None f w (out_mask out)))"

definition frontend_output :: "files \<Rightarrow> frontend list \<Rightarrow> world \<Rightarrow> fact" where
  "frontend_output F fes w =
     ignoring require_format
       (branch (\<lambda>s. list_all (\<lambda>out. find_frontend fes (out_format out) \<noteq> None) (fs_outputs s))
          (reading (\<lambda>s. each_act (write_output F fes w) (fs_outputs s)))
          (return_err EINVAL))"

definition frontend_cleanup :: "fe_state \<Rightarrow> fe_state" where
  "frontend_cleanup s = s\<lparr>fs_outputs := []\<rparr>"

section \<open>What is written\<close>

definition target :: "output_entry \<Rightarrow> string option" where
  "target out = (if out_file out = Some ''-'' then None else out_file out)"

text \<open>The text of an output, when its format is known and the front end returns.\<close>

definition text_of :: "frontend list \<Rightarrow> world \<Rightarrow> output_entry \<Rightarrow> string option" where
  "text_of fes w out = (case find_frontend fes (out_format out) of None \<Rightarrow> None | Some f \<Rightarrow> fe_output f w (uint (out_mask out)))"

text \<open>What arrives of the texts of the outputs, from the \<open>n\<close>th on.\<close>

fun arrivals :: "files \<Rightarrow> nat \<Rightarrow> output_entry list \<Rightarrow> string list \<Rightarrow> (string option \<times> string) list" where
  "arrivals F n (out # outs) (t # ts) = (target out, fl_take F n t) # arrivals F (Suc n) outs ts"
| "arrivals F n _ _ = []"

text \<open>A file is opened and closed without an error.\<close>

definition file_ok :: "files \<Rightarrow> output_entry \<Rightarrow> bool" where
  "file_ok F out \<longleftrightarrow> (case target out of None \<Rightarrow> True | Some p \<Rightarrow> fl_open F p = 0 \<and> fl_close F p = 0)"

lemma write_output_result:
  assumes "write_output F fes w out s = Some (err, s')"
  shows "fs_outputs s' = fs_outputs s"
    and "err = 0 \<Longrightarrow> file_ok F out \<and>
      (\<exists>t. text_of fes w out = Some t \<and> fs_written s' = fs_written s @ [(target out, fl_take F (length (fs_written s)) t)])"
  using assms by (auto simp: write_output_def write_to_def text_of_def target_def file_ok_def return_err_def andthen_def crash_def
      split: option.splits if_splits)

lemma write_outputs_result:
  "each_act (write_output F fes w) outs s = Some (err, s') \<Longrightarrow> fs_outputs s' = fs_outputs s \<and>
     (err = 0 \<longrightarrow> list_all (file_ok F) outs \<and> (\<exists>ts. those (map (text_of fes w) outs) = Some ts \<and>
        fs_written s' = fs_written s @ arrivals F (length (fs_written s)) outs ts))"
proof (induction outs arbitrary: s)
  case (Cons out outs)
  from Cons.prems obtain e v where v: "write_output F fes w out s = Some (e, v)"
    and r: "e \<noteq> 0 \<and> err = e \<and> s' = v \<or> e = 0 \<and> each_act (write_output F fes w) outs v = Some (err, s')"
    by (auto simp: andthen_def split: option.splits if_splits)
  from r show ?case
  proof
    assume "e \<noteq> 0 \<and> err = e \<and> s' = v"
    with write_output_result(1) [OF v] show ?thesis by simp
  next
    assume e: "e = 0 \<and> each_act (write_output F fes w) outs v = Some (err, s')"
    from write_output_result [OF v] e obtain t where t: "fs_outputs v = fs_outputs s" "file_ok F out" "text_of fes w out = Some t"
      "fs_written v = fs_written s @ [(target out, fl_take F (length (fs_written s)) t)]" by blast
    with Cons.IH [of v] e show ?thesis by auto
  qed
qed (simp add: ok_act_def)

text \<open>Whether the default output can be allocated: the entry and its format.\<close>

definition default_fits :: "fe_state \<Rightarrow> bool" where
  "default_fits s \<longleftrightarrow> fst (alloc (fs_mem s)) \<and> fst (alloc (snd (alloc (fs_mem s))))"

lemma require_format_result:
  assumes "require_format s = Some (err, s')"
  shows "fs_written s' = fs_written s"
    and "fs_outputs s' = (if fs_outputs s = [] \<and> default_fits s then [default_output] else fs_outputs s)"
  using assms by (auto simp: require_format_def branch_def return_err_def add_output_def allocating_def fs_alloc_def Let_def
      andthen_def assign_def default_output_def default_fits_def split: if_splits prod.splits)

lemma frontend_output_result:
  assumes "frontend_output F fes w s = Some (err, s')"
  shows "fs_outputs s' = (if fs_outputs s = [] \<and> default_fits s then [default_output] else fs_outputs s) \<and>
    (err = 0 \<longrightarrow> list_all (file_ok F) (fs_outputs s') \<and> (\<exists>ts. those (map (text_of fes w) (fs_outputs s')) = Some ts \<and>
       fs_written s' = fs_written s @ arrivals F (length (fs_written s)) (fs_outputs s') ts)) \<and>
    (\<not> list_all (\<lambda>out. find_frontend fes (out_format out) \<noteq> None) (fs_outputs s') \<longrightarrow> err = EINVAL \<and> fs_written s' = fs_written s)"
proof -
  from assms obtain e v where v: "require_format s = Some (e, v)"
    and b: "branch (\<lambda>s. list_all (\<lambda>out. find_frontend fes (out_format out) \<noteq> None) (fs_outputs s))
      (reading (\<lambda>s. each_act (write_output F fes w) (fs_outputs s))) (return_err EINVAL) v = Some (err, s')"
    by (auto simp: frontend_output_def ignoring_def split: option.splits)
  from b have r: "(if list_all (\<lambda>out. find_frontend fes (out_format out) \<noteq> None) (fs_outputs v)
       then each_act (write_output F fes w) (fs_outputs v) v else Some (EINVAL, v)) = Some (err, s')"
    by (simp only: branch_def reading_def return_err_def)
  note q = require_format_result [OF v]
  show ?thesis
  proof (cases "list_all (\<lambda>out. find_frontend fes (out_format out) \<noteq> None) (fs_outputs v)")
    case True
    with r have e: "each_act (write_output F fes w) (fs_outputs v) v = Some (err, s')" by simp
    from write_outputs_result [OF e] have o: "fs_outputs s' = fs_outputs v" by blast
    show ?thesis
      using write_outputs_result [OF e] True q(1) unfolding o q(2) [symmetric] by simp
  next
    case False
    with r have "err = EINVAL" "s' = v" by simp_all
    with False q show ?thesis by (simp add: EINVAL_def)
  qed
qed

lemma no_outputs:
  assumes "frontend_output F fes w s = Some (err, s')" and "fs_outputs s = []" and "\<not> default_fits s"
  shows "err = 0 \<and> fs_written s' = fs_written s"
proof -
  from assms(1) obtain e v where v: "require_format s = Some (e, v)"
    and b: "branch (\<lambda>s. list_all (\<lambda>out. find_frontend fes (out_format out) \<noteq> None) (fs_outputs s))
      (reading (\<lambda>s. each_act (write_output F fes w) (fs_outputs s))) (return_err EINVAL) v = Some (err, s')"
    by (auto simp: frontend_output_def ignoring_def split: option.splits)
  from require_format_result [OF v] assms(2,3) have "fs_outputs v = []" "fs_written v = fs_written s" by simp_all
  with b show ?thesis by (simp add: branch_def reading_def ok_act_def)
qed

text \<open>
  C13: What the front ends leave when they finish without an error: every file was opened and
  closed without an error, and one text was made for every output, in the order of the list,
  and handed to its file or to standard output, where as much of it arrives as can be written:
  that a text is cut off is not reported.  The outputs are the ones asked for, and the default
  one when none was asked for and it can be allocated; when it cannot, nothing is written and
  that is no error either.  When a format is unknown, the error is found before anything is
  written.
\<close>

theorem frontend_output_writes:
  assumes "frontend_output F fes w s = Some (err, s')"
  shows "(fs_outputs s \<noteq> [] \<longrightarrow> fs_outputs s' = fs_outputs s) \<and>
    (fs_outputs s = [] \<and> default_fits s \<longrightarrow> fs_outputs s' = [default_output]) \<and>
    (fs_outputs s = [] \<and> \<not> default_fits s \<longrightarrow> err = 0 \<and> fs_written s' = fs_written s) \<and>
    (err = 0 \<longrightarrow> list_all (file_ok F) (fs_outputs s') \<and> (\<exists>ts. those (map (text_of fes w) (fs_outputs s')) = Some ts \<and>
       fs_written s' = fs_written s @ arrivals F (length (fs_written s)) (fs_outputs s') ts)) \<and>
    (\<not> list_all (\<lambda>out. find_frontend fes (out_format out) \<noteq> None) (fs_outputs s') \<longrightarrow> err = EINVAL \<and> fs_written s' = fs_written s)"
proof -
  note r = frontend_output_result [OF assms]
  have o: "fs_outputs s' = (if fs_outputs s = [] \<and> default_fits s then [default_output] else fs_outputs s)" by (rule conjunct1 [OF r])
  show ?thesis
    by (intro conjI) (use o no_outputs [OF assms] in simp, use o in simp, use no_outputs [OF assms] in blast, use r in blast, use r in blast)
qed

definition echo :: frontend where
  "echo = \<lparr>fe_format = ''echo'', fe_desc = ''names'', fe_output = (\<lambda>w _. Some (concat (map (\<lambda>e. i_name (w_if w e)) (all_ifs w))))\<rparr>"

definition echo_state :: fe_state where
  "echo_state = (fe_state0 [])\<lparr>fs_outputs := [\<lparr>out_format = ''echo'', out_file = Some ''a'', out_mask = -1\<rparr>,
     \<lparr>out_format = ''echo'', out_file = None, out_mask = -1\<rparr>]\<rparr>"

definition good_files :: files where
  "good_files = \<lparr>fl_open = (\<lambda>_. 0), fl_close = (\<lambda>_. 0), fl_take = (\<lambda>_ t. t)\<rparr>"

theorem frontend_output_writes_witness:
  "\<exists>s'. frontend_output good_files [echo] example_world echo_state = Some (0, s') \<and>
    (\<exists>ts. those (map (text_of [echo] example_world) (fs_outputs s')) = Some ts \<and>
       fs_written s' = arrivals good_files 0 (fs_outputs s') ts)"
proof -
  obtain s' where r: "frontend_output good_files [echo] example_world echo_state = Some (0, s')"
    by (simp add: frontend_output_def ignoring_def require_format_def branch_def reading_def echo_state_def fe_state0_def
        return_err_def write_output_def find_frontend_def echo_def good_files_def write_to_def andthen_def ok_act_def)
  have "fs_written echo_state = []" by (simp add: echo_state_def fe_state0_def)
  with frontend_output_writes [OF r] r show ?thesis by auto
qed

end
