(* ===== verification/Cleanup.thy ===== *)
theory Cleanup
  imports Fill
begin

text \<open>
  Freeing the list of name spaces at the end (\<open>netns_list_free\<close> of \<open>netns.c\<close>,
  \<open>if_list_free\<close> of \<open>if.c\<close>).  As \<open>list_free\<close> does, the last element goes first.  A freed
  structure keeps its name in the model with its pointers invalid.
\<close>

section \<open>Freeing\<close>

definition if_addr_destruct :: "if_addr \<Rightarrow> if_addr option" where
  "if_addr_destruct a = do {
     x \<leftarrow> addr_destruct (ia_addr a);
     p \<leftarrow> addr_destruct (ia_peer a);
     Some (a\<lparr>ia_addr := x, ia_peer := p\<rparr>) }"

definition if_list_destruct :: "if_handler list \<Rightarrow> ifp \<Rightarrow> wact" where
  "if_list_destruct hs e =
     ignoring (if_handler_cleanup hs e)
       (reading (\<lambda>w. let i = w_if w e in
          (case (mac_addr_destruct (i_mac_addr i), those (map if_addr_destruct (rev (i_addr i)))) of
             (Some mac, Some as) \<Rightarrow>
               assign (upd_if e (\<lambda>i. i\<lparr>i_internal_ns := None, i_name := [], i_driver := None, i_sub_driver := None,
                 i_properties := [], i_mac_addr := mac, i_addr := [], i_xdp := [], i_edge_label := None\<rparr>))
           | _ \<Rightarrow> crash)))"

definition if_list_free :: "if_handler list \<Rightarrow> nsp \<Rightarrow> wact" where
  "if_list_free hs n =
     andthen (reading (\<lambda>w. each_act (if_list_destruct hs) (rev (n_ifaces (w_ns w n)))))
       (assign (upd_ns n (\<lambda>s. s\<lparr>n_ifaces := []\<rparr>)))"

text \<open>
  The name of a process' name space that could not be copied is a literal, which must not be
  freed; copied names of processes start with \<open>PID\<close>.
\<close>

definition literal_name :: "netns_entry \<Rightarrow> bool" where
  "literal_name n \<longleftrightarrow> n_pid n \<noteq> 0 \<and> n_name n = Some ''?''"

definition netns_list_destruct :: "if_handler list \<Rightarrow> netns_handler list \<Rightarrow> nsp \<Rightarrow> wact" where
  "netns_list_destruct hs nhs n w =
     (case netns_handler_cleanup nhs n w of
        None \<Rightarrow> None
      | Some w \<Rightarrow>
          andthen (assign (upd_ns n (\<lambda>s. s\<lparr>n_ids := []\<rparr>)))
         (andthen (if_list_free hs n)
           (branch (\<lambda>w. literal_name (w_ns w n)) crash (assign (upd_ns n (\<lambda>s. s\<lparr>n_name := None\<rparr>))))) w)"

definition netns_list_free :: "if_handler list \<Rightarrow> netns_handler list \<Rightarrow> wact" where
  "netns_list_free hs nhs =
     andthen (reading (\<lambda>w. each_act (netns_list_destruct hs nhs) (rev (w_list w))))
       (assign (\<lambda>w. w\<lparr>w_list := []\<rparr>))"

section \<open>Everything is freed once\<close>

text \<open>What an interface must be for its destruction to be defined: its private structure is of its driver's kind.\<close>

definition addr_live :: "addr \<Rightarrow> bool" where
  "addr_live a \<longleftrightarrow> ad_raw a \<noteq> BadPtr \<and> ad_formatted a \<noteq> BadPtr"

definition if_live :: "if_entry \<Rightarrow> bool" where
  "if_live i \<longleftrightarrow> i_private i \<noteq> BadPtr \<and>
     (i_driver i = Some ''bonding'' \<longrightarrow> (\<exists>b. i_private i = Ptr (BondPriv b))) \<and>
     (i_driver i = Some ''team'' \<longrightarrow> (\<exists>p. i_private i = Ptr (TeamPriv p))) \<and>
     mac_raw (i_mac_addr i) \<noteq> BadPtr \<and> mac_formatted (i_mac_addr i) \<noteq> BadPtr \<and>
     list_all (\<lambda>a. addr_live (ia_addr a) \<and> addr_live (ia_peer a)) (i_addr i)"

text \<open>
  What is left of an interface and of a name space: every pointer the code frees was live or
  NULL when it was freed, and nothing that was freed is reachable any more.
\<close>

definition if_freed :: "if_entry \<Rightarrow> if_entry \<Rightarrow> bool" where
  "if_freed i j \<longleftrightarrow> free_ptr (i_private i) = Some (i_private j) \<and> mac_addr_destruct (i_mac_addr i) = Some (i_mac_addr j) \<and>
     (\<exists>as. those (map if_addr_destruct (rev (i_addr i))) = Some as) \<and> i_addr j = [] \<and> i_properties j = [] \<and> i_xdp j = [] \<and>
     i_name j = [] \<and> i_internal_ns j = None \<and> i_edge_label j = None \<and> i_driver j = None \<and> i_sub_driver j = None \<and>
     i_pci_path j = None \<and> i_pci_physfn_path j = None"

definition ns_freed :: "netns_entry \<Rightarrow> bool" where
  "ns_freed n \<longleftrightarrow> n_ifaces n = [] \<and> n_rtables n = [] \<and> n_ids n = [] \<and> n_name n = None"

text \<open>From \<open>w\<close> to \<open>v\<close> exactly the interfaces in \<open>A\<close> are freed.\<close>

definition freed_in :: "ifp set \<Rightarrow> world \<Rightarrow> world \<Rightarrow> bool" where
  "freed_in A w v \<longleftrightarrow> (\<forall>x \<in> A. if_freed (w_if w x) (w_if v x)) \<and> (\<forall>x. x \<notin> A \<longrightarrow> w_if v x = w_if w x)"

lemma freed_trans: "freed_in A w u \<Longrightarrow> freed_in B u v \<Longrightarrow> A \<inter> B = {} \<Longrightarrow> freed_in (A \<union> B) w v"
  unfolding freed_in_def by (metis Un_iff disjoint_iff)

lemma freed_none: "w_if v = w_if w \<Longrightarrow> freed_in {} w v"
  by (simp add: freed_in_def)

lemma freed_cong: "w_if w = w_if w' \<Longrightarrow> w_if v = w_if v' \<Longrightarrow> freed_in A w v = freed_in A w' v'"
  by (simp add: freed_in_def)

lemma free_ptr_ok: "p \<noteq> BadPtr \<Longrightarrow> \<exists>q. free_ptr p = Some q"
  by (cases p) auto

lemma addr_destruct_ok: "addr_live a \<Longrightarrow> \<exists>b. addr_destruct a = Some b"
  using free_ptr_ok [of "ad_raw a"] free_ptr_ok [of "ad_formatted a"] by (auto simp: addr_live_def addr_destruct_def)

lemma each_ignore_filter:
  assumes "\<And>x w. \<not> p x \<Longrightarrow> \<exists>err. f x w = Some (err, w)"
  shows "each_ignore f xs w = each_ignore f (filter p xs) w"
proof (induction xs arbitrary: w)
  case (Cons x xs)
  show ?case
  proof (cases "p x")
    case False
    with assms obtain err where "f x w = Some (err, w)" by blast
    with False Cons show ?thesis by simp
  qed (simp add: Cons split: option.split)
qed simp

lemma cleaning_handlers:
  "filter (\<lambda>h. h_cleanup h \<noteq> None) (register_handlers J teamds env) = [h_bond env, h_iov env, h_team J teamds]"
  by (simp add: handlers_list handler_defs)

text \<open>The cleanup callbacks follow the private structure and free what is in it and the paths.\<close>

lemma handlers_cleanup:
  assumes "if_live (w_if w e)"
  shows "\<exists>p. each_ignore (\<lambda>h. if_handler_callback h (h_cleanup h) e) (register_handlers J teamds env) w =
      Some (upd_if e (\<lambda>i. i\<lparr>i_private := p, i_pci_path := None, i_pci_physfn_path := None\<rparr>) w) \<and>
    free_ptr p = free_ptr (i_private (w_if w e))"
proof -
  let ?f = "\<lambda>h. if_handler_callback h (h_cleanup h) e"
  have r: "if_handler_callback h c e v = (if driver_match h (w_if v e) then handler_callback c e v else Some (0, v))" for h c v
    by (simp add: if_handler_callback_def branch_def return_err_def)
  have "\<exists>err. ?f h v = Some (err, v)" if "\<not> h_cleanup h \<noteq> None" for h v
    using that by (simp add: r handler_callback_def return_err_def)
  note eq = each_ignore_filter [where p = "\<lambda>h. h_cleanup h \<noteq> None" and f = ?f and xs = "register_handlers J teamds env" and w = w, OF this,
      unfolded cleaning_handlers]
  note defs = h_bond_def h_iov_def h_team_def no_handler_def handler_callback_def driver_match_def iov_cleanup_def assign_def upd_if_def
  consider b where "i_driver (w_if w e) = Some ''bonding''" "i_private (w_if w e) = Ptr (BondPriv b)"
    | p where "i_driver (w_if w e) = Some ''team''" "i_private (w_if w e) = Ptr (TeamPriv p)"
    | "i_driver (w_if w e) \<noteq> Some ''bonding''" "i_driver (w_if w e) \<noteq> Some ''team''"
    using assms by (auto simp: if_live_def)
  then show ?thesis
  proof cases
    case (1 b)
    then have "each_ignore ?f [h_bond env, h_iov env, h_team J teamds] w =
        Some (upd_if e (\<lambda>i. i\<lparr>i_private := Ptr (BondPriv (b\<lparr>bp_active_slave_name := None\<rparr>)), i_pci_path := None, i_pci_physfn_path := None\<rparr>) w)"
      by (simp add: r defs bond_cleanup_def with_bond_def set_bond_def reading_def)
    with 1 eq show ?thesis by force
  next
    case (2 p)
    have c: "i\<lparr>i_pci_path := None, i_pci_physfn_path := None, i_private := x\<rparr> = i\<lparr>i_private := x, i_pci_path := None, i_pci_physfn_path := None\<rparr>"
      for i :: if_entry and x by (cases i) simp
    from 2 have "each_ignore ?f [h_bond env, h_iov env, h_team J teamds] w =
        Some (upd_if e (\<lambda>i. i\<lparr>i_private := Ptr (TeamPriv None), i_pci_path := None, i_pci_physfn_path := None\<rparr>) w)"
      by (simp add: r defs team_cleanup_def with_team_def reading_def c)
    with 2 eq show ?thesis by force
  next
    case 3
    then have "each_ignore ?f [h_bond env, h_iov env, h_team J teamds] w =
        Some (upd_if e (\<lambda>i. i\<lparr>i_private := i_private i, i_pci_path := None, i_pci_physfn_path := None\<rparr>) w)"
      by (simp add: r defs)
    moreover have "upd_if e (\<lambda>i. i\<lparr>i_private := i_private i, i_pci_path := None, i_pci_physfn_path := None\<rparr>) w =
        upd_if e (\<lambda>i. i\<lparr>i_private := i_private (w_if w e), i_pci_path := None, i_pci_physfn_path := None\<rparr>) w"
      by (simp add: upd_if_def)
    ultimately show ?thesis using eq by (intro exI [of _ "i_private (w_if w e)"]) simp
  qed
qed

lemma destruct_ok:
  assumes "if_live (w_if w e)"
  shows "\<exists>f. if_list_destruct (register_handlers J teamds env) e w = Some (0, upd_if e f w) \<and> if_freed (w_if w e) (f (w_if w e))"
proof -
  let ?i = "w_if w e"
  have live: "i_private ?i \<noteq> BadPtr" "mac_raw (i_mac_addr ?i) \<noteq> BadPtr" "mac_formatted (i_mac_addr ?i) \<noteq> BadPtr"
    "list_all (\<lambda>a. addr_live (ia_addr a) \<and> addr_live (ia_peer a)) (i_addr ?i)"
    using assms by (simp_all add: if_live_def)
  from free_ptr_ok [OF live(1)] obtain p where p: "free_ptr (i_private ?i) = Some p" by blast
  from free_ptr_ok [OF live(2)] free_ptr_ok [OF live(3)] obtain r f where
    "free_ptr (mac_raw (i_mac_addr ?i)) = Some r" "free_ptr (mac_formatted (i_mac_addr ?i)) = Some f" by blast
  then obtain mac where m: "mac_addr_destruct (i_mac_addr ?i) = Some mac" by (simp add: mac_addr_destruct_def)
  have "\<exists>as. those (map if_addr_destruct as') = Some as" if "set as' \<subseteq> set (i_addr ?i)" for as'
    using that
  proof (induction as')
    case (Cons a as')
    with live(4) have "addr_live (ia_addr a)" "addr_live (ia_peer a)" by (auto simp: list_all_iff)
    with addr_destruct_ok obtain x y where "addr_destruct (ia_addr a) = Some x" "addr_destruct (ia_peer a) = Some y" by blast
    with Cons show ?case by (auto simp: if_addr_destruct_def)
  qed simp
  from this [of "rev (i_addr ?i)"] obtain as where as: "those (map if_addr_destruct (rev (i_addr ?i))) = Some as" by auto
  from handlers_cleanup [OF assms] obtain q where
    c: "each_ignore (\<lambda>h. if_handler_callback h (h_cleanup h) e) (register_handlers J teamds env) w =
      Some (upd_if e (\<lambda>i. i\<lparr>i_private := q, i_pci_path := None, i_pci_physfn_path := None\<rparr>) w)" and "free_ptr q = Some p"
    unfolding p by blast
  let ?f = "\<lambda>i. i\<lparr>i_pci_path := None, i_pci_physfn_path := None, i_private := p, i_internal_ns := None, i_name := [], i_driver := None,
    i_sub_driver := None, i_properties := [], i_mac_addr := mac, i_addr := [], i_xdp := [], i_edge_label := None\<rparr>"
  have "if_list_destruct (register_handlers J teamds env) e w = Some (0, upd_if e ?f w)"
    using m as \<open>free_ptr q = Some p\<close> by (auto simp: if_list_destruct_def ignoring_def if_handler_cleanup_def c free_private_def
        reading_def assign_def Let_def upd_if_def)
  moreover have "if_freed ?i (?f ?i)" using p m as by (simp add: if_freed_def)
  ultimately show ?thesis by blast
qed

lemma destruct_list:
  assumes "distinct es" and "\<And>e. e \<in> set es \<Longrightarrow> if_live (w_if w e)"
  shows "\<exists>v. each_act (if_list_destruct (register_handlers J teamds env)) es w = Some (0, v) \<and> w_ns v = w_ns w \<and>
    w_list v = w_list w \<and> w_ovs v = w_ovs w \<and> freed_in (set es) w v"
  using assms
proof (induction es arbitrary: w)
  case (Cons e es)
  then have "if_live (w_if w e)" by simp
  from destruct_ok [OF this] obtain f where
    f: "if_list_destruct (register_handlers J teamds env) e w = Some (0, upd_if e f w)" "if_freed (w_if w e) (f (w_if w e))" by blast
  have "if_live (w_if (upd_if e f w) x)" if "x \<in> set es" for x
    using Cons.prems that by (cases "x = e") auto
  with Cons.IH [of "upd_if e f w"] Cons.prems(1) obtain v where
    v: "each_act (if_list_destruct (register_handlers J teamds env)) es (upd_if e f w) = Some (0, v)" "w_ns v = w_ns w"
    "w_list v = w_list w" "w_ovs v = w_ovs w"
    "freed_in (set es) (upd_if e f w) v" by auto
  from f(1) v(1) have "each_act (if_list_destruct (register_handlers J teamds env)) (e # es) w = Some (0, v)"
    by (simp add: andthen_def)
  moreover have "freed_in {e} w (upd_if e f w)" using f(2) by (simp add: freed_in_def)
  then have "freed_in (set (e # es)) w v" using freed_trans [OF _ v(5), of "{e}" w] Cons.prems(1) by simp
  ultimately show ?case using v(2-4) by auto
qed (simp add: ok_act_def freed_none)

lemma netns_destruct:
  assumes "distinct (n_ifaces (w_ns w n))" and "\<And>e. e \<in> set (n_ifaces (w_ns w n)) \<Longrightarrow> if_live (w_if w e)" and "\<not> literal_name (w_ns w n)"
  shows "\<exists>v. netns_list_destruct (register_handlers J teamds env) (register_netns_handlers env sks) n w = Some (0, v) \<and>
    w_list v = w_list w \<and> w_ovs v = w_ovs w \<and> ns_freed (w_ns v n) \<and> (\<forall>m. m \<noteq> n \<longrightarrow> w_ns v m = w_ns w m) \<and>
    freed_in (set (n_ifaces (w_ns w n))) w v"
proof -
  define u where "u = upd_ns n (\<lambda>s. s\<lparr>n_rtables := [], n_ids := []\<rparr>) w"
  have u: "w_if u = w_if w" "w_list u = w_list w" "w_ovs u = w_ovs w" "n_ifaces (w_ns u n) = n_ifaces (w_ns w n)"
    "m \<noteq> n \<Longrightarrow> w_ns u m = w_ns w m" for m
    by (simp_all add: u_def)
  have un: "n_rtables (w_ns u n) = []" "n_ids (w_ns u n) = []" "\<not> literal_name ((w_ns u n)\<lparr>n_ifaces := []\<rparr>)"
    using assms(3) by (simp_all add: u_def literal_name_def)
  have "distinct (rev (n_ifaces (w_ns u n)))" "\<And>e. e \<in> set (rev (n_ifaces (w_ns u n))) \<Longrightarrow> if_live (w_if u e)"
    using assms(1,2) by (simp_all add: u)
  from destruct_list [OF this, where J = J and teamds = teamds and env = env] obtain v where v:
    "each_act (if_list_destruct (register_handlers J teamds env)) (rev (n_ifaces (w_ns u n))) u = Some (0, v)"
    "w_ns v = w_ns u" "w_list v = w_list w" "w_ovs v = w_ovs w"
    "freed_in (set (n_ifaces (w_ns w n))) w v"
    by (auto simp: u freed_cong [OF u(1) refl])
  have c: "netns_handler_cleanup (register_netns_handlers env sks) n w = Some (upd_ns n (\<lambda>s. s\<lparr>n_rtables := []\<rparr>) w)"
    by (simp add: netns_handler_cleanup_def register_netns_handlers_def netns_handler_register_def h_route_def
        handler_callback_def route_cleanup_def assign_def)
  have d: "upd_ns n (\<lambda>s. s\<lparr>n_ids := []\<rparr>) (upd_ns n (\<lambda>s. s\<lparr>n_rtables := []\<rparr>) w) = u"
    by (simp add: u_def upd_ns_def)
  let ?v = "upd_ns n (\<lambda>s. s\<lparr>n_name := None\<rparr>) (upd_ns n (\<lambda>s. s\<lparr>n_ifaces := []\<rparr>) v)"
  have "netns_list_destruct (register_handlers J teamds env) (register_netns_handlers env sks) n w = Some (0, ?v)"
    using v(1,2) un(3) by (simp add: netns_list_destruct_def c d andthen_def assign_def if_list_free_def reading_def branch_def)
  moreover have "ns_freed (w_ns ?v n)" using un by (simp add: ns_freed_def v(2))
  ultimately show ?thesis
    using v u(5) freed_cong [of w w ?v v] by (intro exI [of _ ?v]) simp
qed

lemma distinct_concat_rev: "distinct (concat (rev xss)) = distinct (concat xss)"
  by (induction xss) auto

text \<open>
  The list of name spaces is freed without touching freed memory: when every interface is
  in one list only, once, and its private structure is alive and of its driver's kind, freeing
  returns; no name space is listed any more, every one that was and all their interfaces have
  been freed, and nothing else was touched.
\<close>

lemma netns_list_free_result:
  assumes "distinct (w_list w)" and "distinct (all_ifs w)" and "\<And>e. e \<in> set (all_ifs w) \<Longrightarrow> if_live (w_if w e)"
    and "\<And>n. n \<in> set (w_list w) \<Longrightarrow> \<not> literal_name (w_ns w n)"
  shows "\<exists>v. netns_list_free (register_handlers J teamds env) (register_netns_handlers env sks) w = Some (0, v) \<and>
    w_list v = [] \<and> w_ovs v = w_ovs w \<and> (\<forall>n \<in> set (w_list w). ns_freed (w_ns v n)) \<and>
    freed_in (set (all_ifs w)) w v"
proof -
  let ?d = "netns_list_destruct (register_handlers J teamds env) (register_netns_handlers env sks)"
  let ?es = "\<lambda>w ns. concat (map (\<lambda>n. n_ifaces (w_ns w n)) ns)"
  have "\<exists>v. each_act ?d ns w = Some (0, v) \<and> w_ovs v = w_ovs w \<and> (\<forall>n \<in> set ns. ns_freed (w_ns v n)) \<and>
      (\<forall>m. m \<notin> set ns \<longrightarrow> w_ns v m = w_ns w m) \<and>
      freed_in (set (?es w ns)) w v"
    if "distinct ns" "distinct (?es w ns)" "\<And>n. n \<in> set ns \<Longrightarrow> \<not> literal_name (w_ns w n)"
      "\<And>n e. n \<in> set ns \<Longrightarrow> e \<in> set (n_ifaces (w_ns w n)) \<Longrightarrow> if_live (w_if w e)" for ns w
    using that
  proof (induction ns arbitrary: w)
    case (Cons n ns)
    have "distinct (n_ifaces (w_ns w n))" "\<And>e. e \<in> set (n_ifaces (w_ns w n)) \<Longrightarrow> if_live (w_if w e)" "\<not> literal_name (w_ns w n)"
      using Cons.prems(2,3) Cons.prems(4) [of n] by simp_all
    from netns_destruct [OF this, where J = J and teamds = teamds and env = env and sks = sks] obtain u where
      u: "?d n w = Some (0, u)" "w_ovs u = w_ovs w" "ns_freed (w_ns u n)" "\<And>m. m \<noteq> n \<Longrightarrow> w_ns u m = w_ns w m"
      "freed_in (set (n_ifaces (w_ns w n))) w u" by blast
    have same: "w_ns u m = w_ns w m" if "m \<in> set ns" for m using Cons.prems(1) that by (intro u(4)) auto
    then have es: "?es u ns = ?es w ns" by (intro arg_cong [of _ _ concat] map_cong refl) simp
    have "\<exists>v. each_act ?d ns u = Some (0, v) \<and> w_ovs v = w_ovs u \<and> (\<forall>n \<in> set ns. ns_freed (w_ns v n)) \<and>
        (\<forall>m. m \<notin> set ns \<longrightarrow> w_ns v m = w_ns u m) \<and>
        freed_in (set (?es u ns)) u v"
    proof (rule Cons.IH)
      show "distinct ns" "distinct (?es u ns)" using Cons.prems(1,2) by (simp_all add: es)
      show "\<not> literal_name (w_ns u k)" if "k \<in> set ns" for k using Cons.prems(3) same [OF that] that by simp
      fix k e assume k: "k \<in> set ns" "e \<in> set (n_ifaces (w_ns u k))"
      with same have e: "e \<in> set (n_ifaces (w_ns w k))" by simp
      with Cons.prems(2) k(1) have "e \<notin> set (n_ifaces (w_ns w n))" by auto
      with u(5) Cons.prems(4) [of k e] k(1) e show "if_live (w_if u e)" by (simp add: freed_in_def)
    qed
    then obtain v where v: "each_act ?d ns u = Some (0, v)" "w_ovs v = w_ovs u" "\<forall>n \<in> set ns. ns_freed (w_ns v n)"
      "\<forall>m. m \<notin> set ns \<longrightarrow> w_ns v m = w_ns u m"
      "freed_in (set (?es w ns)) u v"
      unfolding es by blast
    from u(1) v(1) have "each_act ?d (n # ns) w = Some (0, v)" by (simp add: andthen_def)
    moreover have "w_ns v n = w_ns u n" using v(4) Cons.prems(1) by simp
    moreover have "freed_in (set (?es w (n # ns))) w v"
      using freed_trans [OF u(5) v(5)] Cons.prems(2) by simp
    ultimately show ?case using v(2,3,4) u(2,3,4) by (intro exI [of _ v] conjI) auto
  qed (simp add: ok_act_def freed_none)
  note all = this
  have "distinct (?es w (rev (w_list w)))"
    using assms(2) unfolding all_ifs_def rev_map [symmetric] distinct_concat_rev .
  moreover have "if_live (w_if w e)" if "n \<in> set (rev (w_list w))" "e \<in> set (n_ifaces (w_ns w n))" for n e
    using that by (intro assms(3)) (auto simp: all_ifs_def)
  ultimately obtain v where v: "each_act ?d (rev (w_list w)) w = Some (0, v)" "w_ovs v = w_ovs w"
    "\<forall>n \<in> set (rev (w_list w)). ns_freed (w_ns v n)"
    "freed_in (set (?es w (rev (w_list w)))) w v"
    using all [of "rev (w_list w)" w] assms(1,4) by (auto simp del: set_rev simp: set_rev [of "w_list w"])
  have es: "set (?es w (rev (w_list w))) = set (all_ifs w)" by (auto simp: all_ifs_def)
  have "netns_list_free (register_handlers J teamds env) (register_netns_handlers env sks) w = Some (0, v\<lparr>w_list := []\<rparr>)"
    using v(1) by (simp add: netns_list_free_def andthen_def reading_def assign_def)
  moreover have "freed_in (set (all_ifs w)) w (v\<lparr>w_list := []\<rparr>)"
    using v(4) freed_cong [of w w "v\<lparr>w_list := []\<rparr>" v] unfolding es by simp
  ultimately show ?thesis using v(2,3) by (intro exI [of _ "v\<lparr>w_list := []\<rparr>"]) simp
qed

end
