(* ===== verification/MainProg.thy ===== *)
theory MainProg
  imports Cleanup Dot Json Frontend
begin

text \<open>
  The main program (\<open>main.c\<close>): its options, the check of the capabilities, and the order of
  the phases with the exit codes.
\<close>

section \<open>What the program runs in\<close>

text \<open>
  Besides the kernel's and the handlers' surroundings: the files, the results of \<open>capget\<close> for a
  version of the call (its result and the first word of effective capabilities), the JSON
  library, the addresses of structures, the version of the build and the text of \<open>ctime\<close>.
\<close>

record ('i, 'o, 'j) system =
  sy_kernel :: kernel
  sy_around :: "'i surroundings"
  sy_ovs :: "'o ovs_env"
  sy_files :: files
  sy_capget :: "u32 \<Rightarrow> int \<times> u32"
  sy_json :: "'j json_writer"
  sy_adr :: "ifp \<Rightarrow> nat"
  sy_version :: string
  sy_date :: string

section \<open>Front ends and options\<close>

definition fe_dot :: "(ifp \<Rightarrow> nat) \<Rightarrow> string \<Rightarrow> string \<Rightarrow> frontend" where
  "fe_dot adr version date = \<lparr>fe_format = ''dot'', fe_desc = ''dot language (suitable for graphviz)'',
     fe_output = dot_output adr version date\<rparr>"

definition fe_json :: "'j json_writer \<Rightarrow> string \<Rightarrow> string \<Rightarrow> frontend" where
  "fe_json B version date = \<lparr>fe_format = ''json'', fe_desc = ''JSON, see plotnetcfg-json(5)'',
     fe_output = json_output B version date\<rparr>"

definition register_frontends :: "('i, 'o, 'j) system \<Rightarrow> frontend list" where
  "register_frontends sys =
     frontend_register (fe_json (sy_json sys) (sy_version sys) (sy_date sys))
       (frontend_register (fe_dot (sy_adr sys) (sy_version sys) (sy_date sys)) [])"

text \<open>\<open>help\<close> is the text \<open>arg_get_help\<close> makes of the registered options.\<close>

definition print_help :: "string list \<Rightarrow> string option \<Rightarrow> fact" where
  "print_help help _ =
     andthen (print_out (''Usage: plotnetcfg [OPTION]...'' @ [CHR 0x0A, CHR 0x0A]))
    (andthen (\<lambda>s. let (ok, s) = fs_alloc s in each_act (\<lambda>l. print_out (l @ [CHR 0x0A])) (if ok then help else []) s)
       (return_err 1))"

definition print_version :: "string \<Rightarrow> string option \<Rightarrow> fact" where
  "print_version version _ = andthen (print_out (version @ [CHR 0x0A])) (return_err 1)"

definition main_options :: "string list \<Rightarrow> string \<Rightarrow> fe_state arg_option list" where
  "main_options help version =
     [\<lparr>long_name = Some ''help'', short_name = Some CHR ''h'', has_arg = 0, arg_kind = ARG_CALLBACK,
       action = Callback (print_help help), help_text = ''print help and exit''\<rparr>,
      \<lparr>long_name = Some ''version'', short_name = None, has_arg = 0, arg_kind = ARG_CALLBACK,
       action = Callback (print_version version), help_text = ''print version and exit''\<rparr>]"

text \<open>
  The option of the Open vSwitch handler, registered with the handlers: the path of the
  database, a copy of the argument, NULL when it cannot be copied.
\<close>

definition OVS_DB_DEFAULT :: string where
  "OVS_DB_DEFAULT = ''/var/run/openvswitch/db.sock''"

definition ovs_options :: "fe_state arg_option list" where
  "ovs_options =
     [\<lparr>long_name = Some ''ovs-db'', short_name = Some CHR ''D'', has_arg = 1, arg_kind = ARG_CHAR,
       action = CharVar (\<lambda>v s. s\<lparr>fs_db := v\<rparr>), help_text = ''path to openvswitch database''\<rparr>]"

definition handler_openvswitch_register :: "fe_state arg_option list \<Rightarrow> fe_state \<Rightarrow> fe_state arg_option list \<times> fe_state" where
  "handler_openvswitch_register opts s = (arg_register_batch ovs_options opts, s\<lparr>fs_db := Ptr OVS_DB_DEFAULT\<rparr>)"

definition registered_options :: "frontend list \<Rightarrow> string list \<Rightarrow> string \<Rightarrow> fe_state \<Rightarrow> fe_state arg_option list \<times> fe_state" where
  "registered_options fes help version =
     handler_openvswitch_register (frontend_init fes (arg_register_batch (main_options help version) []))"

text \<open>The help text does not depend on the actions, so it can be made of the options with any help text.\<close>

definition all_options :: "frontend list \<Rightarrow> string \<Rightarrow> fe_state arg_option list" where
  "all_options fes version =
     fst (registered_options fes (arg_get_help (fst (registered_options fes [] version (fe_state0 []))) True) version (fe_state0 []))"

text \<open>The state after the registrations.\<close>

definition main_state0 :: "mem \<Rightarrow> fe_state" where
  "main_state0 m = snd (registered_options [] [] [] (fe_state0 m))"

section \<open>The program\<close>

definition CAP_V3 :: u32 where "CAP_V3 = 0x20080522"
definition CAP_V1 :: u32 where "CAP_V1 = 0x19980330"

definition check_caps :: "(u32 \<Rightarrow> int \<times> u32) \<Rightarrow> bool" where
  "check_caps capget =
     (let (err, effective) = capget CAP_V3;
          (err, effective) = (if err = - EINVAL then capget CAP_V1 else (err, effective)) in
      err \<ge> 0 \<and> effective AND push_bit 21 1 \<noteq> 0 \<and> effective AND push_bit 12 1 \<noteq> 0)"

definition exit_with :: "int \<Rightarrow> string \<Rightarrow> fe_state \<Rightarrow> (int \<times> fe_state) option" where
  "exit_with code msg s = andthen (print_err (msg @ [CHR 0x0A])) (return_err code) s"

text \<open>Everything is freed; the result is the exit code, what is left of the lists, and the state.\<close>

definition finish :: "('i, 'o, 'j) system \<Rightarrow> int \<Rightarrow> world \<Rightarrow> fe_state \<Rightarrow> (int \<times> world \<times> fe_state) option" where
  "finish sys cur w s = do {
     w \<leftarrow> global_handler_cleanup (register_global_handlers (sy_ovs sys)) w;
     (_, w) \<leftarrow> netns_list_free (su_handlers (sy_around sys) cur)
       (register_netns_handlers (su_env (sy_around sys) cur) (\<lambda>_. su_routes (sy_around sys) cur)) w;
     Some (0, w, frontend_cleanup s) }"

text \<open>The phases after the command line, from the switch to the root name space to the outputs.\<close>

definition main_run :: "('i, 'o, 'j) system \<Rightarrow> int \<Rightarrow> fe_state \<Rightarrow> (int \<times> fe_state) option" where
  "main_run sys cur s = do {
     let (netns_ok, cur) = netns_switch_root (sy_kernel sys) cur;
     let ghs = register_global_handlers ((sy_ovs sys)\<lparr>oe_db := fs_db s\<rparr>);
     if netns_ok > 0 then exit_with 1 (''Cannot change to the root name space: '' @ k_strerror (sy_kernel sys) netns_ok) s
     else do {
       (err, w) \<leftarrow> global_handler_init ghs (world_of [] (fs_mem s) ovs_state0);
       if err \<noteq> 0 then exit_with 1 (''Initialization failed: '' @ k_strerror (sy_kernel sys) err) (s\<lparr>fs_mem := w_mem w\<rparr>)
       else do {
         (err, mt, w) \<leftarrow> netns_fill_list (sy_kernel sys) (sy_around sys) ghs (netns_ok = 0) (w_ovs w)
           \<lparr>s_list = [], s_cur = cur, s_mem = w_mem w\<rparr> (fs_mounts s);
         let s = s\<lparr>fs_mem := w_mem w, fs_mounts := mt\<rparr>;
         if err \<noteq> 0 then exit_with 1 (''ERROR: '' @ k_strerror (sy_kernel sys) err) s
         else do {
           (err, s) \<leftarrow> frontend_output (sy_files sys) (register_frontends sys) w s;
           if err \<noteq> 0 then exit_with 1 ''Invalid output format specified.'' s
           else do { (err, w, s) \<leftarrow> finish sys cur w s; Some (err, s) } } } } }"

definition main_start :: "('i, 'o, 'j) system \<Rightarrow> string list \<Rightarrow> int \<Rightarrow> mem \<Rightarrow> (int \<times> fe_state) option" where
  "main_start sys argv cur m = do {
     (err, s) \<leftarrow> arg_parse fs_alloc (all_options (register_frontends sys) (sy_version sys)) argv (main_state0 m);
     if err \<noteq> 0 then Some (err, s)
     else if \<not> check_caps (sy_capget sys) then exit_with 1 ''Must be run under root (or with enough capabilities).'' s
     else main_run sys cur s }"

text \<open>Every end of the program, by \<open>exit\<close> or by return from \<open>main\<close>, runs what was registered with \<open>atexit\<close>.\<close>

definition run_atexit :: "kernel \<Rightarrow> mount_state \<Rightarrow> mount_state" where
  "run_atexit K = at_exit (k_umount K) (k_stat K) (k_rmdir K)"

definition main_prog :: "('i, 'o, 'j) system \<Rightarrow> string list \<Rightarrow> int \<Rightarrow> mem \<Rightarrow> (int \<times> fe_state) option" where
  "main_prog sys argv cur m = do {
     (code, s) \<leftarrow> main_start sys argv cur m;
     Some (code, s\<lparr>fs_mounts := run_atexit (sy_kernel sys) (fs_mounts s)\<rparr>) }"

section \<open>What the command line keeps\<close>

text \<open>A property of neither what has been written nor of the mount is kept by most of the options.\<close>

definition steady :: "(fe_state \<Rightarrow> bool) \<Rightarrow> bool" where
  "steady P \<longleftrightarrow> (\<forall>s. P s \<longrightarrow> (\<forall>m. P (s\<lparr>fs_mem := m\<rparr>)) \<and> (\<forall>os. P (s\<lparr>fs_outputs := os\<rparr>)) \<and> (\<forall>b. P (s\<lparr>fs_used_default := b\<rparr>)) \<and>
     (\<forall>es. P (s\<lparr>fs_errors := es\<rparr>)) \<and> (\<forall>d. P (s\<lparr>fs_db := d\<rparr>)))"

lemma steady_fields: "steady (\<lambda>s. fs_written s = x)" "steady (\<lambda>s. fs_mounts s = y)"
  by (simp_all add: steady_def)

lemma steadyD:
  assumes "steady P" and "P s"
  shows "P (s\<lparr>fs_mem := m\<rparr>)" "P (s\<lparr>fs_outputs := os\<rparr>)" "P (s\<lparr>fs_used_default := b\<rparr>)" "P (s\<lparr>fs_errors := es\<rparr>)" "P (s\<lparr>fs_db := d\<rparr>)"
  using assms unfolding steady_def by blast+

lemma alloc_steady:
  assumes "steady P" and "P s" and "fs_alloc s = (ok, v)"
  shows "P v"
  using assms(3) steadyD(1) [OF assms(1,2)] by (auto simp: fs_alloc_def Let_def split: prod.splits)

lemma keeps_allocating: "steady P \<Longrightarrow> keeps P f \<Longrightarrow> keeps P (allocating f)"
proof (rule keepsI)
  fix s e s' assume P: "steady P" "keeps P f" "P s" and r: "allocating f s = Some (e, s')"
  obtain ok v where a: "fs_alloc s = (ok, v)" by (cases "fs_alloc s")
  note v = alloc_steady [OF P(1,3) a]
  show "P s'"
  proof (cases ok)
    case True
    with r a have "f v = Some (e, s')" by (simp add: allocating_def)
    then show ?thesis by (rule keepsD [OF P(2) v])
  next
    case False
    with r a v show ?thesis by (simp add: allocating_def)
  qed
qed

lemma keeps_upd_head: "steady P \<Longrightarrow> keeps P (upd_head f)"
  unfolding steady_def by (rule keepsI) (auto simp: upd_head_def split: list.splits)

lemma keeps_add_output: "steady P \<Longrightarrow> keeps P (add_output fmt)"
  unfolding add_output_def by (intro keeps_allocating keeps_assign) (simp_all add: steady_def)

lemma keeps_require_format: "steady P \<Longrightarrow> keeps P require_format"
  unfolding require_format_def by (intro keeps_branch keeps_andthen keeps_add_output keeps_assign keeps_return_err) (simp_all add: steady_def)

lemma keeps_print_err: "steady P \<Longrightarrow> keeps P (print_err t)"
  unfolding print_err_def by (rule keeps_assign) (simp add: steady_def)

lemma keeps_set_output:
  assumes P: "steady P"
  shows "keeps P (set_output arg)"
proof -
  have "keeps P (\<lambda>s. let (ok, s) = fs_alloc s in
      andthen (upd_head (\<lambda>h. h\<lparr>out_file := (if ok then Some f else None)\<rparr>)) (return_err (if ok then 0 else ENOMEM)) s)" for f
  proof (rule keepsI)
    fix s e s' assume s: "P s" and r: "(let (ok, s) = fs_alloc s in
      andthen (upd_head (\<lambda>h. h\<lparr>out_file := (if ok then Some f else None)\<rparr>)) (return_err (if ok then 0 else ENOMEM)) s) = Some (e, s')"
    obtain ok v where a: "fs_alloc s = (ok, v)" by (cases "fs_alloc s")
    with r have "andthen (upd_head (\<lambda>h. h\<lparr>out_file := (if ok then Some f else None)\<rparr>)) (return_err (if ok then 0 else ENOMEM)) v = Some (e, s')"
      by simp
    then show "P s'" by (rule keepsD [OF keeps_andthen [OF keeps_upd_head [OF P] keeps_return_err] alloc_steady [OF P s a]])
  qed
  then show ?thesis
    unfolding set_output_def using P
    by (intro keeps_andthen keeps_require_format keeps_branch keeps_reading keeps_add_output keeps_ok keeps_option keeps_crash)
qed

definition callbacks :: "frontend list \<Rightarrow> string \<Rightarrow> (string option \<Rightarrow> fact) set" where
  "callbacks fes version = {add_format, set_output, set_nostate, print_formats fes, print_version version} \<union> range print_help"

lemma setting_steady:
  assumes P: "steady P"
  shows "keeps P (add_format arg)" "keeps P (set_output arg)" "keeps P (set_nostate arg)"
proof -
  show "keeps P (add_format arg)"
    unfolding add_format_def using P
    by (intro keeps_branch keeps_andthen keeps_print_err keeps_return_err keeps_option keeps_crash keeps_add_output)
  show "keeps P (set_nostate arg)"
    unfolding set_nostate_def using P by (intro keeps_andthen keeps_require_format keeps_upd_head keeps_return_err)
qed (rule keeps_set_output [OF P])

text \<open>What only prints never returns 0, and does not touch the mount.\<close>

lemma never_0: "keeps0 P (andthen f (andthen g (return_err 1)))"
  by (rule keeps0I) (simp add: andthen_0 return_err_def)

lemma callback_written:
  assumes "f \<in> callbacks fes version"
  shows "keeps0 (\<lambda>s. fs_written s = x) (f arg)"
proof -
  have "keeps0 (\<lambda>s. fs_written s = x) (print_version version arg)"
    unfolding print_version_def by (rule keeps0I) (simp add: andthen_0 return_err_def)
  then show ?thesis
    using assms setting_steady [OF steady_fields(1)] never_0
    by (auto simp: callbacks_def print_formats_def print_help_def intro: keeps_keeps0)
qed

lemma callback_mounts:
  assumes "f \<in> callbacks fes version"
  shows "keeps (\<lambda>s. fs_mounts s = x) (f arg)"
proof -
  let ?P = "\<lambda>s. fs_mounts s = x"
  have p: "keeps ?P (print_out t)" for t unfolding print_out_def by (rule keeps_assign) simp
  have "keeps ?P (\<lambda>s. let (ok, s) = fs_alloc s in each_act (\<lambda>l. print_out (l @ [CHR 0x0A])) (if ok then ht else []) s)" for ht
  proof (rule keepsI)
    fix s e s' assume s: "?P s" and r: "(let (ok, s) = fs_alloc s in each_act (\<lambda>l. print_out (l @ [CHR 0x0A])) (if ok then ht else []) s) = Some (e, s')"
    obtain ok v where a: "fs_alloc s = (ok, v)" by (cases "fs_alloc s")
    with r have "each_act (\<lambda>l. print_out (l @ [CHR 0x0A])) (if ok then ht else []) v = Some (e, s')" by simp
    then show "?P s'" by (rule keepsD [OF keeps_each [OF p] alloc_steady [OF steady_fields(2) s a]])
  qed
  then have "keeps ?P (print_help ht arg)" for ht
    unfolding print_help_def by (intro keeps_andthen p keeps_return_err)
  moreover have "keeps ?P (print_version version arg)" "keeps ?P (print_formats fes arg)"
    unfolding print_version_def print_formats_def by (intro keeps_andthen keeps_each p keeps_return_err)+
  ultimately show ?thesis
    using assms setting_steady [OF steady_fields(2)] by (auto simp: callbacks_def)
qed

lemma all_options_list: "\<exists>help. all_options fes version = main_options help version @ frontend_options fes @ ovs_options"
proof -
  have a: "foldl (\<lambda>opts x. arg_register x opts) opts batch = opts @ batch" for opts and batch :: "fe_state arg_option list"
    by (induction batch arbitrary: opts) (simp_all add: arg_register_def)
  show ?thesis
    by (auto simp: all_options_def registered_options_def handler_openvswitch_register_def frontend_init_def arg_register_batch_def a)
qed

lemma main_state0_eq: "main_state0 m = (fe_state0 m)\<lparr>fs_db := Ptr OVS_DB_DEFAULT\<rparr>"
  by (simp add: main_state0_def registered_options_def handler_openvswitch_register_def)

lemma option_cases:
  assumes "ao \<in> set (all_options fes version)"
  shows "(\<exists>f \<in> callbacks fes version. arg_kind ao = ARG_CALLBACK \<and> action ao = Callback f) \<or>
    arg_kind ao = ARG_CHAR \<and> action ao = CharVar (\<lambda>v s. s\<lparr>fs_db := v\<rparr>)"
proof -
  obtain h where o: "all_options fes version = main_options h version @ frontend_options fes @ ovs_options" using all_options_list by blast
  from assms consider "ao \<in> set (main_options h version)" | "ao \<in> set (frontend_options fes)" | "ao \<in> set ovs_options" unfolding o by auto
  then show ?thesis
  proof cases
    case 1
    then show ?thesis by (auto simp: main_options_def callbacks_def)
  next
    case 2
    then show ?thesis by (auto simp: frontend_options_def callbacks_def)
  next
    case 3
    then show ?thesis by (simp add: ovs_options_def)
  qed
qed

text \<open>The effect of the option that stores the path.\<close>

definition set_db :: "string \<Rightarrow> fact" where
  "set_db v s = (let (ok, s) = fs_alloc s in Some (0, s\<lparr>fs_db := (if ok then Ptr v else NullPtr)\<rparr>))"

lemma keeps_set_db:
  assumes "steady P"
  shows "keeps P (set_db v)"
proof (rule keepsI)
  fix s e s' assume s: "P s" and r: "set_db v s = Some (e, s')"
  obtain ok u where a: "fs_alloc s = (ok, u)" by (cases "fs_alloc s")
  from r a have "s' = u\<lparr>fs_db := (if ok then Ptr v else NullPtr)\<rparr>" by (simp add: set_db_def)
  then show "P s'" using steadyD(5) [OF assms alloc_steady [OF assms s a]] by simp
qed

text \<open>What is closed under sequence and holds of the parts holds of what the options do.\<close>

lemma run_opts_shape:
  assumes at: "\<And>f g. Q f \<Longrightarrow> Q g \<Longrightarrow> Q (andthen f g)" and r: "Q (return_err 0)" "Q (return_err 1)" "Q crash" "Q ok_act"
    and cb: "\<And>f arg. f \<in> callbacks fes version \<Longrightarrow> Q (f arg)" and db: "\<And>v. Q (set_db v)"
  shows "Q (run_opts fs_alloc (all_options fes version) gs)"
proof (induction gs)
  case (Cons g gs)
  have "Q (run_opt fs_alloc ao arg)" if "ao \<in> set (all_options fes version)" for ao arg
    using option_cases [OF that]
  proof (elim disjE bexE conjE)
    assume a: "arg_kind ao = ARG_CHAR" "action ao = CharVar (\<lambda>v s. s\<lparr>fs_db := v\<rparr>)"
    have "(\<lambda>s. let (ok, s) = fs_alloc s in Some (0, s\<lparr>fs_db := (if ok then Ptr v else NullPtr)\<rparr>)) = set_db v" for v
      by (rule ext) (simp add: set_db_def)
    with a db at r show ?thesis by (simp add: run_opt_def split: option.split)
  qed (use at cb r in \<open>simp add: run_opt_def split: option.split\<close>)
  then show ?case
    using Cons at r by (auto simp: find_opt_def split: option.split got.splits dest: find_Some_in)
qed (simp add: r)

lemma args_written:
  assumes "arg_parse fs_alloc (all_options fes version) argv (main_state0 m) = Some (0, s)"
  shows "fs_written s = []"
proof -
  let ?P = "\<lambda>s. fs_written s = []"
  obtain ok v ok' u where a: "fs_alloc (main_state0 m) = (ok, v)" "fs_alloc v = (ok', u)" by (metis surj_pair)
  have "?P (main_state0 m)" by (simp add: main_state0_eq fe_state0_def)
  from alloc_steady [OF steady_fields(1) alloc_steady [OF steady_fields(1) this a(1)] a(2)] have u: "?P u" .
  from assms a have r: "run_opts fs_alloc (all_options fes version)
      (getopt_long (glong_table (all_options fes version)) (gshort_table (all_options fes version)) argv) u = Some (0, s)"
    by (auto simp: arg_parse_def split: if_splits)
  have "keeps0 ?P (run_opts fs_alloc (all_options fes version) gs)" for gs
    by (rule run_opts_shape [where Q = "keeps0 ?P"])
      (auto intro: keeps0_andthen keeps_keeps0 keeps_return_err keeps_crash keeps_ok callback_written keeps_set_db steady_fields)
  from keeps0D [OF this u r] show ?thesis .
qed

lemma args_mounts:
  assumes "arg_parse fs_alloc (all_options fes version) argv (main_state0 m) = Some (e, s)"
  shows "fs_mounts s = at_start"
proof -
  let ?P = "\<lambda>s. fs_mounts s = at_start"
  obtain ok v ok' u where a: "fs_alloc (main_state0 m) = (ok, v)" "fs_alloc v = (ok', u)" by (metis surj_pair)
  have "?P (main_state0 m)" by (simp add: main_state0_eq fe_state0_def)
  from alloc_steady [OF steady_fields(2) alloc_steady [OF steady_fields(2) this a(1)] a(2)] have u: "?P u" .
  have "keeps ?P (run_opts fs_alloc (all_options fes version) gs)" for gs
    by (rule run_opts_shape [where Q = "keeps ?P"])
      (auto intro: keeps_andthen keeps_return_err keeps_crash keeps_ok callback_mounts keeps_set_db steady_fields)
  from keepsD [OF this u] assms a u show ?thesis by (auto simp: arg_parse_def split: if_splits)
qed

section \<open>From the command line to the outputs\<close>

text \<open>
  A command line in groups: a format, whether state is left out, the files, and a path of Open
  vSwitch's database.
\<close>

record cmd_group =
  cg_format :: string
  cg_nostate :: bool
  cg_files :: "string list"
  cg_db :: "string option"

definition group_args :: "cmd_group \<Rightarrow> string list" where
  "group_args g = [''-f'', cg_format g] @ (if cg_nostate g then [''-C''] else []) @ concat (map (\<lambda>f. [''-o'', f]) (cg_files g)) @
     (case cg_db g of None \<Rightarrow> [] | Some p \<Rightarrow> [''-D'', p])"

definition group_outputs :: "cmd_group \<Rightarrow> output_entry list" where
  "group_outputs g =
     (let msk = (if cg_nostate g then - 2 else - 1) in
      case cg_files g of
        [] \<Rightarrow> [\<lparr>out_format = cg_format g, out_file = None, out_mask = msk\<rparr>]
      | f # fs \<Rightarrow> \<lparr>out_format = cg_format g, out_file = Some f, out_mask = msk\<rparr> #
          map (\<lambda>f. \<lparr>out_format = cg_format g, out_file = Some f, out_mask = - 1\<rparr>) fs)"

definition group_db :: "string cptr \<Rightarrow> cmd_group \<Rightarrow> string cptr" where
  "group_db d g = (case cg_db g of None \<Rightarrow> d | Some p \<Rightarrow> Ptr p)"

definition group_events :: "cmd_group \<Rightarrow> got list" where
  "group_events g = GotShort CHR ''f'' (Some (cg_format g)) # (if cg_nostate g then [GotShort CHR ''C'' None] else []) @
     map (\<lambda>f. GotShort CHR ''o'' (Some f)) (cg_files g) @ (case cg_db g of None \<Rightarrow> [] | Some p \<Rightarrow> [GotShort CHR ''D'' (Some p)])"

lemma our_gshort: "gshort_table (all_options fes version) = ''hf:o:CFD:''"
proof -
  obtain h where o: "all_options fes version = main_options h version @ frontend_options fes @ ovs_options" using all_options_list by blast
  show ?thesis by (simp add: o gshort_table_def main_options_def frontend_options_def ovs_options_def)
qed

lemma getopt_short:
  "getopt_long L ''hf:o:CFD:'' (''-f'' # v # rest) = GotShort CHR ''f'' (Some v) # getopt_long L ''hf:o:CFD:'' rest"
  "getopt_long L ''hf:o:CFD:'' (''-o'' # v # rest) = GotShort CHR ''o'' (Some v) # getopt_long L ''hf:o:CFD:'' rest"
  "getopt_long L ''hf:o:CFD:'' (''-C'' # rest) = GotShort CHR ''C'' None # getopt_long L ''hf:o:CFD:'' rest"
  "getopt_long L ''hf:o:CFD:'' (''-D'' # v # rest) = GotShort CHR ''D'' (Some v) # getopt_long L ''hf:o:CFD:'' rest"
  by (simp_all add: short_arg_def)

lemma getopt_files:
  "getopt_long L ''hf:o:CFD:'' (concat (map (\<lambda>f. [''-o'', f]) fs) @ rest) =
     map (\<lambda>f. GotShort CHR ''o'' (Some f)) fs @ getopt_long L ''hf:o:CFD:'' rest"
  by (induction fs) (simp_all add: getopt_short(2) del: getopt_long.simps)

lemma getopt_group: "getopt_long L ''hf:o:CFD:'' (group_args g @ rest) = group_events g @ getopt_long L ''hf:o:CFD:'' rest"
  by (cases "cg_db g") (simp_all add: group_args_def group_events_def getopt_short getopt_files del: getopt_long.simps)

lemma getopt_groups: "getopt_long L ''hf:o:CFD:'' (concat (map group_args gs)) = concat (map group_events gs)"
  by (induction gs) (simp_all add: getopt_group del: getopt_long.simps(2))

text \<open>The state with a path and a list of outputs, and the options' effects on it.\<close>

definition with_outputs :: "string cptr \<Rightarrow> output_entry list \<Rightarrow> fe_state" where
  "with_outputs d os = (fe_state0 [])\<lparr>fs_db := d, fs_outputs := os\<rparr>"

lemma our_callbacks:
  "find_opt (all_options fes version) (GotShort CHR ''f'' a) = Some (frontend_options fes ! 0)"
  "find_opt (all_options fes version) (GotShort CHR ''o'' a) = Some (frontend_options fes ! 1)"
  "find_opt (all_options fes version) (GotShort CHR ''C'' a) = Some (frontend_options fes ! 2)"
  "find_opt (all_options fes version) (GotShort CHR ''D'' a) = Some (ovs_options ! 0)"
proof -
  obtain h where o: "all_options fes version = main_options h version @ frontend_options fes @ ovs_options" using all_options_list by blast
  show "find_opt (all_options fes version) (GotShort CHR ''f'' a) = Some (frontend_options fes ! 0)"
    "find_opt (all_options fes version) (GotShort CHR ''o'' a) = Some (frontend_options fes ! 1)"
    "find_opt (all_options fes version) (GotShort CHR ''C'' a) = Some (frontend_options fes ! 2)"
    "find_opt (all_options fes version) (GotShort CHR ''D'' a) = Some (ovs_options ! 0)"
    by (simp_all add: o find_opt_def main_options_def frontend_options_def ovs_options_def)
qed

lemma run_short:
  "run_opts fs_alloc (all_options fes version) (GotShort CHR ''f'' (Some v) # gs) = andthen (add_format (Some v)) (run_opts fs_alloc (all_options fes version) gs)"
  "run_opts fs_alloc (all_options fes version) (GotShort CHR ''o'' (Some v) # gs) = andthen (set_output (Some v)) (run_opts fs_alloc (all_options fes version) gs)"
  "run_opts fs_alloc (all_options fes version) (GotShort CHR ''C'' None # gs) = andthen (set_nostate None) (run_opts fs_alloc (all_options fes version) gs)"
  "run_opts fs_alloc (all_options fes version) (GotShort CHR ''D'' (Some v) # gs) = andthen (set_db v) (run_opts fs_alloc (all_options fes version) gs)"
  by (simp_all add: our_callbacks got_arg_def run_opt_def frontend_options_def ovs_options_def set_db_def andthen_def ok_act_def fun_eq_iff
      split: prod.split)

lemma db_effect: "set_db v (with_outputs d os) = Some (0, with_outputs (Ptr v) os)"
  by (simp add: set_db_def with_outputs_def fe_state0_def fs_alloc_def)

lemma format_effect: "add_format (Some v) (with_outputs d os) = Some (0, with_outputs d (\<lparr>out_format = v, out_file = None, out_mask = - 1\<rparr> # os))"
  by (simp add: add_format_def branch_def with_outputs_def fe_state0_def add_output_def allocating_def fs_alloc_def assign_def
      default_output_def)

lemma nostate_effect:
  "set_nostate arg (with_outputs d (\<lparr>out_format = v, out_file = f, out_mask = - 1\<rparr> # os)) =
     Some (0, with_outputs d (\<lparr>out_format = v, out_file = f, out_mask = - 2\<rparr> # os))"
  by (simp add: set_nostate_def require_format_def branch_def with_outputs_def fe_state0_def andthen_def return_err_def
      upd_head_def IF_PROP_STATE_def)

lemma file_effect:
  "set_output (Some f) (with_outputs d (\<lparr>out_format = v, out_file = None, out_mask = m\<rparr> # os)) =
     Some (0, with_outputs d (\<lparr>out_format = v, out_file = Some f, out_mask = m\<rparr> # os))"
  "set_output (Some f) (with_outputs d (\<lparr>out_format = v, out_file = Some f', out_mask = m\<rparr> # os)) =
     Some (0, with_outputs d (\<lparr>out_format = v, out_file = Some f, out_mask = - 1\<rparr> # \<lparr>out_format = v, out_file = Some f', out_mask = m\<rparr> # os))"
  by (simp_all add: set_output_def require_format_def branch_def with_outputs_def fe_state0_def andthen_def return_err_def
      upd_head_def head_out_def ok_act_def fs_alloc_def reading_def add_output_def allocating_def assign_def default_output_def)

lemma more_files:
  "run_opts fs_alloc (all_options fes version) (map (\<lambda>f. GotShort CHR ''o'' (Some f)) fs @ gs)
     (with_outputs d (\<lparr>out_format = v, out_file = Some f', out_mask = m\<rparr> # os)) =
   run_opts fs_alloc (all_options fes version) gs
     (with_outputs d (rev (map (\<lambda>f. \<lparr>out_format = v, out_file = Some f, out_mask = - 1\<rparr>) fs) @ \<lparr>out_format = v, out_file = Some f', out_mask = m\<rparr> # os))"
  by (induction fs arbitrary: f' m os) (simp_all add: run_short andthen_def file_effect(2) del: run_opts.simps)

lemma run_outputs:
  "run_opts fs_alloc (all_options fes version) (group_events (g\<lparr>cg_db := None\<rparr>) @ gs) (with_outputs d os) =
   run_opts fs_alloc (all_options fes version) gs (with_outputs d (rev (group_outputs g) @ os))"
  by (cases "cg_files g")
    (simp_all add: group_events_def group_outputs_def run_short andthen_def format_effect nostate_effect file_effect(1) more_files
      del: run_opts.simps)

lemma run_group:
  "run_opts fs_alloc (all_options fes version) (group_events g @ gs) (with_outputs d os) =
   run_opts fs_alloc (all_options fes version) gs (with_outputs (group_db d g) (rev (group_outputs g) @ os))"
proof -
  have "group_events g @ gs = group_events (g\<lparr>cg_db := None\<rparr>) @ (case cg_db g of None \<Rightarrow> [] | Some p \<Rightarrow> [GotShort CHR ''D'' (Some p)]) @ gs"
    by (simp add: group_events_def)
  then show ?thesis
    by (cases "cg_db g") (simp_all add: run_outputs run_short andthen_def db_effect group_db_def del: run_opts.simps)
qed

lemma run_groups:
  "run_opts fs_alloc (all_options fes version) (concat (map group_events gs)) (with_outputs d os) =
   Some (0, with_outputs (foldl group_db d gs) (rev (concat (map group_outputs gs)) @ os))"
  by (induction gs arbitrary: d os) (simp_all add: run_group return_err_def del: run_opts.simps(2))

text \<open>
  C12: The command line determines the outputs and the path of Open vSwitch's database: groups
  of a format, \<open>-C\<close>, any number of files and \<open>-D\<close> are parsed without error, and the outputs
  are, last first, one per file (or one to standard output) with the format of its group; the
  state is left out only for the first file of a group that asks for it, the others are made
  anew with all properties; the path is the last one given, or the default.
\<close>

theorem options_outputs:
  "arg_parse fs_alloc (all_options fes version) (concat (map group_args gs)) (main_state0 []) =
     Some (0, (main_state0 [])\<lparr>fs_outputs := rev (concat (map group_outputs gs)), fs_db := foldl group_db (Ptr OVS_DB_DEFAULT) gs\<rparr>)"
proof -
  have "main_state0 [] = with_outputs (Ptr OVS_DB_DEFAULT) []" by (simp add: with_outputs_def main_state0_eq fe_state0_def)
  then show ?thesis
    using run_groups [of fes version gs "Ptr OVS_DB_DEFAULT" "[]"]
    by (simp add: arg_parse_def fs_alloc_def our_gshort getopt_groups with_outputs_def fe_state0_def del: getopt_long.simps run_opts.simps)
qed

section \<open>What the program writes\<close>

lemma ovs_init_unlinked:
  assumes "global_handler_init (register_global_handlers V) (world_of [] m ovs_state0) = Some (err, w)"
  shows "ovs_unlinked (w_ovs w)"
  using assms
  by (auto simp: global_handler_init_def register_global_handlers_def global_handler_register_def gh_ovs_def andthen_def ok_act_def
      ovs_global_init_def set_genl_id_def world_of_def ovs_unlinked_def ovs_state0_def Let_def split: prod.splits bind_splits if_splits option.splits)

lemma finish_state: "finish sys cur w s = Some (e, w', s') \<Longrightarrow> s' = frontend_cleanup s"
  by (auto simp: finish_def split: bind_splits prod.splits)

lemma exit_with_state: "exit_with code msg s = Some (c, s') \<Longrightarrow> c = code \<and> s' = s\<lparr>fs_errors := fs_errors s @ [msg @ [CHR 0x0A]]\<rparr>"
  by (auto simp: exit_with_def print_err_def andthen_def assign_def return_err_def)

lemma exit_with_1 [simp]: "exit_with 1 msg s \<noteq> Some (0, s')"
  by (auto dest: exit_with_state)

lemma main_run_result:
  assumes "main_run sys cur s = Some (0, s')" and "fs_written s = []"
  shows "\<exists>w outs ts. well_formed w \<and> list_all (file_ok (sy_files sys)) outs \<and>
    those (map (text_of (register_frontends sys) w) outs) = Some ts \<and> fs_written s' = arrivals (sy_files sys) 0 outs ts"
proof -
  let ?V = "(sy_ovs sys)\<lparr>oe_db := fs_db s\<rparr>"
  obtain ok c where sw: "netns_switch_root (sy_kernel sys) cur = (ok, c)" by (cases "netns_switch_root (sy_kernel sys) cur")
  from assms(1) obtain w0 mt w s1 w' where
    i: "global_handler_init (register_global_handlers ?V) (world_of [] (fs_mem s) ovs_state0) = Some (0, w0)"
    and f: "netns_fill_list (sy_kernel sys) (sy_around sys) (register_global_handlers ?V) (ok = 0) (w_ovs w0)
      \<lparr>s_list = [], s_cur = c, s_mem = w_mem w0\<rparr> (fs_mounts s) = Some (0, mt, w)"
    and o: "frontend_output (sy_files sys) (register_frontends sys) w (s\<lparr>fs_mem := w_mem w, fs_mounts := mt\<rparr>) = Some (0, s1)"
    and e: "finish sys c w s1 = Some (0, w', s')"
    by (auto simp: main_run_def sw Let_def split: bind_splits if_splits simp del: One_nat_def)
  have "well_formed w" by (rule netns_fill_list_well_formed [OF f ovs_init_unlinked [OF i]])
  moreover from frontend_output_result [OF o] assms(2) have
    "list_all (file_ok (sy_files sys)) (fs_outputs s1) \<and> (\<exists>ts. those (map (text_of (register_frontends sys) w) (fs_outputs s1)) = Some ts \<and>
       fs_written s1 = arrivals (sy_files sys) 0 (fs_outputs s1) ts)"
    by auto
  ultimately show ?thesis using finish_state [OF e] by (auto simp: frontend_cleanup_def)
qed

lemma main_prog_run:
  assumes "main_prog sys argv cur m = Some (0, s')"
  shows "\<exists>s s1. arg_parse fs_alloc (all_options (register_frontends sys) (sy_version sys)) argv (main_state0 m) = Some (0, s) \<and>
    check_caps (sy_capget sys) \<and> main_run sys cur s = Some (0, s1) \<and> fs_written s' = fs_written s1"
  using assms by (auto simp: main_prog_def main_start_def split: bind_splits if_splits)

text \<open>
  C1: When the program exits with success it had the capabilities, and everything it wrote
  shows one consistent list of name spaces: for every output, in its order, what arrived is
  what could be written of the text a front end makes of the same list, in which master and
  link agree with their reverse lists, peers are symmetric, masters, links, peers and physical
  functions are listed interfaces, and every listed interface is listed once, in its name
  space, and has a driver or is internal to Open vSwitch; and every output file was opened and
  closed without an error.
\<close>

theorem main_writes_consistent:
  assumes "main_prog sys argv cur m = Some (0, s')"
  shows "check_caps (sy_capget sys) \<and>
    (\<exists>w outs ts. masters_ok w \<and> links_ok w \<and> peers_ok w \<and> relations_listed w \<and> distinct (all_ifs w) \<and>
      (\<forall>n \<in> set (w_list w). \<forall>e \<in> set (n_ifaces (w_ns w n)). i_ns (w_if w e) = n \<and>
         (i_driver (w_if w e) \<noteq> None \<or> i_internal_ns (w_if w e) \<noteq> None)) \<and>
      list_all (file_ok (sy_files sys)) outs \<and>
      those (map (text_of (register_frontends sys) w) outs) = Some ts \<and> fs_written s' = arrivals (sy_files sys) 0 outs ts)"
proof -
  from main_prog_run [OF assms] obtain s s1 where
    s: "arg_parse fs_alloc (all_options (register_frontends sys) (sy_version sys)) argv (main_state0 m) = Some (0, s)"
    "check_caps (sy_capget sys)" "main_run sys cur s = Some (0, s1)" "fs_written s' = fs_written s1" by blast
  from main_run_result [OF s(3) args_written [OF s(1)]] obtain w outs ts where
    w: "well_formed w" "list_all (file_ok (sy_files sys)) outs" "those (map (text_of (register_frontends sys) w) outs) = Some ts"
      "fs_written s1 = arrivals (sy_files sys) 0 outs ts"
    by blast
  show ?thesis
    by (intro conjI exI [of _ w] exI [of _ outs] exI [of _ ts]) (use s(2,4) w in \<open>auto simp: well_formed_def\<close>)
qed

text \<open>A system without name spaces, with only the loopback interface and no Open vSwitch.\<close>

definition lone_system :: "(unit, json, json) system" where
  "lone_system = \<lparr>sy_kernel = lone_kernel, sy_around = lone_surroundings no_json, sy_ovs = no_ovs, sy_files = good_files,
     sy_capget = (\<lambda>_. (0, -1)), sy_json = json_write (\<lambda>_. ''{}''), sy_adr = (\<lambda>e. e), sy_version = ''v0.4.1'', sy_date = ''Thu'' @ [nl]\<rparr>"

lemma lone_dot:
  assumes "w_list w = [0]" and "n_ifaces (w_ns w 0) = [0]" and "i_addr (w_if w 0) = []" and "mac_formatted (i_mac_addr (w_if w 0)) = NullPtr"
  shows "\<exists>t. dot_output adr version date w msk = Some t"
  by (simp add: assms dot_output_def output_netns_def output_ifaces_pass1_def node_line_def node_label_def
      output_addresses_def if_there_def Let_def)

lemma lone_finish:
  assumes "w_list w = [0]" and "n_ifaces (w_ns w 0) = [0]" and "idle (w_if w 0)" and "w_ovs w = ovs_state0"
    and n: "n_pid (w_ns w 0) = 0"
  shows "\<exists>v. finish lone_system c w s = Some (0, v, frontend_cleanup s)"
proof -
  have c: "global_handler_cleanup (register_global_handlers no_ovs) w = Some (set_bridges [] w)"
    by (simp add: global_handler_cleanup_def register_global_handlers_def global_handler_register_def gh_ovs_def
        ovs_global_cleanup_def assms(4) ovs_state0_def)
  have b: "w_list (set_bridges [] w) = [0]" "all_ifs (set_bridges [] w) = [0]" "w_if (set_bridges [] w) = w_if w"
    by (simp_all add: set_bridges_def all_ifs_def assms(1,2))
  have l: "if_live (w_if (set_bridges [] w) e)" if "e \<in> set (all_ifs (set_bridges [] w))" for e
    using that assms(3) by (simp add: b idle_def if_live_def)
  have "\<not> literal_name (w_ns (set_bridges [] w) k)" if "k \<in> set (w_list (set_bridges [] w))" for k
    using that n by (simp add: b) (simp add: set_bridges_def literal_name_def)
  moreover have "distinct (w_list (set_bridges [] w))" "distinct (all_ifs (set_bridges [] w))" by (simp_all add: b)
  ultimately show ?thesis
    using netns_list_free_result [of "set_bridges [] w", where J = no_json and teamds = "\<lambda>_. no_teamd" and env = quiet_env and
      sks = "\<lambda>_. route_sock"] l
    by (auto simp: finish_def lone_system_def c lone_surroundings_def su_handlers_def)
qed

lemma lone_main:
  "\<exists>s' t. main_prog lone_system [] 10 [] = Some (0, s') \<and> fs_written s' = [(None, t)] \<and>
     fs_mounts s' = \<lparr>mp_dir = False, mp_mounts = 0, mp_atexit = True, mp_umounts = 1\<rparr>"
proof -
  let ?fes = "register_frontends lone_system" and ?init = "main_state0 []"
  have s0: "?init = \<lparr>fs_outputs = [], fs_used_default = False, fs_db = Ptr OVS_DB_DEFAULT, fs_mem = [], fs_written = [], fs_errors = [],
      fs_mounts = at_start\<rparr>"
    by (simp add: main_state0_eq fe_state0_def)
  have a: "arg_parse fs_alloc opts [] ?init = Some (0, ?init)" for opts
    by (simp add: arg_parse_def fs_alloc_def s0 return_err_def)
  have k: "check_caps (sy_capget lone_system)" by (simp add: check_caps_def lone_system_def EINVAL_def)
  have sw: "netns_switch_root lone_kernel 10 = (-1, 10)" by (simp add: netns_switch_root_def lone_kernel_def ENOENT_def)
  have V: "no_ovs\<lparr>oe_db := Ptr OVS_DB_DEFAULT\<rparr> = no_ovs" by (simp add: no_ovs_def example_ovs_def OVS_DB_DEFAULT_def)
  let ?w = "world_of [] [] ovs_state0"
  have i: "global_handler_init (register_global_handlers no_ovs) ?w = Some (0, set_genl_id 0 ?w)"
    by (simp add: global_handler_init_def register_global_handlers_def global_handler_register_def gh_ovs_def andthen_def ok_act_def
        ovs_global_init_def no_ovs_def example_ovs_def Let_def)
  have g: "w_ovs (set_genl_id 0 ?w) = ovs_state0" "w_mem (set_genl_id 0 ?w) = []"
    by (simp_all add: set_genl_id_def world_of_def ovs_state0_def)
  from lone_fill [of no_json] obtain w where
    f: "netns_fill_list lone_kernel (lone_surroundings no_json) (register_global_handlers no_ovs) False ovs_state0 start_state at_start =
      Some (0, lone_mounts, w)"
    and w: "n_ifaces (w_ns w 0) = [0]" "w_list w = [0]" "idle (w_if w 0)" "w_ovs w = ovs_state0" "w_mem w = []" "n_pid (w_ns w 0) = 0" by blast
  from w(3) have "i_addr (w_if w 0) = []" "mac_formatted (i_mac_addr (w_if w 0)) = NullPtr" by (simp_all add: idle_def)
  from lone_dot [OF w(2,1) this, of "\<lambda>e. e" "''v0.4.1''" "''Thu'' @ [nl]" "uint (out_mask default_output)"] obtain t where
    t: "dot_output (\<lambda>e. e) ''v0.4.1'' (''Thu'' @ [nl]) w (uint (out_mask default_output)) = Some t" by blast
  have fes: "find_frontend ?fes ''dot'' = Some (fe_dot (\<lambda>e. e) ''v0.4.1'' (''Thu'' @ [nl]))"
    by (simp add: find_frontend_def register_frontends_def frontend_register_def fe_dot_def fe_json_def lone_system_def)
  let ?filled = "?init\<lparr>fs_mem := [], fs_mounts := lone_mounts\<rparr>"
  let ?fin = "?filled\<lparr>fs_outputs := [default_output], fs_used_default := True, fs_written := [(None, t)]\<rparr>"
  have o: "frontend_output good_files ?fes w ?filled = Some (0, ?fin)"
    using t [unfolded default_output_def, simplified] by (simp add: frontend_output_def ignoring_def require_format_def branch_def
        reading_def s0 andthen_def add_output_def allocating_def fs_alloc_def assign_def default_output_def fes write_output_def
        write_to_def fe_dot_def ok_act_def good_files_def)
  from lone_finish [OF w(2,1,3,4,6), of 10 ?fin] obtain v where "finish lone_system 10 w ?fin = Some (0, v, frontend_cleanup ?fin)" by blast
  then have "main_run lone_system 10 ?init = Some (0, frontend_cleanup ?fin)"
    using sw i g f w(5) o
    by (simp add: main_run_def lone_system_def Let_def start_state_def s0 V)
  with a k have "main_start lone_system [] 10 [] = Some (0, frontend_cleanup ?fin)" by (simp add: main_start_def)
  moreover have "run_atexit (sy_kernel lone_system) lone_mounts = \<lparr>mp_dir = False, mp_mounts = 0, mp_atexit = True, mp_umounts = 1\<rparr>"
    by (simp add: run_atexit_def at_exit_def sysfs_clean_def sysfs_umount_def lone_mounts_def lone_system_def lone_kernel_def example_kernel_def)
  ultimately show ?thesis by (simp add: main_prog_def frontend_cleanup_def)
qed

theorem main_writes_consistent_witness:
  "\<exists>s' t w. main_prog lone_system [] 10 [] = Some (0, s') \<and> fs_written s' = [(None, t)] \<and> masters_ok w"
proof -
  from lone_main obtain s' t where s: "main_prog lone_system [] 10 [] = Some (0, s')" "fs_written s' = [(None, t)]" by blast
  from main_writes_consistent [OF s(1)] s show ?thesis by blast
qed

section \<open>What is left of the sysfs mount\<close>

lemma output_mounts: "keeps (\<lambda>s. fs_mounts s = x) (frontend_output F fes w)"
proof -
  let ?P = "\<lambda>s. fs_mounts s = x"
  have wt: "keeps ?P (write_to F f fe w msk)" for f fe msk
    by (rule keepsI) (auto simp: write_to_def split: option.splits)
  have "keeps ?P (write_output F fes w out)" for out
    unfolding write_output_def by (auto intro!: keeps_option keeps_crash keeps_andthen keeps_return_err wt split: option.split)
  then show ?thesis
    unfolding frontend_output_def
    by (intro keeps_ignoring keeps_branch keeps_reading keeps_each keeps_return_err keeps_require_format steady_fields)
qed

lemma run_mounted:
  assumes "main_run sys cur s = Some (code, s')" and "fs_mounts s = at_start"
  shows "mounted_upto 1 (k_umount (sy_kernel sys)) (fs_mounts s')"
proof -
  let ?K = "sy_kernel sys" and ?V = "(sy_ovs sys)\<lparr>oe_db := fs_db s\<rparr>"
  obtain ok c where sw: "netns_switch_root ?K cur = (ok, c)" by (cases "netns_switch_root ?K cur")
  from assms(1) consider "fs_mounts s' = fs_mounts s"
    | supported os st err mt w where "netns_fill_list ?K (sy_around sys) (register_global_handlers ?V) supported os st (fs_mounts s) = Some (err, mt, w)"
      "fs_mounts s' = mt"
    unfolding main_run_def sw
    by (auto simp: Let_def frontend_cleanup_def split: bind_splits if_splits dest!: exit_with_state finish_state keepsD [OF output_mounts refl])
  then show ?thesis
  proof cases
    case 1
    with assms(2) mounted_more [OF mounted_at_start] show ?thesis by simp
  next
    case 2
    from netns_fill_mounted [OF 2(1)] assms(2) mounted_at_start have "mounted_upto (if err = 0 then 0 else 1) (k_umount ?K) mt" by simp
    with 2(2) mounted_more show ?thesis by (simp split: if_splits)
  qed
qed

lemma start_mounted:
  assumes "main_start sys argv cur m = Some (code, s)"
  shows "mounted_upto 1 (k_umount (sy_kernel sys)) (fs_mounts s)"
proof -
  from assms obtain e s0 where a: "arg_parse fs_alloc (all_options (register_frontends sys) (sy_version sys)) argv (main_state0 m) = Some (e, s0)"
    by (auto simp: main_start_def split: bind_splits)
  note s0 = args_mounts [OF a]
  from assms a consider "fs_mounts s = fs_mounts s0" | "main_run sys cur s0 = Some (code, s)"
    by (auto simp: main_start_def split: if_splits dest!: exit_with_state)
  then show ?thesis
    by cases (simp add: s0 mounted_more [OF mounted_at_start], rule run_mounted [OF _ s0])
qed

text \<open>
  C32: Nothing stays mounted.  However the program exits, with or without success, whatever call
  fails on the way, at most as many file systems are left on its directory as calls of
  \<open>umount2\<close> failed on a mounted one, when \<open>stat\<close> finds the directory; if none of those and not
  \<open>rmdir\<close> failed, nothing is left mounted and the directory is gone.  The loop over the name
  spaces already takes off each mount it has made: after it only those are left that could not
  be unmounted.
\<close>

theorem sysfs_left_clean:
  assumes "main_prog sys argv cur m = Some (code, s')" and "k_stat (sy_kernel sys) = Some True"
  shows "mp_mounts (fs_mounts s') \<le> failed_umounts (k_umount (sy_kernel sys)) (fs_mounts s') \<and>
    (failed_umounts (k_umount (sy_kernel sys)) (fs_mounts s') = 0 \<and> k_rmdir (sy_kernel sys) = 0 \<longrightarrow>
       mp_mounts (fs_mounts s') = 0 \<and> \<not> mp_dir (fs_mounts s')) \<and>
    (\<forall>S ghs supported os st mt w. netns_fill_list (sy_kernel sys) S ghs supported os st at_start = Some (0, mt, w) \<longrightarrow>
       mp_mounts mt \<le> failed_umounts (k_umount (sy_kernel sys)) mt)"
proof -
  let ?K = "sy_kernel sys"
  from assms(1) obtain s where s: "main_start sys argv cur m = Some (code, s)" "fs_mounts s' = run_atexit ?K (fs_mounts s)"
    by (auto simp: main_prog_def split: bind_splits)
  note e = exit_mounted [OF start_mounted [OF s(1)] assms(2), of "k_rmdir ?K", folded run_atexit_def]
  have "mp_mounts mt \<le> failed_umounts (k_umount ?K) mt"
    if "netns_fill_list ?K S ghs supported os st at_start = Some (0, mt, w)" for S ghs supported os st mt w
    using netns_fill_mounted [OF that mounted_at_start] by (simp add: mounted_upto_def)
  moreover from s(2) e have "mp_mounts (fs_mounts s') \<le> failed_umounts (k_umount ?K) (fs_mounts s')" by simp
  moreover from this s(2) e(2) have "failed_umounts (k_umount ?K) (fs_mounts s') = 0 \<and> k_rmdir ?K = 0 \<longrightarrow>
      mp_mounts (fs_mounts s') = 0 \<and> \<not> mp_dir (fs_mounts s')" by auto
  ultimately show ?thesis by blast
qed

theorem sysfs_left_clean_witness:
  "\<exists>s'. main_prog lone_system [] 10 [] = Some (0, s') \<and> mp_umounts (fs_mounts s') = 1 \<and> mp_mounts (fs_mounts s') = 0 \<and>
     \<not> mp_dir (fs_mounts s')"
proof -
  from lone_main obtain s' where s: "main_prog lone_system [] 10 [] = Some (0, s')"
    "fs_mounts s' = \<lparr>mp_dir = False, mp_mounts = 0, mp_atexit = True, mp_umounts = 1\<rparr>" by blast
  have K: "k_stat (sy_kernel lone_system) = Some True" "k_rmdir (sy_kernel lone_system) = 0" "k_umount (sy_kernel lone_system) = (\<lambda>_. 0)"
    by (simp_all add: lone_system_def lone_kernel_def example_kernel_def)
  from s(2) K(3) have "failed_umounts (k_umount (sy_kernel lone_system)) (fs_mounts s') = 0" by (simp add: failed_umounts_def)
  with sysfs_left_clean [OF s(1) K(1)] K(2) s show ?thesis by auto
qed

end
