(* ===== verification/Private.thy ===== *)
theory Private
  imports MainProg
begin

text \<open>
  The private structures of the handlers (\<open>entry->handler_private\<close>): \<open>handler.c\<close> allocates one
  of the size the handler registered, and every callback casts the untyped pointer to its own
  structure.  The cast is right because an interface's structure always is the one of its
  driver.
\<close>

definition tunnel_drivers :: "string list" where
  "tunnel_drivers = [''gre'', ''gretap'', ''erspan'', ''ip6gre'', ''ip6gretap'', ''ip6erspan'', ''vti'', ''vti6'', ''ipip'', ''sit'', ''ip6tnl'']"

fun fits :: "string \<Rightarrow> hpriv \<Rightarrow> bool" where
  "fits d (BondPriv b) \<longleftrightarrow> d = ''bonding''"
| "fits d (TeamPriv p) \<longleftrightarrow> d = ''team''"
| "fits d (VlanPriv t) \<longleftrightarrow> d = ''802.1Q VLAN Support''"
| "fits d (TunPriv a) \<longleftrightarrow> d \<in> set tunnel_drivers"
| "fits d (VxlanPriv p) \<longleftrightarrow> d = ''vxlan''"
| "fits d (GenevePriv t) \<longleftrightarrow> d = ''geneve''"

text \<open>
  Bonding, team and VLAN callbacks follow the pointer without a check; the callbacks of the
  tunnels, which allocate and free the structure themselves, may leave it dangling.
\<close>

definition needing_drivers :: "string list" where
  "needing_drivers = [''bonding'', ''team'', ''802.1Q VLAN Support'']"

definition freeing_drivers :: "string list" where
  "freeing_drivers = tunnel_drivers @ [''vxlan'', ''geneve'']"

definition private_ok :: "if_entry \<Rightarrow> bool" where
  "private_ok i \<longleftrightarrow>
     (case i_driver i of
        None \<Rightarrow> i_private i = NullPtr
      | Some d \<Rightarrow>
          (case i_private i of
             NullPtr \<Rightarrow> d \<notin> set needing_drivers
           | Ptr p \<Rightarrow> fits d p
           | BadPtr \<Rightarrow> d \<in> set freeing_drivers))"

text \<open>The addresses of an interface are not freed before the interface is; an empty hardware address has no text.\<close>

definition addrs_live :: "if_entry \<Rightarrow> bool" where
  "addrs_live i \<longleftrightarrow> mac_raw (i_mac_addr i) \<noteq> BadPtr \<and>
     (mac_formatted (i_mac_addr i) = BadPtr \<longrightarrow> mac_raw (i_mac_addr i) = Ptr []) \<and>
     list_all (\<lambda>a. addr_live (ia_addr a) \<and> addr_live (ia_peer a)) (i_addr i)"

definition typed :: "world \<Rightarrow> bool" where
  "typed w \<longleftrightarrow> (\<forall>e. private_ok (w_if w e) \<and> addrs_live (w_if w e))"

text \<open>While a callback of the handler for \<open>d\<close> runs on \<open>e\<close>, \<open>d\<close> is the driver of \<open>e\<close>.\<close>

definition held :: "ifp \<Rightarrow> string option \<Rightarrow> world \<Rightarrow> bool" where
  "held e d w \<longleftrightarrow> typed w \<and> (d = None \<or> i_driver (w_if w e) = d)"

text \<open>\<open>blank e\<close>: \<open>e\<close> is an interface whose private structure is not allocated yet.\<close>

definition blank :: "ifp \<Rightarrow> world \<Rightarrow> bool" where
  "blank e w \<longleftrightarrow> (\<forall>x. addrs_live (w_if w x) \<and> (x \<noteq> e \<longrightarrow> private_ok (w_if w x))) \<and> i_private (w_if w e) = NullPtr"

section \<open>What keeps the types\<close>

text \<open>Properties that only depend on what an interface owns: the private structure, by its driver, and the addresses.\<close>

definition if_owned :: "if_entry \<Rightarrow> hpriv cptr \<times> string option \<times> mac_addr \<times> if_addr list" where
  "if_owned i = (i_private i, i_driver i, i_mac_addr i, i_addr i)"

definition on_priv :: "(world \<Rightarrow> bool) \<Rightarrow> bool" where
  "on_priv P \<longleftrightarrow> (\<forall>v w. P v \<longrightarrow> (\<forall>e. if_owned (w_if w e) = if_owned (w_if v e)) \<longrightarrow> P w)"

lemma on_privD: "on_priv P \<Longrightarrow> P v \<Longrightarrow> (\<And>e. if_owned (w_if w e) = if_owned (w_if v e)) \<Longrightarrow> P w"
  unfolding on_priv_def by blast

lemma owned_cong: "if_owned i = if_owned j \<Longrightarrow> private_ok i = private_ok j \<and> addrs_live i = addrs_live j \<and> i_driver i = i_driver j \<and> i_private i = i_private j"
  unfolding if_owned_def prod.inject by (elim conjE) (simp only: private_ok_def addrs_live_def)

lemma on_priv_typed: "on_priv typed"
  unfolding on_priv_def typed_def using owned_cong by blast

lemma on_priv_held: "on_priv (held e d)"
  unfolding on_priv_def held_def typed_def using owned_cong by metis

lemma on_priv_blank: "on_priv (blank e)"
  unfolding on_priv_def blank_def using owned_cong by metis

declare if_owned_def [simp]

lemma priv_mem: "on_priv P \<Longrightarrow> P w \<Longrightarrow> P (w\<lparr>w_mem := m\<rparr>)"
  by (rule on_privD, assumption+) simp

lemma priv_upd_ns: "on_priv P \<Longrightarrow> P w \<Longrightarrow> P (upd_ns n f w)"
  by (rule on_privD, assumption+) simp

lemma priv_upd: "on_priv P \<Longrightarrow> (\<And>i. if_owned (f i) = if_owned i) \<Longrightarrow> P w \<Longrightarrow> P (upd_if x f w)"
  by (rule on_privD, assumption+) simp

lemma priv_assign: "on_priv P \<Longrightarrow> (\<And>i. if_owned (f i) = if_owned i) \<Longrightarrow> keeps P (assign (upd_if x f))"
  by (rule keeps_assign) (rule priv_upd)

lemma priv_alloc: "on_priv P \<Longrightarrow> keeps P f \<Longrightarrow> keeps P g \<Longrightarrow> keeps P (if_alloc f g)"
  by (intro keeps_if_alloc) (rule priv_mem)

lemma priv_mem_call: "on_priv P \<Longrightarrow> (\<And>x. keeps P (k x)) \<Longrightarrow> keeps P (mem_call f k)"
  by (intro keeps_mem_call) (rule priv_mem)

lemma priv_attrs: "on_priv P \<Longrightarrow> (\<And>tb. keeps P (k tb)) \<Longrightarrow> keeps P err \<Longrightarrow> keeps P (with_attrs a mx k err)"
  unfolding with_attrs_def by (intro priv_mem_call keeps_option)

lemma priv_prop:
  assumes P: "on_priv P"
  shows "keeps P (if_add_prop type x key val)"
proof (rule keepsI)
  fix w err v
  assume w: "P w" and r: "if_add_prop type x key val w = Some (err, v)"
  from if_add_prop_total [of type x key val w] r obtain ps m where
    "v = upd_if x (\<lambda>i. i\<lparr>i_properties := ps\<rparr>) (w\<lparr>w_mem := m\<rparr>)" by auto
  with priv_upd [OF P _ priv_mem [OF P w], of "\<lambda>i. i\<lparr>i_properties := ps\<rparr>"] show "P v" by simp
qed

lemmas priv_plain = keeps_ok keeps_andthen keeps_ignoring keeps_return_err keeps_crash keeps_branch keeps_if keeps_option keeps_each
  keeps_reading keeps_opt_attr keeps_with_vxlan keeps_with_bond keeps_with_team

lemma priv_warning:
  assumes P: "on_priv P"
  shows "keeps P (if_add_warning x t)"
  unfolding if_add_warning_def Let_def
  by (intro priv_plain priv_mem_call [OF P] priv_alloc [OF P])
    (auto intro!: priv_plain priv_mem_call [OF P] keeps_assign priv_upd [OF P] priv_upd_ns [OF P])

lemma priv_labels: "on_priv P \<Longrightarrow> keeps P (if_add_config x key val)" "on_priv P \<Longrightarrow> keeps P (if_add_state x key val)"
  by (simp_all add: if_add_config_def if_add_state_def priv_prop)

lemma priv_warn: "on_priv P \<Longrightarrow> keeps P (warn x t)"
  unfolding warn_def by (intro priv_plain priv_warning)

lemma priv_edge_label: "on_priv P \<Longrightarrow> keeps P (set_edge_label x t)"
  unfolding set_edge_label_def by (intro priv_alloc priv_assign priv_plain) simp_all

lemma priv_read_addr: "on_priv P \<Longrightarrow> (\<And>err a. keeps P (k err a)) \<Longrightarrow> keeps P (read_addr env family prefixlen a k)"
  unfolding read_addr_def by (intro priv_mem_call) (auto split: prod.splits)

lemma priv_config: "on_priv P \<Longrightarrow> keeps P (config_addr x key a)" "on_priv P \<Longrightarrow> keeps P (config_num x key n)" "on_priv P \<Longrightarrow> keeps P (config_text x key a)"
  unfolding config_addr_def config_num_def config_text_def
  by (auto split: option.splits bool.splits intro!: priv_plain priv_labels)

lemma priv_remote_addr: "on_priv P \<Longrightarrow> keeps P (remote_addr env family x key a)"
  unfolding remote_addr_def by (intro priv_read_addr priv_plain priv_config)

lemma priv_relations:
  assumes P: "on_priv P"
  shows "keeps P (master_set t x)" "keeps P (link_set t y)" "keeps P (peer_set y z)"
proof -
  have "keeps P (assign (peer_set_one a b))" for a b
    by (rule keeps_assign) (auto simp: peer_set_one_def Let_def split: option.splits intro!: priv_upd [OF P])
  then show "keeps P (peer_set y z)" unfolding peer_set_def by (intro keeps_andthen)
  show "keeps P (master_set t x)"
    unfolding master_set_def Let_def by (intro keeps_assign) (auto split: option.splits intro!: priv_upd [OF P])
  show "keeps P (link_set t y)"
    unfolding link_set_def Let_def by (cases y) (auto split: option.splits intro!: keeps_assign keeps_return_err priv_upd [OF P])
qed

lemma priv_link_to: "on_priv P \<Longrightarrow> keeps P (link_to x found)"
  unfolding link_to_def by (intro priv_plain priv_relations) (auto split: option.splits intro!: priv_plain priv_relations priv_assign)

lemmas priv_steps = on_priv_held on_priv_typed on_priv_blank priv_plain priv_alloc priv_mem_call priv_attrs priv_labels priv_warning priv_warn
  priv_edge_label priv_read_addr priv_config priv_remote_addr priv_relations priv_link_to

text \<open>The post callbacks change nothing of what an interface owns.\<close>

lemma priv_posts:
  assumes P: "on_priv P"
  shows "keeps P (bond_post e)" "keeps P (team_post e)" "keeps P (iov_post e)" "keeps P (veth_post e)"
    "keeps P (gre_post e)" "keeps P (vti_post e)" "keeps P (ipxipy_post e)" "keeps P (vxlan_post e)"
proof -
  have "keeps P (bond_slave e b x)" for b x
    unfolding bond_slave_def by (intro priv_steps priv_assign P) simp_all
  then show "keeps P (bond_post e)" unfolding bond_post_def by (intro priv_steps P)
  have "keeps P (team_port e a s)" for a s
    unfolding team_port_def by (intro priv_steps priv_assign P) simp_all
  then show "keeps P (team_post e)"
    unfolding team_post_def by (intro priv_steps) (auto split: option.splits intro!: priv_steps)
  show "keeps P (iov_post e)"
    unfolding iov_post_def by (intro priv_steps) (auto split: option.splits intro!: priv_steps priv_assign P)
  show "keeps P (veth_post e)"
    unfolding veth_post_def by (auto split: option.splits intro!: priv_steps priv_assign P)
  show "keeps P (gre_post e)" "keeps P (vti_post e)" "keeps P (ipxipy_post e)" "keeps P (vxlan_post e)"
    unfolding gre_post_def vti_post_def ipxipy_post_def vxlan_post_def
    by (intro priv_steps P; auto split: cptr.splits hpriv.splits intro!: priv_steps P)+
qed

section \<open>Storing a private structure\<close>

lemma held_private:
  assumes "case p of Ptr q \<Rightarrow> fits s q | BadPtr \<Rightarrow> s \<in> set freeing_drivers | NullPtr \<Rightarrow> False" and "held e (Some s) w"
  shows "held e (Some s) (upd_if e (\<lambda>i. i\<lparr>i_private := p\<rparr>) w)"
proof -
  have "private_ok (w_if w x) \<and> addrs_live (w_if w x)" "i_driver (w_if w e) = Some s" for x
    using assms(2) by (auto simp: held_def typed_def)
  moreover from this have "private_ok ((w_if w e)\<lparr>i_private := p\<rparr>)" using assms(1) by (auto simp: private_ok_def split: cptr.splits)
  moreover have "addrs_live ((w_if w e)\<lparr>i_private := p\<rparr>) = addrs_live (w_if w e)" by (simp add: addrs_live_def)
  ultimately show ?thesis by (simp add: held_def typed_def)
qed

lemma held_set: "fits s q \<Longrightarrow> keeps (held e (Some s)) (assign (upd_if e (\<lambda>i. i\<lparr>i_private := Ptr q\<rparr>)))"
  by (rule keeps_assign, rule held_private) auto

lemma held_set_private: "fits s q \<Longrightarrow> keeps (held e (Some s)) (set_private e (Ptr q))"
  unfolding set_private_def by (rule held_set)

lemma held_set_bond: "keeps (held e (Some ''bonding'')) (set_bond e b)"
  unfolding set_bond_def by (rule held_set) simp

lemma held_or_free:
  assumes d: "s \<in> set freeing_drivers" and f: "keeps (held e (Some s)) f"
  shows "keeps (held e (Some s)) (or_free_priv e f)"
proof (rule keepsI)
  fix w err v
  assume w: "held e (Some s) w" and r: "or_free_priv e f w = Some (err, v)"
  then obtain err1 u where u: "f w = Some (err1, u)" by (auto simp: or_free_priv_def split: option.splits)
  from keepsD [OF f w u] have p: "held e (Some s) u" .
  have "held e (Some s) (upd_if e (\<lambda>i. i\<lparr>i_private := BadPtr\<rparr>) u)" by (rule held_private [OF _ p]) (simp add: d)
  with r u p show "held e (Some s) v" by (auto simp: or_free_priv_def split: if_splits)
qed

lemma freeing [simp]: "d \<in> set tunnel_drivers \<Longrightarrow> d \<in> set freeing_drivers" "''vxlan'' \<in> set freeing_drivers" "''geneve'' \<in> set freeing_drivers"
  by (simp_all add: freeing_drivers_def)

lemma held_new_private: "fits s q \<Longrightarrow> keeps (held e (Some s)) f \<Longrightarrow> keeps (held e (Some s)) (new_private e q f)"
  unfolding new_private_def by (intro priv_steps held_set_private)

lemma held_local_addr: "s \<in> set tunnel_drivers \<Longrightarrow> keeps (held e (Some s)) (local_addr env family e a)"
  unfolding local_addr_def by (intro priv_steps held_set_private) simp_all

lemmas held_steps = priv_steps held_set_private held_set_bond held_or_free held_new_private held_local_addr

section \<open>The callbacks\<close>

lemma held_bond:
  "keeps (held e (Some ''bonding'')) (bond_netlink e li)" "keeps (held e (Some ''bonding'')) (bond_scan env e)"
proof -
  show "keeps (held e (Some ''bonding'')) (bond_netlink e li)"
    unfolding bond_netlink_def by (intro held_steps)
  show "keeps (held e (Some ''bonding'')) (bond_scan env e)"
    unfolding bond_scan_def by (intro held_steps) (auto split: option.splits intro!: held_steps)
qed

lemma held_devices:
  "keeps (held e d) (bridge_scan env e)" "keeps (held e (Some ''802.1Q VLAN Support'')) (vlan_netlink e li)"
  "keeps (held e d) (macsec_netlink e li)" "keeps (held e d) (xfrm_netlink e li)" "keeps (held e d) (iov_scan env e)"
  "keeps (held e d) (veth_scan env e)"
proof -
  show "keeps (held e d) (bridge_scan env e)"
    unfolding bridge_scan_def by (intro held_steps) (auto split: prod.splits option.splits intro!: held_steps priv_assign)
  show "keeps (held e (Some ''802.1Q VLAN Support'')) (vlan_netlink e li)"
    unfolding vlan_netlink_def
    by (intro held_steps) (auto split: cptr.splits hpriv.splits intro!: held_steps held_set)
  show "keeps (held e d) (macsec_netlink e li)" unfolding macsec_netlink_def by (intro held_steps)
  show "keeps (held e d) (xfrm_netlink e li)" unfolding xfrm_netlink_def by (intro held_steps)
  show "keeps (held e d) (iov_scan env e)"
    unfolding iov_scan_def by (intro held_steps) (auto split: sum.splits intro!: held_steps priv_assign)
  show "keeps (held e d) (veth_scan env e)"
    unfolding veth_scan_def by (auto split: option.splits intro!: held_steps priv_assign)
qed

lemma held_team: "keeps (held e (Some ''team'')) (team_scan J teamds e)"
proof -
  have r: "keeps (held e (Some ''team'')) (team_parse_runner J r e)" for r
    unfolding team_parse_runner_def by (intro held_steps held_set) simp
  have "keeps (held e (Some ''team'')) (team_parse_reply J s e)" for s
    unfolding team_parse_reply_def team_parse_json_def team_parse_setup_def Let_def
    by (auto split: option.splits prod.splits intro!: held_steps r)
  then show ?thesis
    unfolding team_scan_def Let_def by (intro held_steps) (auto split: option.splits sum.splits intro!: held_steps)
qed

lemma held_tunnel:
  assumes "d \<in> set tunnel_drivers"
  shows "keeps (held e (Some d)) (gre_common_netlink env family e li)" "keeps (held e (Some d)) (vti_netlink env family e li)"
    "keeps (held e (Some d)) (ipxipy_netlink env family e li)"
  unfolding gre_common_netlink_def vti_netlink_def ipxipy_netlink_def
  by (intro held_steps priv_assign; simp add: assms)+

lemma held_vxlan_geneve:
  "keeps (held e (Some ''vxlan'')) (vxlan_netlink env e li)" "keeps (held e (Some ''geneve'')) (geneve_netlink env e li)"
proof -
  have "keeps (held e (Some ''vxlan'')) (vxlan_fill_addr env e get put ai_family attr)" for get put ai_family attr
    unfolding vxlan_fill_addr_def by (intro held_steps) simp_all
  then show "keeps (held e (Some ''vxlan'')) (vxlan_netlink env e li)"
    unfolding vxlan_netlink_def by (intro held_steps) simp_all
  show "keeps (held e (Some ''geneve'')) (geneve_netlink env e li)"
    unfolding geneve_netlink_def by (intro held_steps) simp_all
qed

section \<open>The phases\<close>

lemma held_variants:
  assumes "d \<in> set tunnel_drivers"
  shows "keeps (held e (Some d)) (gre_netlink env e li)" "keeps (held e (Some d)) (gre6_netlink env e li)"
    "keeps (held e (Some d)) (vti4_netlink env e li)" "keeps (held e (Some d)) (vti6_netlink env e li)"
    "keeps (held e (Some d)) (ipip_netlink env e li)" "keeps (held e (Some d)) (sit_netlink env e li)"
    "keeps (held e (Some d)) (ipxip6_netlink env e li)"
  by (simp_all add: gre_netlink_def gre6_netlink_def vti4_netlink_def vti6_netlink_def ipip_netlink_def sit_netlink_def
      ipxip6_netlink_def held_tunnel [OF assms])

lemmas held_callbacks = held_bond held_devices held_team held_variants held_vxlan_geneve

lemma netlink_held:
  "h \<in> set (register_handlers J teamds env) \<Longrightarrow> h_netlink h = Some f \<Longrightarrow> keeps (held e (h_driver h)) (f e li)"
  by (auto simp: handlers_list handler_defs held_callbacks tunnel_drivers_def)

lemma scan_held:
  "h \<in> set (register_handlers J teamds env) \<Longrightarrow> h_scan h = Some f \<Longrightarrow> keeps (held e (h_driver h)) (f e)"
  by (auto simp: handlers_list handler_defs held_callbacks)

lemma post_priv:
  "on_priv P \<Longrightarrow> h \<in> set (register_handlers J teamds env) \<Longrightarrow> h_post h = Some f \<Longrightarrow> keeps P (f e)"
  by (auto simp: handlers_list handler_defs priv_posts)

lemma keeps_callback:
  assumes "\<And>f. callback = Some f \<Longrightarrow> keeps (held e (h_driver h)) (f e)"
  shows "keeps typed (if_handler_callback h callback e)"
proof (rule keepsI)
  fix w err v
  assume t: "typed w" and r: "if_handler_callback h callback e w = Some (err, v)"
  show "typed v"
  proof (cases "driver_match h (w_if w e) \<and> callback \<noteq> None")
    case True
    then obtain f where f: "callback = Some f" by blast
    from True t have "held e (h_driver h) w" by (auto simp: held_def driver_match_def split: option.splits)
    from keepsD [OF assms [OF f] this] r True f show ?thesis
      by (auto simp: if_handler_callback_def branch_def handler_callback_def held_def)
  next
    case False
    with t r show ?thesis
      by (auto simp: if_handler_callback_def branch_def handler_callback_def return_err_def split: option.splits if_splits)
  qed
qed

lemma phases_typed:
  "keeps typed (if_handler_netlink (register_handlers J teamds env) e li)"
  "keeps typed (if_handler_scan (register_handlers J teamds env) e)"
  "keeps typed (if_handler_post (register_handlers J teamds env))"
proof -
  show "keeps typed (if_handler_netlink (register_handlers J teamds env) e li)"
    unfolding if_handler_netlink_def by (intro keeps_each keeps_callback) (auto intro: netlink_held)
  show "keeps typed (if_handler_scan (register_handlers J teamds env) e)"
    unfolding if_handler_scan_def by (intro keeps_each keeps_callback) (auto intro: scan_held)
  show "keeps typed (if_handler_post (register_handlers J teamds env))"
    unfolding if_handler_post_def by (intro keeps_reading keeps_each keeps_callback) (auto intro: post_priv on_priv_held)
qed

section \<open>Allocating the structure\<close>

text \<open>Every handler registers a structure of its own type, and those that need one do.\<close>

lemma handlers_fit:
  "h \<in> set (register_handlers J teamds env) \<Longrightarrow> h_driver h = Some d \<Longrightarrow>
    (case h_private h of None \<Rightarrow> d \<notin> set needing_drivers | Some p \<Rightarrow> fits d p)"
  by (auto simp: handlers_list handler_defs tunnel_drivers_def needing_drivers_def)

lemma needing_handled:
  "d \<in> set needing_drivers \<Longrightarrow> \<exists>h \<in> set (register_handlers J teamds env). h_driver h = Some d"
  by (auto simp: needing_drivers_def handlers_list handler_defs)

lemma blank_typed:
  assumes "blank e w" and "i_driver (w_if w e) = Some d" and "d \<notin> set needing_drivers"
  shows "typed w"
  unfolding typed_def
proof
  fix x show "private_ok (w_if w x) \<and> addrs_live (w_if w x)"
    using assms by (cases "x = e") (auto simp: blank_def private_ok_def)
qed

lemma blank_set:
  assumes "blank e w" and "i_driver (w_if w e) = Some d" and "fits d p"
  shows "typed (upd_if e (\<lambda>i. i\<lparr>i_private := Ptr p\<rparr>) (w\<lparr>w_mem := m\<rparr>))"
proof -
  have "private_ok ((w_if w e)\<lparr>i_private := Ptr p\<rparr>)" using assms(2,3) by (simp add: private_ok_def)
  moreover have "addrs_live ((w_if w e)\<lparr>i_private := Ptr p\<rparr>) = addrs_live (w_if w e)" by (simp add: addrs_live_def)
  ultimately show ?thesis using assms(1) by (simp add: typed_def blank_def)
qed

lemma init_result:
  assumes "\<And>h d. h \<in> set hs \<Longrightarrow> h_driver h = Some d \<Longrightarrow> (case h_private h of None \<Rightarrow> d \<notin> set needing_drivers | Some p \<Rightarrow> fits d p)"
    and "blank e w" and "if_handler_init hs e w = Some (0, v)" and "i_driver (w_if w e) = Some d"
  shows "typed v \<or> v = w \<and> (\<forall>h \<in> set hs. h_driver h \<noteq> Some d)"
  using assms(1,3)
proof (induction hs)
  case (Cons h hs)
  show ?case
  proof (cases "h_driver h = Some d")
    case True
    show ?thesis
    proof (cases "h_private h")
      case None
      with True Cons.prems(1) [of h d] have "d \<notin> set needing_drivers" by simp
      moreover from None True Cons.prems(2) assms(4) have "v = w" by (simp add: reading_def return_err_def)
      ultimately show ?thesis using blank_typed [OF assms(2,4)] by simp
    next
      case (Some p)
      with True Cons.prems(1) [of h d] have "fits d p" by simp
      moreover from Some True Cons.prems(2) assms(4) obtain m where "v = upd_if e (\<lambda>i. i\<lparr>i_private := Ptr p\<rparr>) (w\<lparr>w_mem := m\<rparr>)"
        by (auto simp: reading_def if_alloc_def Let_def assign_def andthen_def return_err_def ENOMEM_def split: prod.splits if_splits)
      ultimately show ?thesis using blank_set [OF assms(2,4)] by simp
    qed
  next
    case False
    with Cons.prems(2) assms(4) have "if_handler_init hs e w = Some (0, v)"
      by (auto simp: reading_def split: option.splits)
    from Cons.IH [OF Cons.prems(1) this] False show ?thesis by simp
  qed
qed (simp add: return_err_def)

text \<open>\<open>takes0 P Q f\<close>: where \<open>f\<close> returns 0, it leads from \<open>P\<close> to \<open>Q\<close>.\<close>

definition takes0 :: "('s \<Rightarrow> bool) \<Rightarrow> ('s \<Rightarrow> bool) \<Rightarrow> 's act \<Rightarrow> bool" where
  "takes0 P Q f \<longleftrightarrow> (\<forall>s s'. P s \<longrightarrow> f s = Some (0, s') \<longrightarrow> Q s')"

lemma takes0I: "(\<And>s s'. P s \<Longrightarrow> f s = Some (0, s') \<Longrightarrow> Q s') \<Longrightarrow> takes0 P Q f"
  by (auto simp: takes0_def)

lemma takes0D: "takes0 P Q f \<Longrightarrow> P s \<Longrightarrow> f s = Some (0, s') \<Longrightarrow> Q s'"
  by (auto simp: takes0_def)

lemma takes0_andthen: "takes0 P R f \<Longrightarrow> takes0 R Q g \<Longrightarrow> takes0 P Q (andthen f g)"
  by (rule takes0I) (auto simp: andthen_0 dest: takes0D)

lemma takes0_keeps: "keeps P f \<Longrightarrow> takes0 P P f"
  by (rule takes0I) (rule keepsD)

lemma takes0_fails: "err \<noteq> 0 \<Longrightarrow> takes0 P Q (return_err err)"
  by (rule takes0I) (simp add: return_err_def)

lemma takes0_undo: "takes0 P Q f \<Longrightarrow> takes0 P Q (or_undo f g)"
  by (rule takes0I) (auto simp: or_undo_def dest: takes0D split: option.splits if_splits)

lemma takes0_mem_call:
  assumes P: "on_priv P" and k: "\<And>x. takes0 P Q (k x)"
  shows "takes0 P Q (mem_call f k)"
proof (rule takes0I)
  fix w v
  assume w: "P w" and r: "mem_call f k w = Some (0, v)"
  obtain x m where f: "f (w_mem w) = (x, m)" by (cases "f (w_mem w)")
  with r have "k x (w\<lparr>w_mem := m\<rparr>) = Some (0, v)" by (simp add: mem_call_def)
  from takes0D [OF k priv_mem [OF P w] this] show "Q v" .
qed

lemma takes0_alloc: "on_priv P \<Longrightarrow> takes0 P Q f \<Longrightarrow> takes0 P Q g \<Longrightarrow> takes0 P Q (if_alloc f g)"
  using priv_mem [of P] unfolding takes0_def if_alloc_def Let_def by (auto split: prod.splits if_splits) blast+

lemma init_typed: "takes0 (blank e) typed (if_handler_init (register_handlers J teamds env) e)"
proof (rule takes0I)
  fix w v
  assume b: "blank e w" and r: "if_handler_init (register_handlers J teamds env) e w = Some (0, v)"
  from first_handler [of J teamds env] obtain hs where "register_handlers J teamds env = h_bond env # hs" "h_driver (h_bond env) \<noteq> None"
    by blast
  with r obtain d where d: "i_driver (w_if w e) = Some d" by (auto simp: reading_def crash_def split: option.splits)
  from init_result [OF handlers_fit [of _ J teamds env] b r d] needing_handled [of d J teamds env] blank_typed [OF b d] show "typed v" by blast
qed

section \<open>Reading an interface\<close>

lemma blank_driver: "keeps (blank e) (set_if e (\<lambda>i. i\<lparr>i_driver := d\<rparr>))"
  unfolding set_if_def by (rule keeps_assign) (auto simp: blank_def addrs_live_def)

lemma blank_fill_driver: "keeps (blank e) (fill_driver env e flags li)"
  unfolding fill_driver_def set_driver_def
  by (intro priv_steps blank_driver) (auto simp: set_if_def intro!: priv_assign on_priv_blank)

lemma priv_set_if: "on_priv P \<Longrightarrow> (\<And>i. if_owned (f i) = if_owned i) \<Longrightarrow> keeps P (set_if e f)"
  unfolding set_if_def by (rule priv_assign)

lemma priv_xdp:
  assumes P: "on_priv P"
  shows "keeps P (fill_if_xdp e a)"
proof -
  have "keeps P (fill_if_xdp_prog e mode a)" for mode a
    unfolding fill_if_xdp_prog_def Let_def by (intro priv_plain priv_alloc priv_assign P) simp
  then show ?thesis unfolding fill_if_xdp_def Let_def by (intro priv_plain priv_attrs P)
qed

lemma mac_filled:
  "mac_addr_fill_netlink a nla m = Some (0, a', m') \<Longrightarrow>
    mac_raw a' \<noteq> BadPtr \<and> (mac_formatted a' = BadPtr \<longrightarrow> mac_raw a' = Ptr [])"
  by (auto simp: mac_addr_fill_netlink_def Let_def ENOMEM_def ENOENT_def split: prod.splits if_splits option.splits)

lemma blank_fill_mac: "takes0 (blank e) (blank e) (fill_mac e a)"
proof (rule takes0I)
  fix w v
  assume b: "blank e w" and r: "fill_mac e a w = Some (0, v)"
  show "blank e v"
  proof (cases a)
    case (Some l)
    with r obtain mac m where f: "mac_addr_fill_netlink (i_mac_addr (w_if w e)) l (w_mem w) = Some (0, mac, m)"
        "v = upd_if e (\<lambda>i. i\<lparr>i_mac_addr := mac\<rparr>) (w\<lparr>w_mem := m\<rparr>)"
      by (auto simp: fill_mac_def reading_def crash_def andthen_def assign_def return_err_def split: option.splits if_splits)
    with mac_filled [OF f(1)] b show ?thesis by (simp add: blank_def addrs_live_def)
  qed (use b r in \<open>simp add: fill_mac_def ok_act_def\<close>)
qed

lemma link_driver_typed: "takes0 (blank e) typed (link_driver (register_handlers J teamds env) env' e flags tb li)"
  unfolding link_driver_def
  by (intro takes0_undo takes0_andthen [where R = "blank e"] takes0_keeps [OF blank_fill_driver] takes0_keeps [OF priv_xdp [OF on_priv_blank]]
      takes0_andthen [OF init_typed] takes0_keeps [OF keeps_tolerate] phases_typed)

lemma link_details_typed: "takes0 (blank e) typed (link_details (register_handlers J teamds env) env' e flags tb)"
proof -
  have r: "fst (link_info tb m) \<noteq> Inl 0" for m
    by (auto simp: link_info_def ENOMEM_def split: option.splits prod.splits)
  let ?k = "\<lambda>r. case r of Inl err \<Rightarrow> return_err err
      | Inr linkinfo \<Rightarrow> andthen (fill_mac e (tb IFLA_ADDRESS)) (link_driver (register_handlers J teamds env) env' e flags tb linkinfo)"
  have "takes0 (blank e) typed (mem_call (link_info tb) ?k)"
  proof (rule takes0I)
    fix w v
    assume b: "blank e w" and x: "mem_call (link_info tb) ?k w = Some (0, v)"
    obtain y m where y: "link_info tb (w_mem w) = (y, m)" by (cases "link_info tb (w_mem w)")
    with r [of "w_mem w"] x obtain li where "y = Inr li" by (cases y) (auto simp: mem_call_def return_err_def)
    with x y have "andthen (fill_mac e (tb IFLA_ADDRESS)) (link_driver (register_handlers J teamds env) env' e flags tb li) (w\<lparr>w_mem := m\<rparr>) = Some (0, v)"
      by (simp add: mem_call_def)
    from takes0D [OF takes0_andthen [OF blank_fill_mac link_driver_typed] priv_mem [OF on_priv_blank b] this] show "typed v" .
  qed
  then show ?thesis
    unfolding link_details_def
    by (intro takes0_andthen [where R = "blank e"] takes0_keeps priv_set_if on_priv_blank)
      (auto simp: copy_attrs_def Let_def split: option.splits)
qed

lemma link_named_typed: "takes0 (blank e) typed (link_named (register_handlers J teamds env) env' e flags tb nm)"
  unfolding link_named_def
  by (intro takes0_undo takes0_alloc on_priv_blank takes0_andthen [where R = "blank e"] takes0_keeps priv_set_if
      link_details_typed takes0_fails) (simp_all add: ENOMEM_def)

lemma fill_if_link_typed: "takes0 (blank e) typed (fill_if_link (register_handlers J teamds env) env' e msg)"
proof -
  have n: "takes0 (blank e) typed (andthen (set_if e (\<lambda>i. i\<lparr>i_index := x\<rparr>)) (link_named (register_handlers J teamds env) env' e flags tb nm))"
    for x flags tb nm
    by (intro takes0_andthen [where R = "blank e"] takes0_keeps priv_set_if on_priv_blank link_named_typed) simp
  have r: "takes0 (blank e) typed (return_err ENOENT)" "takes0 (blank e) typed (return_err ENOMEM)"
    by (simp_all add: takes0_fails ENOENT_def ENOMEM_def)
  show ?thesis
    unfolding fill_if_link_def by (auto split: option.splits prod.splits intro!: r n takes0_mem_call on_priv_blank)
qed

lemma addr_init_live: "addr_init ntop addr0 family p raw m = (0, a, m') \<Longrightarrow> addr_live a"
  by (auto simp: addr_init_def addr0_def addr_live_def Let_def ENOMEM_def split: prod.splits if_splits sum.splits)

lemma typed_addr_mem:
  assumes "\<And>a. addr_live a \<Longrightarrow> takes0 typed typed (k (0, a))" and "\<And>err a. err \<noteq> 0 \<Longrightarrow> takes0 typed typed (k (err, a))"
  shows "takes0 typed typed (mem_call (addr_mem ntop ifa l) k)"
proof (rule takes0I)
  fix w v
  assume w: "typed w" and r: "mem_call (addr_mem ntop ifa l) k w = Some (0, v)"
  obtain err a m where i: "addr_init ntop addr0 (ifa_family ifa) (ifa_prefixlen ifa) (nla_read l) (w_mem w) = (err, a, m)"
    by (rule prod_cases3)
  with r have x: "k (err, a) (w\<lparr>w_mem := m\<rparr>) = Some (0, v)" by (simp add: mem_call_def addr_mem_def addr_init_netlink_def)
  have "takes0 typed typed (k (err, a))" using assms addr_init_live i by (cases "err = 0") auto
  from takes0D [OF this priv_mem [OF on_priv_typed w] x] show "typed v" .
qed

lemma typed_add_addr: "addr_live a \<Longrightarrow> addr_live p \<Longrightarrow> takes0 typed typed (add_if_addr e a p)"
proof -
  have "private_ok (i\<lparr>i_addr := x\<rparr>) = private_ok i" for i x
    by (cases "i_driver i") (simp_all add: private_ok_def)
  moreover assume "addr_live a" "addr_live p"
  ultimately show ?thesis
    unfolding add_if_addr_def set_if_def
    by (intro takes0_keeps keeps_assign) (simp add: typed_def addrs_live_def)
qed

lemma typed_peer_addr:
  "addr_live a \<Longrightarrow> takes0 typed typed (mem_call (addr_mem ntop ifa p) (\<lambda>(err, p). andthen (add_if_addr e a p) (return_err err)))"
proof (rule typed_addr_mem)
  assume "addr_live a"
  then show "takes0 typed typed (case (0, p) of (err, p) \<Rightarrow> andthen (add_if_addr e a p) (return_err err))" if "addr_live p" for p
    using that by (simp only: prod.case) (intro takes0_andthen [OF typed_add_addr] takes0_keeps [OF keeps_return_err])
qed (simp only: prod.case, rule takes0I, simp add: andthen_0 return_err_def)

lemma typed_both_addrs:
  "takes0 typed typed (mem_call (addr_mem (env_ntop env) ifa l) (\<lambda>(err, a).
      if err \<noteq> 0 then andthen (add_if_addr e a addr0) (return_err err)
      else (case other of
          Some p \<Rightarrow>
            if take (addr_len (ifa_family ifa)) (nla_read p) \<noteq> take (addr_len (ifa_family ifa)) (nla_read l)
            then mem_call (addr_mem (env_ntop env) ifa p) (\<lambda>(err, p). andthen (add_if_addr e a p) (return_err err))
            else add_if_addr e a addr0
        | None \<Rightarrow> add_if_addr e a addr0)))"
proof (rule typed_addr_mem)
  have z: "addr_live addr0" by (simp add: addr_live_def addr0_def)
  fix a assume "addr_live a"
  then show "takes0 typed typed (case (0, a) of (err, a) \<Rightarrow>
      if err \<noteq> 0 then andthen (add_if_addr e a addr0) (return_err err)
      else (case other of
          Some p \<Rightarrow>
            if take (addr_len (ifa_family ifa)) (nla_read p) \<noteq> take (addr_len (ifa_family ifa)) (nla_read l)
            then mem_call (addr_mem (env_ntop env) ifa p) (\<lambda>(err, p). andthen (add_if_addr e a p) (return_err err))
            else add_if_addr e a addr0
        | None \<Rightarrow> add_if_addr e a addr0))"
    by (simp only: prod.case if_False simp_thms split: option.split if_split)
      (intro conjI impI allI typed_peer_addr typed_add_addr z; assumption)
qed (simp only: prod.case if_True simp_thms, rule takes0I, simp add: andthen_0 return_err_def)

lemma typed_fill_addr: "takes0 typed typed (fill_if_addr env e alist)"
proof -
  have ok: "takes0 typed typed ok_act" by (rule takes0_keeps [OF keeps_ok])
  have r: "takes0 typed typed (return_err ENOENT)" "takes0 typed typed (return_err ENOMEM)"
    by (simp_all add: takes0_fails ENOENT_def ENOMEM_def)
  have b: "takes0 typed typed (branch c g h)" if "takes0 typed typed g" "takes0 typed typed h" for c g h
  proof (rule takes0I)
    fix w v assume "typed w" "branch c g h w = Some (0, v)"
    then show "typed v" using takes0D [OF that(1), of w v] takes0D [OF that(2), of w v] by (cases "c w") (simp_all add: branch_def)
  qed
  have c: "takes0 typed typed (if c then g else h)" if "takes0 typed typed g" "takes0 typed typed h" for c g h
    using that by simp
  have v: "takes0 typed typed (case v of None \<Rightarrow> g | Some x \<Rightarrow> h x)" if "takes0 typed typed g" "\<And>x. takes0 typed typed (h x)"
    for v :: "attrs option" and g h using that by (cases v) auto
  have q: "takes0 typed typed (case v of None \<Rightarrow> g | Some (x, y) \<Rightarrow> h x y)" if "takes0 typed typed g" "\<And>x y. takes0 typed typed (h x y)"
    for v :: "(nlattr \<times> nlattr option) option" and g h using that by (auto split: option.split)
  have m: "takes0 typed typed (mem_call (nlmsg_attrs msg IFA_MAX) k)" if "\<And>x. takes0 typed typed (k x)" for msg k
    by (rule takes0_mem_call [OF on_priv_typed that])
  have "takes0 typed typed (fill_one_addr env e ainfo)" for ainfo
  proof (cases "nlmsg_get ainfo 8")
    case (Pair x msg)
    show ?thesis
    proof (cases x)
      case (Some bs)
      with Pair show ?thesis
        by (simp only: fill_one_addr_def Let_def prod.case option.case)
          (intro b c v q ok r m takes0_alloc [OF on_priv_typed] typed_both_addrs)
    qed (simp add: Pair fill_one_addr_def r)
  qed
  then have "takes0 typed typed (each_act (fill_one_addr env e) alist)"
    by (induction alist) (auto intro: ok takes0_andthen)
  then show ?thesis unfolding fill_if_addr_def by (rule takes0_andthen) (rule takes0_keeps [OF keeps_return_err])
qed

lemma if_create_blank:
  assumes "typed w" and "if_create w = (Some e, v)"
  shows "blank e v"
proof -
  have "addrs_live if_entry0" "i_private if_entry0 = NullPtr" by (simp_all add: addrs_live_def if_entry0_def mac_addr_init_def)
  moreover from assms(2) have "w_if v = (w_if w)(e := if_entry0)"
    by (cases "alloc (w_mem w)") (auto simp: if_create_def Let_def split: if_splits)
  ultimately show ?thesis using assms(1) by (simp add: blank_def typed_def)
qed

lemma read_link_typed: "takes0 typed typed (read_link (register_handlers J teamds env) env' n ainfo l)"
proof (rule takes0I)
  fix w v
  assume t: "typed w" and r: "read_link (register_handlers J teamds env) env' n ainfo l w = Some (0, v)"
  then obtain e u where c: "if_create w = (Some e, u)"
    by (cases "if_create w") (auto simp: read_link_def ENOMEM_def split: option.splits)
  have k: "keeps (blank e) (assign (upd_ns n (\<lambda>s. s\<lparr>n_ifaces := n_ifaces s @ [e]\<rparr>)))"
    by (rule keeps_assign) (rule priv_upd_ns [OF on_priv_blank])
  have "keeps (blank e) (set_if e (\<lambda>i. i\<lparr>i_ns := n\<rparr>))" by (rule priv_set_if [OF on_priv_blank]) simp
  then have "takes0 (blank e) typed (andthen (assign (upd_ns n (\<lambda>s. s\<lparr>n_ifaces := n_ifaces s @ [e]\<rparr>)))
       (andthen (set_if e (\<lambda>i. i\<lparr>i_ns := n\<rparr>))
       (andthen (fill_if_link (register_handlers J teamds env) env' e l)
       (andthen (fill_if_addr env' e ainfo) (if_handler_scan (register_handlers J teamds env) e)))))"
    by (intro takes0_andthen [OF takes0_keeps [OF k]] takes0_andthen [OF takes0_keeps] takes0_andthen [OF fill_if_link_typed]
        takes0_andthen [OF typed_fill_addr] takes0_keeps [OF phases_typed(2)])
  from takes0D [OF this if_create_blank [OF t c]] r c show "typed v" by (simp add: read_link_def)
qed

lemma if_list_typed: "takes0 typed typed (if_list (register_handlers J teamds env) env' sk n)"
proof (rule takes0I)
  fix w v
  assume t: "typed w" and r: "if_list (register_handlers J teamds env) env' sk n w = Some (0, v)"
  let ?w = "upd_ns n (\<lambda>s. s\<lparr>n_ifaces := []\<rparr>) w"
  have u: "typed (?w\<lparr>w_mem := m\<rparr>)" for m by (intro priv_mem [OF on_priv_typed] priv_upd_ns [OF on_priv_typed] t)
  from if_list_dumped [OF r] obtain linfo ainfo m where d: "if_dumps sk ?w = Some (0, linfo, ainfo, m)" by blast
  have "takes0 typed typed (each_act (read_link (register_handlers J teamds env) env' n ainfo) linfo)"
    by (induction linfo) (auto intro: takes0_andthen read_link_typed takes0_keeps keeps_ok)
  then have k: "takes0 typed typed (andthen (each_act (read_link (register_handlers J teamds env) env' n ainfo) linfo) (return_err 0))"
    by (rule takes0_andthen) (rule takes0_keeps [OF keeps_return_err])
  from r d have "andthen (each_act (read_link (register_handlers J teamds env) env' n ainfo) linfo) (return_err 0) (?w\<lparr>w_mem := m\<rparr>) = Some (0, v)"
    by (simp add: if_list_def andthen_def [of "assign _"] assign_def)
  from takes0D [OF k u this] show "typed v" .
qed

section \<open>The whole run\<close>

lemma read_netns_typed: "takes0 typed typed (read_netns S cur n)"
proof -
  have m: "typed (w\<lparr>w_mem := m\<rparr>)" if "typed w" for m w by (rule priv_mem [OF on_priv_typed that])
  have u: "typed (upd_ns n f w)" if "typed w" for f w by (rule priv_upd_ns [OF on_priv_typed that])
  have "keeps typed (route_scan env sks n)" for env sks
    by (rule keepsI) (auto simp: route_scan_def Let_def split: option.splits prod.splits if_splits intro: u m)
  then have "keeps typed (netns_handler_scan (register_netns_handlers env sks) n)" for env sks
    unfolding netns_handler_scan_def register_netns_handlers_def netns_handler_register_def h_route_def handler_callback_def
    by (intro keeps_each) auto
  then show ?thesis
    unfolding read_netns_def su_handlers_def by (intro takes0_andthen [OF if_list_typed] takes0_keeps)
qed

lemma scan_all_typed: "scan_all K S ns cur mt w = Some (0, cur', mt', w') \<Longrightarrow> typed w \<Longrightarrow> typed w'"
proof (induction ns arbitrary: cur mt w)
  case (Cons n ns)
  from Cons.prems(1) obtain c mt1 v where v: "read_netns S c n w = Some (0, v)" "scan_all K S ns c mt1 v = Some (0, cur', mt', w')"
    by (auto simp: Let_def split: prod.splits option.splits if_splits)
  from Cons.IH [OF v(2) takes0D [OF read_netns_typed Cons.prems(2) v(1)]] show ?case .
qed simp

lemma all_ids_typed: "all_ids K ns cur w = Some (cur', w') \<Longrightarrow> typed w \<Longrightarrow> typed w'"
proof (induction ns arbitrary: cur w)
  case (Cons n ns)
  from Cons.prems(1) obtain c v where v: "netns_get_all_ids K n cur w = Some (c, v)" "all_ids K ns c v = Some (cur', w')"
    by (auto split: option.splits)
  have "typed (upd_ns n (\<lambda>s. s\<lparr>n_ids := ids\<rparr>) (w\<lparr>w_mem := m\<rparr>))" for ids m
    by (rule priv_upd_ns [OF on_priv_typed priv_mem [OF on_priv_typed Cons.prems(2)]])
  with v(1) Cons.prems(2) have "typed v"
    by (auto simp: netns_get_all_ids_def Let_def split: bind_splits prod.splits if_splits)
  from Cons.IH [OF v(2) this] show ?case .
qed simp

lemma resolving_typed: "keeps typed match_all_netnsid" "keeps typed master_resolve"
proof -
  have "keeps typed (netnsid_links n e)" for n e
    unfolding netnsid_links_def Let_def by (intro priv_steps priv_assign) simp
  then show "keeps typed match_all_netnsid" unfolding match_all_netnsid_def by (intro priv_steps)
  have e: "keeps typed (err_msg d t e)" for d t e unfolding err_msg_def by (intro priv_steps)
  have r: "keeps typed (resolve_by callback t f e)" if "\<And>x. keeps typed (f x e)" for callback t f e
    unfolding resolve_by_def by (auto split: option.splits intro!: priv_steps e that)
  have "keeps typed (process e)" for e unfolding process_def by (intro priv_steps r)
  then show "keeps typed master_resolve" unfolding master_resolve_def by (intro priv_steps)
qed

section \<open>Open vSwitch\<close>

lemmas typed_mem = priv_mem [OF on_priv_typed] and typed_ns = priv_upd_ns [OF on_priv_typed]

lemma typed_create:
  assumes "typed w"
  shows "typed (w\<lparr>w_if := (w_if w)(e := if_entry0), w_next := k\<rparr>)"
proof -
  have "private_ok if_entry0" "addrs_live if_entry0" by (simp_all add: private_ok_def addrs_live_def if_entry0_def mac_addr_init_def)
  with assms show ?thesis by (simp add: typed_def)
qed

lemma if_create_typed: "typed w \<Longrightarrow> if_create w = (c, v) \<Longrightarrow> typed v"
  by (cases "alloc (w_mem w)") (auto simp: if_create_def Let_def split: if_splits intro!: typed_create [of "w\<lparr>w_mem := _\<rparr>", simplified] typed_mem)

lemma create_iface_typed:
  assumes t: "typed w" and c: "create_iface name br w = (c, v)"
  shows "typed v"
proof (cases "if_create w")
  case (Pair e u)
  with if_create_typed [OF t] have u: "typed u" by simp
  show ?thesis
  proof (cases e)
    case None
    with Pair c u show ?thesis by (simp add: create_iface_def Let_def)
  next
    case (Some x)
    obtain ok m where a: "allocs 2 (w_mem u) = (ok, m)" by (cases "allocs 2 (w_mem u)")
    have "typed (upd_if x (\<lambda>i. i\<lparr>i_internal_ns := a, i_name := b, i_ns := r, i_flags := f i\<rparr>) (u\<lparr>w_mem := m\<rparr>))" for a b r f
      by (rule priv_upd [OF on_priv_typed _ typed_mem [OF u]]) simp
    with Pair Some a c show ?thesis
      by (cases ok) (auto simp: create_iface_def Let_def intro!: typed_ns typed_mem u)
  qed
qed

lemma check_vport_typed: "typed w \<Longrightarrow> check_vport V n e w = Some (ok, v) \<Longrightarrow> typed v"
  by (auto simp: check_vport_def Let_def split: bind_splits if_splits option.splits prod.splits intro: typed_mem)

lemma search_typed:
  assumes "typed w" and "link_iface_search V dp master iface e w = Some (r, v)"
  shows "typed v"
proof -
  have u: "typed (upd_if e (\<lambda>i. i\<lparr>i_sub_driver := s\<rparr>) (w\<lparr>w_mem := m\<rparr>))" for s m
    by (rule priv_upd [OF on_priv_typed _ typed_mem [OF assms(1)]]) simp
  show ?thesis
    using assms u unfolding link_iface_search_def Let_def
    by (auto split: if_splits ovs_dp_type.splits option.splits prod.splits bind_splits dest: check_vport_typed)
qed

lemma search_weights_typed:
  "search_weights (link_iface_search V dp master iface) es w = Some (p, v) \<Longrightarrow> typed w \<Longrightarrow> typed v"
proof (induction es arbitrary: w p v)
  case (Cons e es)
  from Cons.prems(1) obtain r u q where "link_iface_search V dp master iface e w = Some (r, u)"
    "search_weights (link_iface_search V dp master iface) es u = Some (q, v)" by (auto split: bind_splits)
  with Cons.IH search_typed [OF Cons.prems(2)] show ?case by blast
qed simp

lemma root_warn_typed: "typed w \<Longrightarrow> typed (root_warn msg w)"
  by (auto simp: root_warn_def Let_def split: prod.splits intro!: typed_ns typed_mem)

lemma link_iface_typed:
  assumes "typed w" and "link_iface V dp master iface required w = Some (err, iface', v)"
  shows "typed v"
proof (cases "oi_link iface")
  case None
  with assms(2) obtain p u err' d where s: "search_weights (link_iface_search V dp master iface) (all_ifs w) w = Some (p, u)"
    and m: "match_if u (\<lambda>e. Some (p e)) (match_init\<lparr>md_netns_list := Some (w_list u)\<rparr>) = Some (err', d)"
    by (auto simp: link_iface_def split: bind_splits)
  from assms(2) None s m have "v = u \<or> (\<exists>msg. v = root_warn msg u)"
    unfolding link_iface_def Let_def by (simp split: if_splits) (metis | blast)+
  with root_warn_typed search_weights_typed [OF s assms(1)] show ?thesis by blast
qed (use assms in \<open>simp add: link_iface_def\<close>)

lemma label_port_typed: "keeps typed (label_port_or_iface port e)"
proof -
  have l: "keeps typed (set_label e lbl)" for lbl
    unfolding set_label_def by (rule priv_assign [OF on_priv_typed]) simp
  show ?thesis
    unfolding label_port_or_iface_def Let_def
    by (intro priv_steps) (auto split: cptr.splits option.splits intro!: priv_steps l)
qed

lemma connect_typed: "keeps typed (connect_iface V port master iface e)"
proof -
  have l: "keeps typed (label_iface iface e)"
    unfolding label_iface_def by (intro keeps_each) (auto split: option.splits intro!: priv_steps)
  have t: "keeps typed (link_tunnel V iface e)"
    unfolding link_tunnel_def by (intro priv_steps priv_assign) simp
  have p: "keeps typed (link_patch iface e)"
    unfolding link_patch_def by (rule keeps_reading) (auto split: option.splits intro!: priv_steps)
  show ?thesis unfolding connect_iface_def by (intro priv_steps l t p label_port_typed)
qed

lemma port_iface_typed: "keeps typed (link_port_iface V br ovs_master port master iface)"
proof (rule keepsI)
  fix w err v
  assume t: "typed w" and r: "link_port_iface V br ovs_master port master iface w = Some (err, v)"
  then obtain err1 i u where u: "link_iface V (ob_dp_type br) ovs_master iface False w = Some (err1, i, u)"
    by (auto simp: link_port_iface_def split: bind_splits)
  have s: "typed u" by (rule link_iface_typed [OF t u])
  show "typed v"
  proof (cases "err1 \<noteq> 0 \<or> oi_link i \<noteq> None")
    case True
    with r u s show ?thesis by (auto simp: link_port_iface_def split: if_splits dest: keepsD [OF connect_typed])
  next
    case False
    obtain c x where c: "create_iface (oi_name i) (ob_name br) u = (c, x)" by (cases "create_iface (oi_name i) (ob_name br) u")
    from create_iface_typed [OF s c] r u False c show ?thesis
      by (auto simp: link_port_iface_def split: option.splits dest: keepsD [OF connect_typed])
  qed
qed

lemma port_typed: "keeps typed (link_port V br ovs_master port)"
proof (rule keepsI)
  fix w err v
  assume t: "typed w" and r: "link_port V br ovs_master port w = Some (err, v)"
  have k: "keeps typed (each_act (link_port_iface V br ovs_master port x) xs)" for x xs
    by (intro keeps_each port_iface_typed)
  show "typed v"
  proof (cases "op_iface_count port > 1")
    case True
    obtain c x where c: "create_iface (op_name port) (ob_name br) w = (c, x)" by (cases "create_iface (op_name port) (ob_name br) w")
    have "keeps typed (andthen (master_set m e) (andthen (label_port_or_iface port e) (each_act (link_port_iface V br ovs_master port (Some e)) xs)))"
      for m e xs by (intro priv_steps label_port_typed port_iface_typed)
    from keepsD [OF this create_iface_typed [OF t c]] create_iface_typed [OF t c] r c True show ?thesis
      by (auto simp: link_port_def split: option.splits)
  qed (use r t in \<open>auto simp: link_port_def dest: keepsD [OF k]\<close>)
qed

lemma bridge_typed: "keeps typed (link_bridge V br)"
proof (rule keepsI)
  fix w err v
  assume t: "typed w" and r: "link_bridge V br w = Some (err, v)"
  from r root_warn_typed [OF t] consider "typed v"
    | m err' m' u where "link_iface V (ob_dp_type br) m m True w = Some (err', m', u)"
        "v = u \<or> each_act (link_port V br m') (ob_ports br) u = Some (err, v)"
    by (auto simp: link_bridge_def Let_def split: option.splits if_splits list.splits bind_splits)
  then show "typed v"
  proof cases
    case 2
    have "keeps typed (each_act (link_port V br m') (ob_ports br))" by (intro keeps_each port_typed)
    from keepsD [OF this link_iface_typed [OF t 2(1)]] link_iface_typed [OF t 2(1)] 2(2) show ?thesis by blast
  qed
qed

lemma ovs_post_typed: "keeps typed (ovs_global_post V)"
proof (rule keepsI)
  fix w err v
  assume t: "typed w" and r: "ovs_global_post V w = Some (err, v)"
  have b: "typed (set_bridges brs u)" if "typed u" for brs u
    using that by (simp add: set_bridges_def typed_def)
  have p: "keeps typed (parse_reply V reply)" for reply
    by (rule keepsI) (auto simp: parse_reply_def Let_def split: option.splits prod.splits sum.splits intro!: b typed_ns typed_mem)
  have k: "keeps typed (andthen (parse_reply V reply) (branch (\<lambda>w. os_bridges (w_ovs w) = []) ok_act (link_ifaces V)))" for reply
    unfolding link_ifaces_def by (intro keeps_andthen p keeps_branch keeps_ok keeps_reading keeps_each bridge_typed)
  have m: "typed (w\<lparr>w_mem := m\<rparr>)" for m by (rule typed_mem [OF t])
  from r m show "typed v"
    by (auto simp: ovs_global_post_def ovs_talk_def Let_def split: prod.splits option.splits if_splits bind_splits
        dest!: keepsD [OF k, rotated])
qed

section \<open>The result\<close>

lemma resolve_typed: "keeps typed (resolve_all S (register_global_handlers V) cur)"
proof -
  have "keeps typed (global_handler_post (register_global_handlers V))"
    unfolding global_handler_post_def by (intro keeps_each)
      (auto simp: register_global_handlers_def global_handler_register_def gh_ovs_def ovs_post_typed)
  then show ?thesis
    unfolding resolve_all_def su_handlers_def by (intro keeps_ignoring keeps_andthen resolving_typed phases_typed)
qed

lemma fill_typed:
  assumes r: "netns_fill_list K S (register_global_handlers V) supported os s mt = Some (0, mt', w)"
  shows "typed w"
proof -
  from r obtain s1 c1 mt0 mt1 w1 c2 w2 where
    c: "netns_collect K supported s = Some (0, s1)"
    and a: "scan_all K S (w_list (world_of (s_list s1) (s_mem s1) os)) (s_cur s1) mt0 (world_of (s_list s1) (s_mem s1) os) = Some (0, c1, mt1, w1)"
    and i: "all_ids K (w_list w1) c1 w1 = Some (c2, w2)" and v: "resolve_all S (register_global_handlers V) c2 w2 = Some (0, w)"
    by (auto simp: netns_fill_list_def Let_def split: bind_splits if_splits prod.splits)
  have "typed (world_of (s_list s1) (s_mem s1) os)"
    by (simp add: typed_def world_of_def private_ok_def addrs_live_def if_entry0_def mac_addr_init_def)
  from keepsD [OF resolve_typed all_ids_typed [OF i scan_all_typed [OF a this]] v] show ?thesis .
qed

section \<open>What has survived the post callbacks\<close>

text \<open>
  The post callbacks of the tunnels follow the pointer, so a run that gets past them had live
  structures: from a successful phase one can go back to each of its calls.
\<close>

lemma each_act_reach:
  assumes "\<And>y. keeps P (f y)" and "x \<in> set xs"
  shows "each_act f xs w = Some (0, v) \<Longrightarrow> P w \<Longrightarrow> \<exists>u u'. P u \<and> f x u = Some (0, u')"
  using assms(2)
proof (induction xs arbitrary: w)
  case (Cons y xs)
  from Cons.prems(1) obtain u where u: "f y w = Some (0, u)" "each_act f xs u = Some (0, v)" by (auto simp: andthen_0)
  show ?case
  proof (cases "x = y")
    case True
    with Cons.prems(2) u(1) show ?thesis by blast
  next
    case False
    with Cons.prems(3) Cons.IH [OF u(2) keepsD [OF assms(1) Cons.prems(2) u(1)]] show ?thesis by simp
  qed
qed simp

lemma keeps_if_callback:
  "(\<And>f. callback = Some f \<Longrightarrow> keeps P (f e)) \<Longrightarrow> keeps P (if_handler_callback h callback e)"
  unfolding if_handler_callback_def handler_callback_def
  by (intro keeps_branch keeps_return_err) (auto split: option.splits intro: keeps_return_err)

definition lists_are :: "nsp list \<Rightarrow> (nsp \<Rightarrow> ifp list) \<Rightarrow> world \<Rightarrow> bool" where
  "lists_are ns es w \<longleftrightarrow> w_list w = ns \<and> (\<forall>n. n_ifaces (w_ns w n) = es n)"

interpretation listing: relating "lists_are ns es" UNIV for ns es
proof unfold_locales
  show "on_links (lists_are ns es)" by (simp add: on_links_def same_links_def lists_are_def)
  show "keeps (lists_are ns es) (link_set t entry)" for t entry
    by (cases entry) (auto simp: link_set_assign lists_are_def intro!: keeps_assign keeps_return_err)
  show "keeps (lists_are ns es) (assign (upd_if e (\<lambda>i. i\<lparr>i_physfn := t\<rparr>)))" for e t
    by (rule keeps_assign) (simp add: lists_are_def)
  show "keeps (lists_are ns es) (peer_set a b)" for a b
    unfolding peer_set_def by (intro keeps_andthen keeps_assign) (simp_all add: lists_are_def)
qed (auto simp: lists_are_def master_set_assign intro!: keeps_assign)

definition following_drivers :: "string list" where
  "following_drivers = tunnel_drivers @ [''vxlan'']"

definition follows :: "ifp \<Rightarrow> (ifp \<Rightarrow> wact) option \<Rightarrow> bool" where
  "follows e callback \<longleftrightarrow>
     (case callback of None \<Rightarrow> False | Some g \<Rightarrow> \<forall>w. (\<forall>p. i_private (w_if w e) \<noteq> Ptr p) \<longrightarrow> g e w = None)"

lemma posts_crash:
  assumes "\<And>p. i_private (w_if w e) \<noteq> Ptr p"
  shows "gre_post e w = None" "vti_post e w = None" "ipxipy_post e w = None" "vxlan_post e w = None"
  using assms
  by (cases "i_private (w_if w e)"; simp add: gre_post_def vti_post_def ipxipy_post_def vxlan_post_def with_vxlan_def reading_def crash_def)+

lemma posts_follow: "follows e (Some gre_post)" "follows e (Some vti_post)" "follows e (Some ipxipy_post)" "follows e (Some vxlan_post)"
  by (simp_all add: follows_def posts_crash)

lemma following_handled:
  "d \<in> set following_drivers \<Longrightarrow> \<exists>h \<in> set (register_handlers J teamds env). h_driver h = Some d \<and> follows e (h_post h)"
  unfolding following_drivers_def tunnel_drivers_def
  by (simp, elim disjE) (simp_all add: handlers_list handler_defs posts_follow)

lemma on_priv_entry: "on_priv (\<lambda>w. i_driver (w_if w e) = d \<and> i_private (w_if w e) = p)"
  unfolding on_priv_def by simp

lemma post_needs_structure:
  assumes r: "if_handler_post (register_handlers J teamds env) w = Some (0, v)" and e: "e \<in> set (all_ifs w)"
    and d: "i_driver (w_if w e) = Some d" "d \<in> set following_drivers"
  shows "\<exists>p. i_private (w_if w e) = Ptr p"
proof (rule ccontr)
  assume n: "\<not> ?thesis"
  let ?hs = "register_handlers J teamds env"
  let ?P = "\<lambda>u. lists_are (w_list w) (\<lambda>n. n_ifaces (w_ns w n)) u \<and> i_driver (w_if u e) = Some d \<and> i_private (w_if u e) = i_private (w_if w e)"
  have c: "keeps ?P (if_handler_callback h (h_post h) x)" if "h \<in> set ?hs" for h x
  proof -
    have "keeps (lists_are (w_list w) (\<lambda>n. n_ifaces (w_ns w n))) (if_handler_callback h (h_post h) x)"
      using that by (intro keeps_if_callback) (auto intro: listing.all_post)
    moreover have "keeps (\<lambda>u. i_driver (w_if u e) = Some d \<and> i_private (w_if u e) = i_private (w_if w e)) (if_handler_callback h (h_post h) x)"
      using that by (intro keeps_if_callback) (auto intro: post_priv on_priv_entry)
    ultimately show ?thesis unfolding keeps_def by blast
  qed
  obtain ns where ns: "ns \<in> set (w_list w)" "e \<in> set (n_ifaces (w_ns w ns))" using e by (auto simp: all_ifs_def)
  have i: "keeps ?P (each_act (\<lambda>h. if_handler_callback h (h_post h) x) ?hs)" for x by (rule keeps_each) (rule c)
  then have k: "keeps ?P (reading (\<lambda>u. each_act (\<lambda>x. each_act (\<lambda>h. if_handler_callback h (h_post h) x) ?hs) (n_ifaces (w_ns u m))))" for m
    by (intro keeps_reading keeps_each c)
  have w: "?P w" using d by (simp add: lists_are_def)
  from r have r: "each_act (\<lambda>n. reading (\<lambda>u. each_act (\<lambda>x. each_act (\<lambda>h. if_handler_callback h (h_post h) x) ?hs) (n_ifaces (w_ns u n))))
      (w_list w) w = Some (0, v)" by (simp add: if_handler_post_def reading_def)
  from each_act_reach [OF k ns(1) r w] obtain u u' where u: "?P u"
    "each_act (\<lambda>x. each_act (\<lambda>h. if_handler_callback h (h_post h) x) ?hs) (n_ifaces (w_ns w ns)) u = Some (0, u')"
    by (auto simp: reading_def lists_are_def)
  from each_act_reach [OF i ns(2) u(2) u(1)] obtain x x' where x: "?P x"
    "each_act (\<lambda>h. if_handler_callback h (h_post h) e) ?hs x = Some (0, x')" by blast
  from following_handled [OF d(2), of J teamds env e] obtain h where
    "h \<in> set ?hs" "h_driver h = Some d" "follows e (h_post h)" by blast
  moreover from this obtain g where "h_post h = Some g" by (cases "h_post h") (auto simp: follows_def)
  ultimately have h: "h \<in> set ?hs" "h_driver h = Some d" "h_post h = Some g" "(\<forall>p. i_private (w_if w e) \<noteq> Ptr p) \<Longrightarrow> g e w = None" for w
    by (simp_all add: follows_def)
  let ?f = "\<lambda>h. if h \<in> set ?hs then if_handler_callback h (h_post h) e else ok_act"
  have "each_act ?f hs = each_act (\<lambda>h. if_handler_callback h (h_post h) e) hs" if "set hs \<subseteq> set ?hs" for hs
    using that by (induction hs) auto
  with x(2) have "each_act ?f ?hs x = Some (0, x')" by simp
  moreover have "keeps ?P (?f h)" for h using c by (simp add: keeps_ok)
  ultimately obtain y y' where y: "?P y" "?f h y = Some (0, y')" using each_act_reach [of ?P ?f, OF _ h(1)] x(1) by blast
  then have "g e y = Some (0, y')" using h(1-3)
    by (simp add: if_handler_callback_def branch_def driver_match_def handler_callback_def)
  with h(4) [of y] n y(1) show False by auto
qed

lemma fits_kinds: "fits ''bonding'' p \<longleftrightarrow> (\<exists>b. p = BondPriv b)" "fits ''team'' p \<longleftrightarrow> (\<exists>t. p = TeamPriv t)"
  by (cases p; simp add: tunnel_drivers_def)+

lemma fill_structures:
  assumes r: "netns_fill_list K S (register_global_handlers V) supported os s mt = Some (0, mt', w)"
    and e: "e \<in> set (all_ifs w)" and d: "i_driver (w_if w e) = Some d" "d \<in> set following_drivers"
  shows "\<exists>p. i_private (w_if w e) = Ptr p"
proof -
  from r obtain s1 c1 mt0 mt1 w1 c2 w2 where "netns_collect K supported s = Some (0, s1)"
    and "scan_all K S (w_list (world_of (s_list s1) (s_mem s1) os)) (s_cur s1) mt0 (world_of (s_list s1) (s_mem s1) os) = Some (0, c1, mt1, w1)"
    and "all_ids K (w_list w1) c1 w1 = Some (c2, w2)" and v: "resolve_all S (register_global_handlers V) c2 w2 = Some (0, w)"
    by (auto simp: netns_fill_list_def Let_def split: bind_splits if_splits prod.splits)
  from v obtain w3 where p: "if_handler_post (su_handlers S c2) w3 = Some (0, w)"
    by (auto simp: resolve_all_def ignoring_def andthen_0 split: option.splits)
  note p = p [unfolded su_handlers_def]
  have "lists_are (w_list w3) (\<lambda>n. n_ifaces (w_ns w3 n)) w"
    by (rule keepsD [OF listing.phases.post_phase_keeps _ p]) (simp add: lists_are_def)
  then have l: "all_ifs w3 = all_ifs w" by (simp add: lists_are_def all_ifs_def)
  have k: "keeps (\<lambda>u. i_driver (w_if u e) = i_driver (w_if w3 e) \<and> i_private (w_if u e) = i_private (w_if w3 e))
      (if_handler_post (register_handlers (su_json S) (su_teamd S) (su_env S c2)))"
    unfolding if_handler_post_def
    by (intro keeps_reading keeps_each keeps_if_callback) (auto intro: post_priv on_priv_entry)
  from keepsD [OF k _ p] have "i_driver (w_if w e) = i_driver (w_if w3 e)" "i_private (w_if w e) = i_private (w_if w3 e)" by simp_all
  with post_needs_structure [OF p] l e d show ?thesis by simp
qed

lemma structure_result:
  assumes "netns_fill_list K S (register_global_handlers V) supported os s mt = Some (0, mt', w)" and "e \<in> set (all_ifs w)"
  shows "case i_private (w_if w e) of
      NullPtr \<Rightarrow> i_driver (w_if w e) \<notin> Some ` set (needing_drivers @ following_drivers)
    | Ptr p \<Rightarrow> (\<exists>d. i_driver (w_if w e) = Some d \<and> fits d p)
    | BadPtr \<Rightarrow> i_driver (w_if w e) = Some ''geneve''"
proof -
  from fill_typed [OF assms(1)] have p: "private_ok (w_if w e)" by (simp add: typed_def)
  have f: "d \<notin> set following_drivers" if "i_driver (w_if w e) = Some d" "i_private (w_if w e) = NullPtr \<or> i_private (w_if w e) = BadPtr" for d
    using fill_structures [OF assms that(1)] that(2) by auto
  show ?thesis
  proof (cases "i_private (w_if w e)")
    case NullPtr
    with p f show ?thesis by (auto simp: private_ok_def split: option.splits)
  next
    case BadPtr
    with p f show ?thesis by (auto simp: private_ok_def freeing_drivers_def following_drivers_def split: option.splits)
  next
    case (Ptr q)
    with p show ?thesis by (auto simp: private_ok_def split: option.splits)
  qed
qed

text \<open>
  C6: The casts of the private structures are right: in what a successful run has collected,
  the private structure of an interface is the one of its driver's handler; the interfaces
  of bonding, team, VLAN, VXLAN and the tunnels, whose callbacks follow the pointer without a
  check, have one; and only that of a GENEVE interface can be dangling.
\<close>

theorem private_structures_typed:
  assumes "netns_fill_list K S (register_global_handlers V) supported os s mt = Some (0, mt', w)" and "e \<in> set (all_ifs w)"
  shows "case i_private (w_if w e) of
      NullPtr \<Rightarrow> i_driver (w_if w e) \<notin> Some ` set (needing_drivers @ following_drivers)
    | Ptr p \<Rightarrow> (\<exists>d. i_driver (w_if w e) = Some d \<and> fits d p)
    | BadPtr \<Rightarrow> i_driver (w_if w e) = Some ''geneve''"
  by (rule structure_result [OF assms])

theorem private_structures_typed_witness:
  "\<exists>w. netns_fill_list lone_kernel (lone_surroundings no_json) (register_global_handlers no_ovs) False ovs_state0 start_state at_start = Some (0, lone_mounts, w) \<and>
     n_ifaces (w_ns w 0) = [0] \<and> i_driver (w_if w 0) = Some ''loopback'' \<and> i_private (w_if w 0) = NullPtr"
proof -
  from lone_fill [of no_json] obtain w where w:
    "netns_fill_list lone_kernel (lone_surroundings no_json) (register_global_handlers no_ovs) False ovs_state0 start_state at_start = Some (0, lone_mounts, w)"
    "n_ifaces (w_ns w 0) = [0]" "w_list w = [0]" "idle (w_if w 0)" by blast
  then have "0 \<in> set (all_ifs w)" by (simp add: all_ifs_def)
  from private_structures_typed [OF w(1) this] w show ?thesis by (auto simp: idle_def)
qed

lemma live_result:
  assumes "typed w" and "i_private (w_if w e) \<noteq> BadPtr" and "mac_raw (i_mac_addr (w_if w e)) \<noteq> Ptr []"
  shows "if_live (w_if w e)"
proof -
  from assms(1) have "private_ok (w_if w e)" "addrs_live (w_if w e)" by (simp_all add: typed_def)
  with assms(2,3) show ?thesis
    by (cases "i_private (w_if w e)") (auto simp: if_live_def addrs_live_def private_ok_def needing_drivers_def fits_kinds)
qed

text \<open>
  C7: The program frees what it lists, without touching freed memory: after the name spaces
  have been collected, unless a GENEVE interface has a dangling structure, a link has an empty
  hardware address, the name of a name space is the literal that stands for a failed
  allocation, or the Open vSwitch bridges cannot be freed, the end of the program returns with
  success; no name space and no bridge is listed any more and no output is left; the name,
  the identifiers, the route tables and the interface list of every name space have been freed,
  and of every listed interface the private structure and the addresses, each by a pointer that
  was live or NULL, and the properties, names, labels, PCI paths and programs; and no other
  interface is touched.
\<close>

theorem shutdown_completes:
  assumes "netns_fill_list K S (register_global_handlers V) supported os st mt = Some (0, mt', w)" and "ovs_unlinked os"
    and "list_all destruct_bridge (rev (os_bridges (w_ovs w)))"
    and "\<And>e. e \<in> set (all_ifs w) \<Longrightarrow> mac_raw (i_mac_addr (w_if w e)) \<noteq> Ptr [] \<and>
      (i_driver (w_if w e) = Some ''geneve'' \<longrightarrow> i_private (w_if w e) \<noteq> BadPtr)"
    and "\<And>n. n \<in> set (w_list w) \<Longrightarrow> \<not> literal_name (w_ns w n)"
  shows "\<exists>v s'. finish sys cur w s = Some (0, v, s') \<and> fs_outputs s' = [] \<and> w_list v = [] \<and> os_bridges (w_ovs v) = [] \<and>
    (\<forall>n \<in> set (w_list w). ns_freed (w_ns v n)) \<and> freed_in (set (all_ifs w)) w v"
proof -
  let ?w = "set_bridges [] w"
  have c: "global_handler_cleanup (register_global_handlers (sy_ovs sys)) w = Some ?w"
    using assms(3) by (simp add: global_handler_cleanup_def register_global_handlers_def global_handler_register_def gh_ovs_def
        ovs_global_cleanup_def)
  have b: "w_list ?w = w_list w" "all_ifs ?w = all_ifs w" "w_if ?w = w_if w" "w_ns ?w = w_ns w" "os_bridges (w_ovs ?w) = []"
    by (simp_all add: set_bridges_def all_ifs_def)
  from netns_fill_list_well_formed [OF assms(1,2)] have "distinct (w_list ?w)" "distinct (all_ifs ?w)"
    unfolding b by (simp_all only: well_formed_def)
  moreover have "if_live (w_if ?w e)" if e: "e \<in> set (all_ifs ?w)" for e
    using live_result [OF fill_typed [OF assms(1)], of e] structure_result [OF assms(1), of e] assms(4) [of e] e
    unfolding b by (auto split: cptr.splits)
  moreover have "\<not> literal_name (w_ns ?w n)" if "n \<in> set (w_list ?w)" for n using assms(5) that unfolding b .
  ultimately obtain v where v: "netns_list_free (register_handlers (su_json (sy_around sys)) (su_teamd (sy_around sys)) (su_env (sy_around sys) cur))
      (register_netns_handlers (su_env (sy_around sys) cur) (\<lambda>_. su_routes (sy_around sys) cur)) ?w = Some (0, v)"
    "w_list v = []" "w_ovs v = w_ovs ?w" "\<forall>n \<in> set (w_list w). ns_freed (w_ns v n)" "freed_in (set (all_ifs w)) ?w v"
    using netns_list_free_result [of ?w, where J = "su_json (sy_around sys)" and teamds = "su_teamd (sy_around sys)" and
        env = "su_env (sy_around sys) cur" and sks = "\<lambda>_. su_routes (sy_around sys) cur"]
    unfolding b by blast
  have "freed_in (set (all_ifs w)) w v" using v(5) freed_cong [OF b(3) refl] by simp
  moreover have "finish sys cur w s = Some (0, v, frontend_cleanup s)" using v(1) by (simp add: finish_def c su_handlers_def)
  ultimately show ?thesis using v(2-4) b(5) by (intro exI [of _ v] exI [of _ "frontend_cleanup s"]) (simp add: frontend_cleanup_def)
qed

theorem shutdown_completes_witness:
  "\<exists>w v s'. n_ifaces (w_ns w 0) = [0] \<and> finish lone_system 10 w (fe_state0 []) = Some (0, v, s') \<and> n_ifaces (w_ns v 0) = [] \<and>
     i_name (w_if v 0) = []"
proof -
  from lone_fill [of no_json] obtain w where w:
    "netns_fill_list lone_kernel (lone_surroundings no_json) (register_global_handlers no_ovs) False ovs_state0 start_state at_start =
      Some (0, lone_mounts, w)"
    "n_ifaces (w_ns w 0) = [0]" "w_list w = [0]" "idle (w_if w 0)" "w_ovs w = ovs_state0" "n_pid (w_ns w 0) = 0" by blast
  from w(2,3) have a: "all_ifs w = [0]" by (simp add: all_ifs_def)
  have "\<exists>v s'. finish lone_system 10 w (fe_state0 []) = Some (0, v, s') \<and> fs_outputs s' = [] \<and> w_list v = [] \<and>
      os_bridges (w_ovs v) = [] \<and> (\<forall>n \<in> set (w_list w). ns_freed (w_ns v n)) \<and> freed_in (set (all_ifs w)) w v"
    by (rule shutdown_completes [OF w(1)])
      (use w(4,6) in \<open>simp_all add: a w(3,5) idle_def ovs_unlinked_def ovs_state0_def literal_name_def\<close>)
  then obtain v s' where "finish lone_system 10 w (fe_state0 []) = Some (0, v, s')" "ns_freed (w_ns v 0)" "freed_in {0} w v"
    by (auto simp: a w(3))
  with w(2) show ?thesis by (auto simp: ns_freed_def freed_in_def if_freed_def)
qed

end
