(* ===== verification/Spec2Isabelle.thy ===== *)
theory Spec2Isabelle
  imports NlRetry MasterPtr Mount Tunnel Bond Devices Veth Encap Team IfScan RouteH Registry ReadFrame OvsRound OvsLinks Netns Fill Dot Json Args Frontend Private
begin

text \<open>
  plotnetcfg reads the network configuration of a Linux system (the interfaces of all network
  name spaces, their addresses, routes, drivers and relations) through netlink, ioctls, sysfs,
  /proc, the team daemon and Open vSwitch's database, and prints it as a graph or as JSON.
  This development models the program's C code as functions and proves what makes its parts,
  and the whole, correct.

  \<^bold>\<open>How the program runs.\<close>  \<open>main\<close> (\<open>MainProg\<close>) registers options (its own, the front ends'
  and the one of Open vSwitch, \<open>--ovs-db\<close>), front ends and handlers, parses the command line (\<open>Args\<close>, \<open>Frontend\<close>), checks the capabilities, collects the name
  spaces (\<open>Netns\<close>) and fills the list (\<open>Fill\<close>): in every name space it mounts sysfs (\<open>Mount\<close>),
  dumps links and addresses (\<open>IfScan\<close>, over \<open>Nlsock\<close> and \<open>Nlmsg\<close>), lets the drivers' handlers
  read more (\<open>Handler\<close>, \<open>Registry\<close>; \<open>Bond\<close>, \<open>Devices\<close>, \<open>Veth\<close>, \<open>Encap\<close>, \<open>Team\<close>) and reads the
  routes (\<open>RouteH\<close>); then it resolves interface indices into pointers between interfaces
  (\<open>Master\<close>, \<open>Match\<close>), asks Open vSwitch (\<open>OvsDb\<close>, \<open>Ovs\<close>) and lets the handlers add the
  remaining relations (\<open>Tunnel\<close>).  The front ends write the result (\<open>Dot\<close>, \<open>Json\<close>), the list is
  freed (\<open>Cleanup\<close>), and however the program exits, what was registered with \<open>atexit\<close> removes the
  mount.

  \<^bold>\<open>How the code is represented.\<close>  A structure is a record with the members of the structure; the
  interfaces and name spaces live in a store, the \<open>world\<close> of \<open>IfModel\<close>, in which a pointer is a
  number and NULL is \<open>None\<close>.  A function of the program that returns an error number and works
  on this store is a \<open>wact\<close>: \<open>world \<Rightarrow> (int \<times> world) option\<close>, where \<open>None\<close> is a run without
  defined behaviour (a NULL or freed pointer that is followed, a string that is not there).
  \<open>andthen\<close> is the code's \<open>if ((err = f())) return err\<close>, \<open>ignoring\<close> a call whose result is not
  looked at, \<open>each_act\<close> a \<open>list_for_each\<close> that stops at an error.  Every allocation takes its
  outcome from the list \<open>mem\<close> (empty: memory suffices), so each failing \<open>malloc\<close> is a branch.
  Members that are freed or may be NULL have the type \<open>cptr\<close>.  Integers keep their width where
  it matters (\<open>u8\<close>, \<open>u16\<close>, \<open>u32\<close> are words), bytes of messages are \<open>u8 list\<close>, text is \<open>string\<close>.
  What the program gets from outside is an argument: the kernel's answers to system calls
  (\<open>nlenv\<close>, \<open>sock\<close>, \<open>kernel\<close>, \<open>sysfs\<close>, \<open>ethtool\<close>, \<open>teamd\<close>, \<open>ovs_env\<close>, \<open>files\<close>), the C library's
  address conversions, and the JSON library.

  \<^bold>\<open>The theories\<close>, with the source files under src/:
  \<^item> \<open>Prelude\<close>: error numbers, \<open>printf\<close> of numbers, chaining of calls, allocation, and \<open>keeps P f\<close>,
    that a call keeps an invariant, with its collection of introduction rules.
  \<^item> \<open>ListH\<close> (list.h): the intrusive lists on a heap of \<open>next\<close> and \<open>prev\<close> pointers; the locales
    \<open>stack_list\<close> and \<open>moving_lists\<close> say what the clients rely on.
  \<^item> \<open>Nlmsg\<close>, \<open>Nlsock\<close>, \<open>NlRetry\<close> (netlink.c, netlink.h): messages and attributes byte by byte,
    the receive and retry loops, bounded retries, completeness of dumps, progress.
  \<^item> \<open>Addr\<close> (addr.c), \<open>Sysfs\<close> (sysfs.c, ethtool.c), \<open>Mount\<close> (sysfs.c: the calls that mount
    and unmount, each of which may fail; the state of the mount goes through the loop of \<open>Fill\<close> and
    the phases of \<open>MainProg\<close>).
  \<^item> \<open>IfModel\<close> (if.h, netns.h, route.h, label.c, utils.c): data, labels, identifiers and their
    uniqueness; \<open>on_links P\<close>, that \<open>P\<close> only looks at what relates interfaces.
  \<^item> \<open>Match\<close> (match.c): the search loop and its specification \<open>best_match\<close>.
  \<^item> \<open>Master\<close> (master.c, match.c): the relation setters and the resolution of indices.  The locale
    \<open>relation\<close> is the contract master and link share, \<open>relating\<close> that of an invariant that
    resolution and handlers keep; it is interpreted with consistency of the relations, with
    \<open>within\<close> (only listed interfaces are related), and in later theories with \<open>placed\<close> and the
    state of Open vSwitch.  \<open>MasterPtr\<close> has the setters on pointers and a simulation that
    connects them with the lists of \<open>Master\<close>.
  \<^item> \<open>Tunnel\<close> (tunnel.c), \<open>Handler\<close> (handler.c: dispatch, with the locales \<open>reader\<close> and \<open>registry\<close>),
    \<open>Bond\<close>, \<open>Devices\<close> (bridge.c, vlan.c, macsec.c, xfrm.c, iov.c), \<open>Veth\<close>, \<open>Encap\<close> (gre.c, vti.c,
    ipxipy.c, vxlan.c, geneve.c), \<open>Team\<close> (all under handlers/), \<open>IfScan\<close> (if.c), \<open>RouteH\<close>
    (handlers/route.c, route.c), \<open>Registry\<close> (register_handlers of main.c; \<open>sublocale\<close> from
    \<open>relating\<close> to \<open>registry\<close>: what resolution keeps, every handler phase keeps).  \<open>ReadFrame\<close> has
    no code of its own: reading a name space leaves every interface read before as it was, and
    what the handlers leave of an interface without its driver's data.
  \<^item> \<open>OvsDb\<close>, \<open>Ovs\<close> (handlers/openvswitch.c), \<open>JsonBuild\<close> (the request to the database server);
    \<open>OvsRound\<close> writes a database as the server does (rows under their UUIDs, with every column
    that was asked for, whatever is in the others) and reads it back, \<open>OvsSound\<close> shows that the
    handler keeps the invariant although it creates interfaces, \<open>OvsLinks\<close> where it puts them.
  \<^item> \<open>Netns\<close>, \<open>Fill\<close> (netns.c): collecting the name spaces, reading them, and \<open>well_formed\<close>, the
    invariant of the finished list.
  \<^item> \<open>Dot\<close> (frontends/dot.c), \<open>Json\<close> (frontends/json.c), with \<open>Cable\<close>, an example for both: what
    can be read back from the output.
  \<^item> \<open>Args\<close> (args.c), \<open>Frontend\<close> (frontend.c), \<open>Cleanup\<close> (netns.c, if.c), \<open>MainProg\<close> (main.c;
    the option and the default path of the database, handlers/openvswitch.c).  Opening, closing
    and writing files may fail: \<open>fl_take\<close> says how much of each text arrives.
  \<^item> \<open>Private\<close> has no code of its own: it follows the untyped \<open>handler_private\<close> pointers and the
    addresses of the interfaces through the whole run, from the first \<open>calloc\<close> to the last \<open>free\<close>.

  \<^bold>\<open>What is shown.\<close>  The central invariant (\<open>main_writes_consistent\<close>): what a successful run
  writes shows one list in which relations, reverse lists and peers agree, whatever is related
  is listed, and every interface is listed once, in its name space; hence the dot graph is
  closed (\<open>dot_closed\<close>).  It is assembled from the contract of every phase.  Around it stand the functional
  correctness of the phases (\<open>if_list_one_per_link\<close>, \<open>netns_collect_distinct\<close>,
  \<open>master_resolve_targets\<close>, \<open>veth_post_pairs\<close>, \<open>tunnel_post_links\<close>, \<open>link_ifaces_connects\<close>,
  \<open>route_scan_tables\<close>, \<open>options_outputs\<close>), round trips (\<open>nla_put_roundtrip\<close>, \<open>parse_roundtrip\<close>,
  \<open>dot_roundtrip\<close>), a refinement (\<open>master_set_refines\<close>), the type soundness of
  the casts in the handlers' callbacks (\<open>private_structures_typed\<close>) with a shutdown that frees
  what is listed (\<open>shutdown_completes\<close>) and leaves nothing mounted (\<open>sysfs_left_clean\<close>), termination and progress of the netlink
  exchange, memory safety of the list code, the attribute loop and the buffers, and theorems
  that pin down what the code does on the inputs it does not handle well (their conclusions are
  the errors, crashes and lost data of the code as it is).

  \<^bold>\<open>Bounds and fuel.\<close>  \<open>NL_RETRY_COUNT\<close> (16) is the code's own bound of the exchange loop, which
  recurses on it.  The loop that doubles a message's size is a \<open>partial_function\<close>, because it
  may run forever; it is shown to return up to \<open>2 ^ 31\<close> bytes and not to return beyond.  Loops
  over heap lists take fuel, which one more than the number of nodes suffices for.  \<open>read_all\<close>
  and the team daemon's read loop recurse on the list of the results of \<open>read\<close>.  The receive
  loop of the code ends when \<open>poll\<close> times out, which is what the model does when its list of
  events is used up.  Fixed buffers are modelled with their sizes: \<open>PATH_MAX\<close> 4096, the help
  text's 512 bytes, the 16384 bytes of a datagram, the page of a sysfs file, and the
  identifier buffers, which are shown never to cut a name the kernel allows.

  \<^bold>\<open>What is not modelled.\<close>  Code that is not under src/ is an argument (the JSON library,
  \<open>inet_ntop\<close> and \<open>inet_pton\<close>, \<open>ctime\<close>), except for the parts of the C library that are language
  (\<open>strlen\<close>, \<open>atoi\<close>, \<open>getopt_long\<close> as far as the program uses it).  System calls are outcomes,
  so the wrappers that do nothing else (\<open>ethtool_ioctl\<close>, \<open>team_connect\<close>, closing of descriptors)
  have no definition of their own.  Functions that only free what their caller forgets
  afterwards (\<open>label_free\<close>, \<open>nlmsg_free\<close>, \<open>route_destruct\<close>, \<open>destruct_if\<close>) are not modelled;
  where freeing matters, as for the private structures of the handlers, the port structures of
  Open vSwitch and the lists of \<open>Cleanup\<close>, it is.  The handlers' registration functions are
  the list of \<open>register_handlers\<close>.  The front ends assume that the JSON library has memory and
  that texts are UTF-8, as the code does.  compat.h only names constants of newer
  kernels, which are definitions where they are used.  Of \<open>shutdown_completes\<close>'s conditions three are
  the code's own defects (a GENEVE link without driver data, trunks freed twice, a literal as the
  name of a name space); the fourth, a link-layer address of length 0, is where \<open>malloc (0)\<close> returns a block without content, which the
  model does not tell from an invalid pointer.
\<close>

end
